(* ===== verification/Usb_Prelude.thy ===== *)
theory Usb_Prelude
  imports Main "HOL-Library.Word"
begin

text \<open>
  Shared vocabulary of the development: the machine words of the program, the outcome of a
  C++ call, programs with state and exceptions, and the rules by which the component theories
  reason about them.

  A C++ function may return, throw an exception derived from \<^verbatim>\<open>std::exception\<close>, end the
  process (an exception that leaves a \<^verbatim>\<open>noexcept\<close> function calls \<^verbatim>\<open>std::terminate\<close>), reach
  undefined behaviour, or never return (an endless loop, or a mutex that is never released).
  All five are values of \<open>outcome\<close>, so that no property is silently restricted to the
  calls that return.
\<close>

section \<open>Machine words\<close>

type_synonym u32 = "32 word"
type_synonym u64 = "64 word"

section \<open>Outcomes of a call\<close>

text \<open>The exception classes the sources throw or let through.\<close>

datatype exn =
    Invalid_argument
  | Out_of_range
  | Logic_error
  | Runtime_error
  | System_error
  | Filesystem_error

datatype failure =
    Exc exn      \<comment> \<open>an exception is in flight\<close>
  | Terminated   \<comment> \<open>\<^verbatim>\<open>std::terminate\<close> was called\<close>
  | Undefined    \<comment> \<open>undefined behaviour was reached\<close>
  | Hangs        \<comment> \<open>the call never returns\<close>

datatype 'a outcome = Ok 'a | Fail failure

abbreviation throws :: "exn \<Rightarrow> 'a outcome" where
  "throws e \<equiv> Fail (Exc e)"

fun obind :: "'a outcome \<Rightarrow> ('a \<Rightarrow> 'b outcome) \<Rightarrow> 'b outcome" where
  "obind (Ok a) f = f a"
| "obind (Fail e) f = Fail e"

lemma obind_eq_Ok: "obind m f = Ok b \<longleftrightarrow> (\<exists>a. m = Ok a \<and> f a = Ok b)"
  by (cases m) auto

lemma obind_assoc: "obind (obind m f) g = obind m (\<lambda>a. obind (f a) g)"
  by (cases m) auto

text \<open>Running a fallible function over a list, left to right, stopping at the first failure.\<close>

fun omap :: "('a \<Rightarrow> 'b outcome) \<Rightarrow> 'a list \<Rightarrow> 'b list outcome" where
  "omap f [] = Ok []"
| "omap f (x # xs) = obind (f x) (\<lambda>y. obind (omap f xs) (\<lambda>ys. Ok (y # ys)))"

lemma omap_Ok: "(\<And>x. x \<in> set xs \<Longrightarrow> f x = Ok (g x)) \<Longrightarrow> omap f xs = Ok (map g xs)"
  by (induction xs) auto

lemma omap_map: "omap f (map g xs) = omap (\<lambda>x. f (g x)) xs"
  by (induction xs) auto

lemma omap_eq_Ok_length: "omap f xs = Ok ys \<Longrightarrow> length ys = length xs"
  by (induction xs arbitrary: ys) (auto simp: obind_eq_Ok)

lemma omap_eq_Ok_mem:
  "omap f xs = Ok ys \<Longrightarrow> y \<in> set ys \<Longrightarrow> \<exists>x \<in> set xs. f x = Ok y"
  by (induction xs arbitrary: ys) (auto simp: obind_eq_Ok)

section \<open>Programs with state\<close>

text \<open>
  A stateful call takes the state and returns its outcome with the new state. A failing call
  keeps the state changes made before it failed, as the C++ does.
\<close>

type_synonym ('s, 'a) prog = "'s \<Rightarrow> 'a outcome \<times> 's"

definition ret :: "'a \<Rightarrow> ('s, 'a) prog" where
  "ret a = (\<lambda>s. (Ok a, s))"

definition fail :: "failure \<Rightarrow> ('s, 'a) prog" where
  "fail e = (\<lambda>s. (Fail e, s))"

definition liftO :: "'a outcome \<Rightarrow> ('s, 'a) prog" where
  "liftO r = (\<lambda>s. (r, s))"

definition getp :: "('s \<Rightarrow> 'a) \<Rightarrow> ('s, 'a) prog" where
  "getp f = (\<lambda>s. (Ok (f s), s))"

definition modp :: "('s \<Rightarrow> 's) \<Rightarrow> ('s, unit) prog" where
  "modp f = (\<lambda>s. (Ok (), f s))"

definition bindp :: "('s, 'a) prog \<Rightarrow> ('a \<Rightarrow> ('s, 'b) prog) \<Rightarrow> ('s, 'b) prog" where
  "bindp m k = (\<lambda>s. case m s of (Ok a, t) \<Rightarrow> k a t | (Fail e, t) \<Rightarrow> (Fail e, t))"

text \<open>\<^verbatim>\<open>try { m } catch (const std::exception &) { h }\<close>\<close>

definition tryp :: "('s, 'a) prog \<Rightarrow> ('s, 'a) prog \<Rightarrow> ('s, 'a) prog" where
  "tryp m h = (\<lambda>s. case m s of (Fail (Exc e), t) \<Rightarrow> h t | r \<Rightarrow> r)"

text \<open>A \<^verbatim>\<open>noexcept\<close> function: an exception that would leave it ends the process.\<close>

definition noexceptp :: "('s, 'a) prog \<Rightarrow> ('s, 'a) prog" where
  "noexceptp m = (\<lambda>s. case m s of (Fail (Exc e), t) \<Rightarrow> (Fail Terminated, t) | r \<Rightarrow> r)"

text \<open>A range \<^verbatim>\<open>for\<close>.\<close>

fun foreach :: "('a \<Rightarrow> ('s, unit) prog) \<Rightarrow> 'a list \<Rightarrow> ('s, unit) prog" where
  "foreach f [] = ret ()"
| "foreach f (x # xs) = bindp (f x) (\<lambda>_. foreach f xs)"

text \<open>
  A loop given as a partial function: \<open>None\<close> is a run that never ends.
\<close>

definition hangp :: "('s \<Rightarrow> ('a outcome \<times> 's) option) \<Rightarrow> ('s, 'a) prog" where
  "hangp f = (\<lambda>s. case f s of None \<Rightarrow> (Fail Hangs, s) | Some r \<Rightarrow> r)"

lemmas prog_defs = ret_def fail_def liftO_def getp_def modp_def

subsection \<open>Evaluation\<close>

lemma bindp_Ok [simp]: "m s = (Ok a, t) \<Longrightarrow> bindp m k s = k a t"
  by (simp add: bindp_def)

lemma bindp_Fail [simp]: "m s = (Fail e, t) \<Longrightarrow> bindp m k s = (Fail e, t)"
  by (simp add: bindp_def)

lemma bindp_ret [simp]: "bindp (ret a) k = k a"
  by (simp add: bindp_def ret_def)

lemma bindp_getp [simp]: "bindp (getp f) k s = k (f s) s"
  by (simp add: bindp_def getp_def)

lemma bindp_modp [simp]: "bindp (modp f) k s = k () (f s)"
  by (simp add: bindp_def modp_def)

lemma bindp_liftO_Ok [simp]: "bindp (liftO (Ok a)) k = k a"
  by (simp add: bindp_def liftO_def)

lemma bindp_liftO_Fail [simp]: "bindp (liftO (Fail e)) k = fail e"
  by (simp add: bindp_def liftO_def fail_def fun_eq_iff)

lemma bindp_fail [simp]: "bindp (fail e) k = fail e"
  by (simp add: bindp_def fail_def fun_eq_iff)

lemma bindp_assoc: "bindp (bindp m f) g = bindp m (\<lambda>a. bindp (f a) g)"
  by (auto simp: bindp_def fun_eq_iff split: prod.splits outcome.splits)

lemma run_ret [simp]: "ret a s = (Ok a, s)"
  and run_fail [simp]: "fail e s = (Fail e, s)"
  and run_liftO [simp]: "liftO r s = (r, s)"
  and run_getp [simp]: "getp f s = (Ok (f s), s)"
  and run_modp [simp]: "modp g s = (Ok (), g s)"
  by (simp_all add: prog_defs)

lemma tryp_Ok [simp]: "m s = (Ok a, t) \<Longrightarrow> tryp m h s = (Ok a, t)"
  by (simp add: tryp_def)

lemma tryp_Exc [simp]: "m s = (throws e, t) \<Longrightarrow> tryp m h s = h t"
  by (simp add: tryp_def)

lemma noexceptp_Ok [simp]: "m s = (Ok a, t) \<Longrightarrow> noexceptp m s = (Ok a, t)"
  by (simp add: noexceptp_def)

lemma noexceptp_Exc [simp]: "m s = (throws e, t) \<Longrightarrow> noexceptp m s = (Fail Terminated, t)"
  by (simp add: noexceptp_def)

lemma bindp_eq_Ok:
  "bindp m k s = (Ok b, u) \<longleftrightarrow> (\<exists>a t. m s = (Ok a, t) \<and> k a t = (Ok b, u))"
  by (auto simp: bindp_def split: prod.splits outcome.splits)

section \<open>Facts about every run\<close>

text \<open>
  \<open>keeps P m\<close>: whatever the outcome of \<open>m\<close>, the predicate \<open>P\<close> of the state is kept.
  The rules below are collected in \<open>keeps\<close>; a component adds the rule of each of its
  operations, and a composed operation is then proved by \<open>intro keeps\<close>.
\<close>

definition keeps :: "('s \<Rightarrow> bool) \<Rightarrow> ('s, 'a) prog \<Rightarrow> bool" where
  "keeps P m \<longleftrightarrow> (\<forall>s. P s \<longrightarrow> P (snd (m s)))"

named_theorems keeps_rules

lemma keepsI: "(\<And>s. P s \<Longrightarrow> P (snd (m s))) \<Longrightarrow> keeps P m"
  by (simp add: keeps_def)

lemma keepsD: "keeps P m \<Longrightarrow> P s \<Longrightarrow> P (snd (m s))"
  by (simp add: keeps_def)

lemma keepsE: "keeps P m \<Longrightarrow> P s \<Longrightarrow> m s = (r, t) \<Longrightarrow> P t"
  by (metis keepsD snd_conv)

lemma keeps_ret [keeps_rules]: "keeps P (ret a)"
  and keeps_fail [keeps_rules]: "keeps P (fail e)"
  and keeps_liftO [keeps_rules]: "keeps P (liftO r)"
  and keeps_getp [keeps_rules]: "keeps P (getp f)"
  by (simp_all add: keeps_def)

lemma keeps_modp: "(\<And>s. P s \<Longrightarrow> P (f s)) \<Longrightarrow> keeps P (modp f)"
  by (simp add: keeps_def)

lemma keeps_bindp [keeps_rules]:
  "keeps P m \<Longrightarrow> (\<And>a. keeps P (k a)) \<Longrightarrow> keeps P (bindp m k)"
  by (fastforce simp: keeps_def bindp_def split: prod.splits outcome.splits)

lemma keeps_tryp [keeps_rules]: "keeps P m \<Longrightarrow> keeps P h \<Longrightarrow> keeps P (tryp m h)"
  by (fastforce simp: keeps_def tryp_def split: prod.splits outcome.splits failure.splits)

lemma keeps_noexceptp [keeps_rules]: "keeps P m \<Longrightarrow> keeps P (noexceptp m)"
  by (fastforce simp: keeps_def noexceptp_def split: prod.splits outcome.splits failure.splits)

lemma keeps_if [keeps_rules]: "(b \<Longrightarrow> keeps P m) \<Longrightarrow> (\<not> b \<Longrightarrow> keeps P n) \<Longrightarrow> keeps P (if b then m else n)"
  by simp

lemma keeps_option [keeps_rules]:
  "(x = None \<Longrightarrow> keeps P m) \<Longrightarrow> (\<And>a. x = Some a \<Longrightarrow> keeps P (f a)) \<Longrightarrow>
   keeps P (case x of None \<Rightarrow> m | Some a \<Rightarrow> f a)"
  by (simp split: option.splits)

lemma keeps_foreach [keeps_rules]: "(\<And>x. x \<in> set xs \<Longrightarrow> keeps P (f x)) \<Longrightarrow> keeps P (foreach f xs)"
  by (induction xs) (auto intro!: keeps_rules)

lemma keeps_hangp:
  "(\<And>s r. P s \<Longrightarrow> f s = Some r \<Longrightarrow> P (snd r)) \<Longrightarrow> keeps P (hangp f)"
  by (auto simp: keeps_def hangp_def split: option.splits)

text \<open>
  \<open>yields R m\<close>: every value that \<open>m\<close> returns satisfies \<open>R\<close>. It lets the rule for a sequence
  use what the first part returned.
\<close>

definition yields :: "('a \<Rightarrow> bool) \<Rightarrow> ('s, 'a) prog \<Rightarrow> bool" where
  "yields R m \<longleftrightarrow> (\<forall>s a t. m s = (Ok a, t) \<longrightarrow> R a)"

named_theorems yields_rules

lemma yieldsD: "yields R m \<Longrightarrow> m s = (Ok a, t) \<Longrightarrow> R a"
  unfolding yields_def by blast

lemma yields_ret [yields_rules]: "R a \<Longrightarrow> yields R (ret a)"
  and yields_fail [yields_rules]: "yields R (fail e)"
  by (simp_all add: yields_def)

lemma yields_bindp [yields_rules]: "(\<And>a. yields R (k a)) \<Longrightarrow> yields R (bindp m k)"
  unfolding yields_def bindp_eq_Ok by blast

lemma yields_bindp_with:
  "yields S m \<Longrightarrow> (\<And>a. S a \<Longrightarrow> yields R (k a)) \<Longrightarrow> yields R (bindp m k)"
  unfolding yields_def bindp_eq_Ok by blast

lemma yields_tryp [yields_rules]: "yields R m \<Longrightarrow> yields R h \<Longrightarrow> yields R (tryp m h)"
  by (fastforce simp: yields_def tryp_def split: prod.splits outcome.splits failure.splits)

lemma yields_noexceptp [yields_rules]: "yields R m \<Longrightarrow> yields R (noexceptp m)"
  by (fastforce simp: yields_def noexceptp_def split: prod.splits outcome.splits failure.splits)

lemma yields_if [yields_rules]:
  "(b \<Longrightarrow> yields R m) \<Longrightarrow> (\<not> b \<Longrightarrow> yields R n) \<Longrightarrow> yields R (if b then m else n)"
  by simp

lemma yields_option [yields_rules]:
  "(x = None \<Longrightarrow> yields R m) \<Longrightarrow> (\<And>a. x = Some a \<Longrightarrow> yields R (f a)) \<Longrightarrow>
   yields R (case x of None \<Rightarrow> m | Some a \<Rightarrow> f a)"
  by (simp split: option.splits)

lemma keeps_bindp_with:
  "keeps P m \<Longrightarrow> yields R m \<Longrightarrow> (\<And>a. R a \<Longrightarrow> keeps P (k a)) \<Longrightarrow> keeps P (bindp m k)"
  by (fastforce simp: keeps_def yields_def bindp_def split: prod.splits outcome.splits)

lemma keeps_bindp_pair:
  "keeps P m \<Longrightarrow> yields (\<lambda>(a, b). R a b) m \<Longrightarrow> (\<And>a b. R a b \<Longrightarrow> keeps P (k a b)) \<Longrightarrow>
   keeps P (bindp m (\<lambda>(a, b). k a b))"
  by (rule keeps_bindp_with [where R = "\<lambda>(a, b). R a b"]) auto

lemma yields_Let [yields_rules]: "(\<And>x. x = a \<Longrightarrow> yields R (f x)) \<Longrightarrow> yields R (Let a f)"
  by simp

lemma yields_hangp: "(\<And>s a t. f s = Some (Ok a, t) \<Longrightarrow> R a) \<Longrightarrow> yields R (hangp f)"
  by (auto simp: yields_def hangp_def split: option.splits)

lemma keeps_Let [keeps_rules]: "(\<And>x. x = a \<Longrightarrow> keeps P (f x)) \<Longrightarrow> keeps P (Let a f)"
  by simp

lemma keeps_case_pair [keeps_rules]:
  "(\<And>a b. x = (a, b) \<Longrightarrow> keeps P (f a b)) \<Longrightarrow> keeps P (case x of (a, b) \<Rightarrow> f a b)"
  by (cases x) simp

text \<open>
  \<open>triple P m Q\<close>: from a state with \<open>P\<close>, the outcome and the new state satisfy \<open>Q\<close>.
\<close>

definition triple :: "('s \<Rightarrow> bool) \<Rightarrow> ('s, 'a) prog \<Rightarrow> ('a outcome \<Rightarrow> 's \<Rightarrow> bool) \<Rightarrow> bool" where
  "triple P m Q \<longleftrightarrow> (\<forall>s. P s \<longrightarrow> Q (fst (m s)) (snd (m s)))"

lemma tripleD: "triple P m Q \<Longrightarrow> P s \<Longrightarrow> m s = (r, t) \<Longrightarrow> Q r t"
  by (metis triple_def fst_conv snd_conv)

section \<open>Lists\<close>

lemma dropWhile_nil_or: "dropWhile P xs = [] \<or> \<not> P (hd (dropWhile P xs))"
  by (metis hd_dropWhile)

lemma takeWhile_all: "(\<And>x. x \<in> set xs \<Longrightarrow> P x) \<Longrightarrow> takeWhile P xs = xs"
  by (simp add: takeWhile_eq_all_conv)

lemma find_eq_None: "find P xs = None \<longleftrightarrow> (\<forall>x \<in> set xs. \<not> P x)"
  by (auto simp: find_None_iff)

lemma find_SomeD: "find P xs = Some x \<Longrightarrow> x \<in> set xs \<and> P x"
  by (auto simp: find_Some_iff)

end
