(* ===== verification/Std_Map.thy ===== *)
theory Std_Map
  imports Usb_Prelude
begin

text \<open>
  \<^verbatim>\<open>std::map\<close> as the tables use it: a list of key and value pairs in increasing key
  order. The contract of the container is the locale \<open>ordered_store\<close>; what the tables rely
  on (a fresh key goes to the end, the first match has the least key) is proved once inside it
  and reached through the interpretation \<open>std_map\<close> at the end.
\<close>

type_synonym ('k, 'v) smap = "('k \<times> 'v) list"

definition smap_inv :: "('k::linorder, 'v) smap \<Rightarrow> bool" where
  "smap_inv m \<longleftrightarrow> sorted_wrt (<) (map fst m)"

text \<open>\<^verbatim>\<open>emplace\<close> leaves an existing entry alone.\<close>

fun smap_emplace :: "'k::linorder \<Rightarrow> 'v \<Rightarrow> ('k, 'v) smap \<Rightarrow> ('k, 'v) smap" where
  "smap_emplace k v [] = [(k, v)]"
| "smap_emplace k v ((k', v') # m) =
     (if k < k' then (k, v) # (k', v') # m
      else if k = k' then (k', v') # m
      else (k', v') # smap_emplace k v m)"

text \<open>\<^verbatim>\<open>at(k) = v\<close> for a key that is present, and \<^verbatim>\<open>erase(k)\<close>.\<close>

definition smap_assign :: "'k \<Rightarrow> 'v \<Rightarrow> ('k, 'v) smap \<Rightarrow> ('k, 'v) smap" where
  "smap_assign k v m = map (\<lambda>(k', v'). (k', if k' = k then v else v')) m"

definition smap_erase :: "'k \<Rightarrow> ('k, 'v) smap \<Rightarrow> ('k, 'v) smap" where
  "smap_erase k m = filter (\<lambda>(k', v'). k' \<noteq> k) m"

definition smap_count :: "('k, 'v) smap \<Rightarrow> 'k \<Rightarrow> bool" where
  "smap_count m k \<longleftrightarrow> map_of m k \<noteq> None"

text \<open>\<^verbatim>\<open>std::find_if\<close> over the entries, giving the key.\<close>

definition smap_find_key :: "('v \<Rightarrow> bool) \<Rightarrow> ('k, 'v) smap \<Rightarrow> 'k option" where
  "smap_find_key P m = map_option fst (find (\<lambda>(k, v). P v) m)"

section \<open>Sorted association lists\<close>

lemma sorted_assoc_unique:
  fixes xs ys :: "('k::linorder \<times> 'v) list"
  assumes "sorted_wrt (<) (map fst xs)" "sorted_wrt (<) (map fst ys)" "map_of xs = map_of ys"
  shows "xs = ys"
proof -
  have d: "distinct (map fst xs)" "distinct (map fst ys)"
    using assms(1,2) strict_sorted_iff by blast+
  have s: "set xs = set ys"
    using d assms(3) by (metis map_of_eq_Some_iff set_eqI surj_pair)
  have "inj_on fst (set xs \<union> set ys)"
    using d(1) s by (simp add: distinct_map)
  then show ?thesis
    using assms(1,2) d s by (intro map_sorted_distinct_set_unique) (simp_all add: strict_sorted_imp_sorted)
qed

lemma map_of_smap_emplace:
  "smap_inv m \<Longrightarrow> map_of (smap_emplace k v m) =
     (case map_of m k of None \<Rightarrow> (map_of m)(k \<mapsto> v) | Some _ \<Rightarrow> map_of m)"
proof (induction k v m rule: smap_emplace.induct)
  case (2 k v k' v' m)
  then have "\<And>w. k < k' \<Longrightarrow> map_of m k \<noteq> Some w"
    by (fastforce simp: smap_inv_def dest: map_of_SomeD)
  with 2 show ?case
    by (auto simp: smap_inv_def fun_eq_iff split: option.splits)
qed (simp add: smap_inv_def)

lemma smap_emplace_split:
  "smap_emplace k v m = m \<or> (\<exists>a b. m = a @ b \<and> smap_emplace k v m = a @ (k, v) # b)"
proof (induction k v m rule: smap_emplace.induct)
  case (2 k v k' v' m)
  show ?case
  proof (cases "k < k'")
    case True
    then have "smap_emplace k v ((k', v') # m) = [] @ (k, v) # (k', v') # m" by simp
    then show ?thesis by (metis append_Nil)
  next
    case False
    show ?thesis
    proof (cases "k = k'")
      case False
      with 2 \<open>\<not> k < k'\<close> consider "smap_emplace k v m = m" |
        a b where "m = a @ b" "smap_emplace k v m = a @ (k, v) # b" by blast
      then show ?thesis
      proof cases
        case 2
        then have "smap_emplace k v ((k', v') # m) = ((k', v') # a) @ (k, v) # b"
          using False \<open>\<not> k < k'\<close> by simp
        moreover have "(k', v') # m = ((k', v') # a) @ b" using 2 by simp
        ultimately show ?thesis by blast
      qed (use \<open>\<not> k < k'\<close> False in simp)
    qed simp
  qed
qed (metis append_Nil smap_emplace.simps(1))

lemma fst_set_smap_emplace: "fst ` set (smap_emplace k v m) = insert k (fst ` set m)"
  by (induction k v m rule: smap_emplace.induct) auto

lemma smap_inv_emplace: "smap_inv m \<Longrightarrow> smap_inv (smap_emplace k v m)"
proof (induction k v m rule: smap_emplace.induct)
  case (2 k v k' v' m)
  show ?case
  proof (cases "k' < k")
    case True
    with 2 have "sorted_wrt (<) (map fst (smap_emplace k v m))" by (simp add: smap_inv_def)
    moreover have "\<forall>x \<in> fst ` set (smap_emplace k v m). k' < x"
      using 2(2) True unfolding fst_set_smap_emplace by (auto simp: smap_inv_def)
    moreover have "smap_emplace k v ((k', v') # m) = (k', v') # smap_emplace k v m"
      using True by auto
    ultimately show ?thesis by (simp add: smap_inv_def)
  next
    case False
    with 2(2) show ?thesis by (auto simp: smap_inv_def)
  qed
qed (simp add: smap_inv_def)

lemma map_fst_smap_assign [simp]: "map fst (smap_assign k v m) = map fst m"
  by (induction m) (auto simp: smap_assign_def)

lemma map_of_smap_assign:
  "map_of (smap_assign k v m) = (if map_of m k = None then map_of m else (map_of m)(k \<mapsto> v))"
  by (induction m) (auto simp: smap_assign_def fun_eq_iff)

lemma map_of_smap_erase: "map_of (smap_erase k m) = (map_of m)(k := None)"
  by (induction m) (auto simp: smap_erase_def fun_eq_iff)

lemma smap_inv_filter: "smap_inv m \<Longrightarrow> smap_inv (filter P m)"
  by (auto simp: smap_inv_def sorted_wrt_map intro: sorted_wrt_filter)

section \<open>The contract of the container\<close>

locale ordered_store =
  fixes entries :: "'m \<Rightarrow> ('k::linorder \<times> 'v) list"
    and emplace :: "'k \<Rightarrow> 'v \<Rightarrow> 'm \<Rightarrow> 'm"
    and assign :: "'k \<Rightarrow> 'v \<Rightarrow> 'm \<Rightarrow> 'm"
    and erase :: "'k \<Rightarrow> 'm \<Rightarrow> 'm"
    and invar :: "'m \<Rightarrow> bool"
  assumes entries_sorted: "invar m \<Longrightarrow> sorted_wrt (<) (map fst (entries m))"
    and lookup_emplace: "invar m \<Longrightarrow> map_of (entries (emplace k v m)) =
      (case map_of (entries m) k of None \<Rightarrow> (map_of (entries m))(k \<mapsto> v)
       | Some _ \<Rightarrow> map_of (entries m))"
    and lookup_assign: "invar m \<Longrightarrow> map_of (entries (assign k v m)) =
      (if map_of (entries m) k = None then map_of (entries m) else (map_of (entries m))(k \<mapsto> v))"
    and lookup_erase: "invar m \<Longrightarrow> map_of (entries (erase k m)) = (map_of (entries m))(k := None)"
    and invar_emplace: "invar m \<Longrightarrow> invar (emplace k v m)"
    and invar_assign: "invar m \<Longrightarrow> invar (assign k v m)"
    and invar_erase: "invar m \<Longrightarrow> invar (erase k m)"
begin

lemma distinct_keys: "invar m \<Longrightarrow> distinct (map fst (entries m))"
  using entries_sorted strict_sorted_iff by blast

lemma lookup_iff: "invar m \<Longrightarrow> map_of (entries m) k = Some v \<longleftrightarrow> (k, v) \<in> set (entries m)"
  using distinct_keys by (simp add: map_of_eq_Some_iff)

text \<open>A key above all others is appended: the new entry is the last one.\<close>

lemma emplace_above:
  assumes "invar m" and "\<And>k'. k' \<in> fst ` set (entries m) \<Longrightarrow> k' < k"
  shows "entries (emplace k v m) = entries m @ [(k, v)]"
proof (rule sorted_assoc_unique)
  show "sorted_wrt (<) (map fst (entries (emplace k v m)))"
    using assms(1) by (intro entries_sorted invar_emplace)
  show "sorted_wrt (<) (map fst (entries m @ [(k, v)]))"
    using assms entries_sorted by (auto simp: sorted_wrt_append)
  have fresh: "map_of (entries m) k = None"
    using assms(2) by (force simp: map_of_eq_None_iff)
  then show "map_of (entries (emplace k v m)) = map_of (entries m @ [(k, v)])"
    using assms(1)
    by (auto simp: lookup_emplace map_add_def fun_eq_iff split: option.splits)
qed

text \<open>An existing key is left alone.\<close>

lemma emplace_existing:
  assumes "invar m" and "map_of (entries m) k = Some w"
  shows "entries (emplace k v m) = entries m"
  using assms
  by (intro sorted_assoc_unique) (simp_all add: entries_sorted invar_emplace lookup_emplace)

text \<open>The first match in iteration order is the match with the least key.\<close>

lemma find_key_least:
  assumes "invar m" and "smap_find_key P (entries m) = Some k"
  shows "(\<exists>v. map_of (entries m) k = Some v \<and> P v) \<and>
    (\<forall>k' v'. map_of (entries m) k' = Some v' \<and> P v' \<longrightarrow> k \<le> k')"
proof -
  obtain v where f: "find (\<lambda>(k, v). P v) (entries m) = Some (k, v)"
    using assms(2) by (auto simp: smap_find_key_def)
  then obtain i where i: "i < length (entries m)" "entries m ! i = (k, v)" "P v"
    "\<And>j. j < i \<Longrightarrow> \<not> P (snd (entries m ! j))"
    unfolding find_Some_iff by (auto simp: split_beta) (metis snd_conv)
  have "k \<le> k'" if k': "map_of (entries m) k' = Some v'" "P v'" for k' v'
  proof -
    obtain j where j: "j < length (entries m)" "entries m ! j = (k', v')"
      using k'(1) assms(1) by (auto simp: lookup_iff in_set_conv_nth)
    then have "\<not> j < i" using i(4) k'(2) by force
    moreover have "i < j \<Longrightarrow> k < k'"
      using sorted_wrt_nth_less [OF entries_sorted [OF assms(1)], of i j] i j by simp
    ultimately show ?thesis using i(2) j(2) by (cases "i = j") auto
  qed
  moreover have "map_of (entries m) k = Some v"
    using i(1,2) assms(1) by (metis lookup_iff nth_mem)
  ultimately show ?thesis using i(3) by blast
qed

lemma find_key_None:
  "invar m \<Longrightarrow> smap_find_key P (entries m) = None \<longleftrightarrow>
     (\<forall>k v. map_of (entries m) k = Some v \<longrightarrow> \<not> P v)"
  by (auto simp: smap_find_key_def find_None_iff lookup_iff)

end

lemma smap_inv_assign: "smap_inv (smap_assign k v m) = smap_inv m"
  by (simp add: smap_inv_def)

lemma smap_inv_erase: "smap_inv m \<Longrightarrow> smap_inv (smap_erase k m)"
  by (simp add: smap_erase_def smap_inv_filter)

interpretation std_map: ordered_store "\<lambda>m. m" smap_emplace smap_assign smap_erase smap_inv
  by unfold_locales
    (simp_all add: smap_inv_emplace map_of_smap_emplace map_of_smap_assign map_of_smap_erase
      smap_inv_assign smap_inv_erase, simp add: smap_inv_def)

end
