(* ===== verification/Std_Text.thy ===== *)
theory Std_Text
  imports Usb_Prelude
begin

text \<open>
  The parts of the C++ standard library and of Boost's string algorithms that the sources use
  on strings: trimming, searching, splitting, the conversions \<^verbatim>\<open>std::stoul\<close>,
  \<^verbatim>\<open>std::stoi\<close> and \<^verbatim>\<open>std::to_string\<close>, and reading a file line by line. A
  \<^verbatim>\<open>std::string\<close> is a list of bytes.
\<close>

section \<open>Searching and trimming\<close>

definition is_space :: "char \<Rightarrow> bool" where
  "is_space c \<longleftrightarrow> c \<in> {CHR '' '', CHR 0x09, CHR 0x0A, CHR 0x0B, CHR 0x0C, CHR 0x0D}"

definition trim :: "string \<Rightarrow> string" where
  "trim s = rev (dropWhile is_space (rev (dropWhile is_space s)))"

definition starts_with :: "string \<Rightarrow> string \<Rightarrow> bool" where
  "starts_with s p \<longleftrightarrow> take (length p) s = p"

fun contains :: "string \<Rightarrow> string \<Rightarrow> bool" where
  "contains [] p = (p = [])"
| "contains (c # s) p = (starts_with (c # s) p \<or> contains s p)"

text \<open>\<^verbatim>\<open>boost::erase_first\<close> and the split of a line at its first \<open>c\<close>
  (\<^verbatim>\<open>find\<close>, \<^verbatim>\<open>substr(0, pos)\<close>, \<^verbatim>\<open>substr(pos + 1)\<close>).\<close>

fun erase_first :: "string \<Rightarrow> string \<Rightarrow> string" where
  "erase_first [] p = []"
| "erase_first (c # s) p =
     (if starts_with (c # s) p then drop (length p) (c # s) else c # erase_first s p)"

fun cut_at :: "char \<Rightarrow> string \<Rightarrow> (string \<times> string) option" where
  "cut_at d [] = None"
| "cut_at d (c # s) =
     (if c = d then Some ([], s)
      else case cut_at d s of None \<Rightarrow> None | Some (a, b) \<Rightarrow> Some (c # a, b))"

text \<open>\<^verbatim>\<open>boost::split\<close> on one separator character, without merging adjacent ones.\<close>

fun split_char :: "char \<Rightarrow> string \<Rightarrow> string list" where
  "split_char d [] = [[]]"
| "split_char d (c # s) =
     (if c = d then [] # split_char d s
      else case split_char d s of [] \<Rightarrow> [[c]] | t # ts \<Rightarrow> (c # t) # ts)"

text \<open>\<^verbatim>\<open>boost::split_regex\<close> on \<^verbatim>\<open>\s+\<close>.\<close>

function split_space :: "string \<Rightarrow> string list" where
  "split_space s =
     (let w = takeWhile (\<lambda>c. \<not> is_space c) s; r = dropWhile (\<lambda>c. \<not> is_space c) s
      in if r = [] then [w] else w # split_space (dropWhile is_space r))"
  by pat_completeness auto
termination
proof (relation "measure length", simp)
  fix s w r :: string
  assume r: "r = dropWhile (\<lambda>c. \<not> is_space c) s" and ne: "r \<noteq> []"
  then have "is_space (hd r)"
    using hd_dropWhile [of "\<lambda>c. \<not> is_space c" s] by simp
  with ne have "length (dropWhile is_space r) < length r"
    using length_dropWhile_le [of is_space "tl r"] by (cases r) auto
  also have "\<dots> \<le> length s"
    using r length_dropWhile_le [of "\<lambda>c. \<not> is_space c" s] by simp
  finally show "(dropWhile is_space r, s) \<in> measure length" by simp
qed

declare split_space.simps [simp del]

text \<open>\<^verbatim>\<open>std::getline\<close> until the end of the file.\<close>

function getlines :: "string \<Rightarrow> string list" where
  "getlines s =
     (if s = [] then []
      else takeWhile (\<lambda>c. c \<noteq> CHR 0x0A) s # getlines (drop 1 (dropWhile (\<lambda>c. c \<noteq> CHR 0x0A) s)))"
  by pat_completeness auto
termination
proof (relation "measure length", simp, simp)
  fix s :: string
  assume "s \<noteq> []"
  then show "length (dropWhile (\<lambda>c. c \<noteq> CHR 0x0A) s) - Suc 0 < length s"
    using length_dropWhile_le [of "\<lambda>c. c \<noteq> CHR 0x0A" s] by (cases s) auto
qed

declare getlines.simps [simp del]

text \<open>Assigning a C string: everything from the first NUL on is lost.\<close>

definition c_str :: "string \<Rightarrow> string" where
  "c_str s = takeWhile (\<lambda>c. c \<noteq> CHR 0x00) s"

definition nul_free :: "string \<Rightarrow> bool" where
  "nul_free s \<longleftrightarrow> CHR 0x00 \<notin> set s"

lemma c_str_id [simp]: "nul_free s \<Longrightarrow> c_str s = s"
  by (auto simp: c_str_def nul_free_def intro: takeWhile_all)

lemma nul_free_c_str [simp]: "nul_free (c_str s)"
  by (auto simp: c_str_def nul_free_def dest: set_takeWhileD)

section \<open>Numbers\<close>

definition digit_value :: "char \<Rightarrow> nat option" where
  "digit_value c =
     (let n = of_char c :: nat
      in if 48 \<le> n \<and> n \<le> 57 then Some (n - 48)
         else if 97 \<le> n \<and> n \<le> 122 then Some (n - 87)
         else if 65 \<le> n \<and> n \<le> 90 then Some (n - 55)
         else None)"

definition is_digit :: "nat \<Rightarrow> char \<Rightarrow> bool" where
  "is_digit base c = (case digit_value c of None \<Rightarrow> False | Some d \<Rightarrow> d < base)"

definition digits_value :: "nat \<Rightarrow> string \<Rightarrow> nat" where
  "digits_value base ds =
     foldl (\<lambda>a c. a * base + (case digit_value c of None \<Rightarrow> 0 | Some d \<Rightarrow> d)) 0 ds"

text \<open>
  The subject of \<^verbatim>\<open>strtol\<close> and \<^verbatim>\<open>strtoul\<close>: leading white space, a sign, for base
  16 an optional \<^verbatim>\<open>0x\<close> that a hex digit follows, then digits. The result is the sign, the
  magnitude and the number of characters read; \<open>None\<close> when there is no digit.
\<close>

definition skip_sign :: "string \<Rightarrow> bool \<times> string \<times> nat" where
  "skip_sign s =
     (case s of [] \<Rightarrow> (False, s, 0)
      | c # r \<Rightarrow> if c = CHR ''-'' then (True, r, 1)
                 else if c = CHR ''+'' then (False, r, 1) else (False, s, 0))"

definition skip_0x :: "nat \<Rightarrow> string \<Rightarrow> string \<times> nat" where
  "skip_0x base s =
     (if base = 16 \<and> (take 2 s = ''0x'' \<or> take 2 s = ''0X'') \<and> 2 < length s \<and> is_digit 16 (s ! 2)
      then (drop 2 s, 2) else (s, 0))"

definition scan_int :: "nat \<Rightarrow> string \<Rightarrow> (bool \<times> nat \<times> nat) option" where
  "scan_int base s =
     (let w = length (takeWhile is_space s);
          (neg, s1, p1) = skip_sign (dropWhile is_space s);
          (s2, p2) = skip_0x base s1;
          ds = takeWhile (is_digit base) s2
      in if ds = [] then None
         else Some (neg, digits_value base ds, w + p1 + p2 + length ds))"

text \<open>\<^verbatim>\<open>std::stoul\<close> (base 10, 64-bit \<^verbatim>\<open>unsigned long\<close>): a minus sign negates modulo
  \<open>2 ^ 64\<close>. \<^verbatim>\<open>std::stoi\<close>: a 32-bit \<^verbatim>\<open>int\<close>. Both give the number of characters
  read.\<close>

definition stoul :: "string \<Rightarrow> (u64 \<times> nat) outcome" where
  "stoul s =
     (case scan_int 10 s of
        None \<Rightarrow> throws Invalid_argument
      | Some (neg, m, pos) \<Rightarrow>
          if 2 ^ 64 \<le> m then throws Out_of_range
          else Ok (if neg then - word_of_nat m else word_of_nat m, pos))"

definition stoi :: "nat \<Rightarrow> string \<Rightarrow> (int \<times> nat) outcome" where
  "stoi base s =
     (case scan_int base s of
        None \<Rightarrow> throws Invalid_argument
      | Some (neg, m, pos) \<Rightarrow>
          let v = (if neg then - int m else int m)
          in if v < - (2 ^ 31) \<or> 2 ^ 31 \<le> v then throws Out_of_range else Ok (v, pos))"

fun nat_to_string :: "nat \<Rightarrow> string" where
  "nat_to_string n =
     (if n < 10 then [char_of (48 + n)] else nat_to_string (n div 10) @ [char_of (48 + n mod 10)])"

declare nat_to_string.simps [simp del]

definition to_string :: "'a::len word \<Rightarrow> string" where
  "to_string w = nat_to_string (unat w)"

definition int_to_string :: "int \<Rightarrow> string" where
  "int_to_string i = (if i < 0 then CHR ''-'' # nat_to_string (nat (- i)) else nat_to_string (nat i))"

section \<open>Facts\<close>

lemma starts_with_append [simp]: "starts_with (p @ s) p"
  by (simp add: starts_with_def)

lemma starts_with_nil [simp]: "starts_with s []"
  by (simp add: starts_with_def)

lemma starts_with_Cons: "starts_with (c # s) (d # p) \<longleftrightarrow> c = d \<and> starts_with s p"
  by (auto simp: starts_with_def)

lemma starts_with_iff: "starts_with s p \<longleftrightarrow> (\<exists>t. s = p @ t)"
  by (metis append_take_drop_id starts_with_append starts_with_def)

lemma contains_nil [simp]: "contains s []"
  by (cases s) auto

lemma contains_iff: "contains s p \<longleftrightarrow> (\<exists>a b. s = a @ p @ b)"
proof (induction s)
  case (Cons c s)
  show ?case
  proof
    assume "contains (c # s) p"
    then show "\<exists>a b. c # s = a @ p @ b"
      by (metis Cons.IH append_Cons append_Nil contains.simps(2) starts_with_iff)
  next
    assume "\<exists>a b. c # s = a @ p @ b"
    then obtain a b where ab: "c # s = a @ p @ b" by blast
    show "contains (c # s) p"
    proof (cases a)
      case Nil
      with ab have "starts_with (c # s) p" by simp
      then show ?thesis by simp
    next
      case (Cons x a')
      with ab have "s = a' @ p @ b" by simp
      then show ?thesis using Cons.IH by auto
    qed
  qed
qed auto

lemma contains_set: "contains s p \<Longrightarrow> set p \<subseteq> set s"
  by (auto simp: contains_iff)

lemma erase_first_starts: "starts_with s p \<Longrightarrow> p \<noteq> [] \<Longrightarrow> erase_first s p = drop (length p) s"
  by (cases s) (auto simp: starts_with_def)

lemma erase_first_prefix [simp]: "p \<noteq> [] \<Longrightarrow> erase_first (p @ s) p = s"
  by (simp add: erase_first_starts)

lemma cut_at_append: "d \<notin> set a \<Longrightarrow> cut_at d (a @ d # b) = Some (a, b)"
  by (induction a) auto

lemma split_char_nonempty: "split_char d s \<noteq> []"
  by (induction s) (auto split: list.splits)

lemma split_char_single: "d \<notin> set s \<Longrightarrow> split_char d s = [s]"
  by (induction s) auto

lemma split_char_append: "d \<notin> set a \<Longrightarrow> split_char d (a @ d # b) = a # split_char d b"
  by (induction a) (auto split: list.splits)

lemma dropWhile_hd_id: "s = [] \<or> \<not> P (hd s) \<Longrightarrow> dropWhile P s = s"
  by (cases s) auto

lemma trim_id: "s = [] \<or> (\<not> is_space (hd s) \<and> \<not> is_space (last s)) \<Longrightarrow> trim s = s"
  by (cases "s = []") (simp_all add: trim_def dropWhile_hd_id hd_rev)

lemma trim_nil_iff: "trim s = [] \<longleftrightarrow> (\<forall>c \<in> set s. is_space c)"
proof -
  have "trim s = [] \<longleftrightarrow> (\<forall>c \<in> set (dropWhile is_space s). is_space c)"
    by (simp add: trim_def dropWhile_eq_Nil_conv)
  also have "\<dots> \<longleftrightarrow> (\<forall>c \<in> set s. is_space c)"
    by (metis Un_iff hd_dropWhile hd_in_set set_append set_takeWhileD takeWhile_dropWhile_id
        dropWhile_eq_Nil_conv)
  finally show ?thesis .
qed

subsection \<open>Digits\<close>

lemma digit_value_char_of: "(d::nat) < 10 \<Longrightarrow> digit_value (char_of (48 + d)) = Some d"
  by (simp add: digit_value_def)

lemma is_digit_char_of: "(d::nat) < 10 \<Longrightarrow> is_digit 10 (char_of (48 + d))"
  by (simp add: is_digit_def digit_value_char_of)

lemma not_space_digit: "is_digit base c \<Longrightarrow> \<not> is_space c"
  by (auto simp: is_digit_def is_space_def digit_value_def Let_def split: if_splits option.splits)

lemma digit_not_sign: "is_digit base c \<Longrightarrow> c \<noteq> CHR ''-'' \<and> c \<noteq> CHR ''+''"
  by (auto simp: is_digit_def digit_value_def Let_def split: if_splits option.splits)

lemma nul_not_digit: "\<not> is_digit base (CHR 0x00)"
  by (auto simp: is_digit_def digit_value_def)

lemma nat_to_string_digits: "c \<in> set (nat_to_string n) \<Longrightarrow> is_digit 10 c"
proof (induction n rule: nat_to_string.induct)
  case (1 n)
  show ?case
  proof (cases "n < 10")
    case True
    with "1.prems" have "c = char_of (48 + n)" by (simp add: nat_to_string.simps [of n])
    with True show ?thesis by (simp only: is_digit_char_of)
  next
    case False
    with "1.prems" have "c \<in> set (nat_to_string (n div 10)) \<or> c = char_of (48 + n mod 10)"
      by (auto simp: nat_to_string.simps [of n])
    moreover have "is_digit 10 (char_of (48 + n mod 10))" by (rule is_digit_char_of) simp
    ultimately show ?thesis using False "1.IH" by blast
  qed
qed

lemma nat_to_string_nonempty [simp]: "nat_to_string n \<noteq> []"
  by (simp add: nat_to_string.simps)

lemma digits_value_snoc:
  "digits_value base (ds @ [c]) =
     digits_value base ds * base + (case digit_value c of None \<Rightarrow> 0 | Some d \<Rightarrow> d)"
  by (simp add: digits_value_def)

lemma digits_value_nat_to_string: "digits_value 10 (nat_to_string n) = n"
proof (induction n rule: nat_to_string.induct)
  case (1 n)
  show ?case
  proof (cases "n < 10")
    case True
    then have "digits_value 10 ([] @ [char_of (48 + n)]) = n"
      by (simp only: digits_value_snoc digit_value_char_of) (simp add: digits_value_def)
    with True show ?thesis by (simp add: nat_to_string.simps [of n])
  next
    case False
    then have "digits_value 10 (nat_to_string n) =
        digits_value 10 (nat_to_string (n div 10)) * 10 + n mod 10"
      by (simp only: nat_to_string.simps [of n] if_False digits_value_snoc digit_value_char_of
          mod_less_divisor option.case zero_less_numeral)
    with False "1.IH" show ?thesis by simp
  qed
qed

lemma nul_free_nat_to_string [simp]: "nul_free (nat_to_string n)"
  by (metis nat_to_string_digits nul_free_def nul_not_digit)

lemma scan_int_digits:
  assumes "ds \<noteq> []" and "\<And>c. c \<in> set ds \<Longrightarrow> is_digit 10 c"
  shows "scan_int 10 ds = Some (False, digits_value 10 ds, length ds)"
proof -
  have hd: "is_digit 10 (hd ds)" using assms by simp
  then have "dropWhile is_space ds = ds" "takeWhile is_space ds = []"
    using assms(1) not_space_digit by (auto simp: dropWhile_hd_id takeWhile_eq_Nil_iff)
  moreover have "skip_sign ds = (False, ds, 0)"
    using hd assms(1) by (auto simp: skip_sign_def dest: digit_not_sign split: list.splits)
  ultimately show ?thesis
    using assms(1) by (simp add: scan_int_def skip_0x_def Let_def takeWhile_all assms(2))
qed

lemma scan_int_nat_to_string:
  "scan_int 10 (nat_to_string n) = Some (False, n, length (nat_to_string n))"
  using scan_int_digits [of "nat_to_string n"]
  by (simp add: nat_to_string_digits digits_value_nat_to_string)

lemma stoul_nat_to_string:
  "n < 2 ^ 64 \<Longrightarrow> stoul (nat_to_string n) = Ok (word_of_nat n, length (nat_to_string n))"
  by (simp add: stoul_def scan_int_nat_to_string)

text \<open>The conversions raise only the two exceptions of the standard.\<close>

lemma stoul_failure: "stoul s = Fail f \<Longrightarrow> f = Exc Invalid_argument \<or> f = Exc Out_of_range"
  by (auto simp: stoul_def split: option.splits prod.splits if_splits)

lemma stoi_failure: "stoi b s = Fail f \<Longrightarrow> f = Exc Invalid_argument \<or> f = Exc Out_of_range"
  by (auto simp: stoi_def Let_def split: option.splits prod.splits if_splits)

lemma scan_int_nil [simp]: "scan_int b [] = None"
  by (simp add: scan_int_def skip_sign_def skip_0x_def)

lemma stoi_nil [simp]: "stoi b [] = throws Invalid_argument"
  by (simp add: stoi_def)

lemma digits_value_bound:
  "\<lbrakk>\<And>c. c \<in> set ds \<Longrightarrow> is_digit base c\<rbrakk> \<Longrightarrow> digits_value base ds < base ^ length ds \<or> base = 0"
proof (induction ds rule: rev_induct)
  case Nil
  show ?case by (simp add: digits_value_def)
next
  case (snoc c ds)
  have "is_digit base c" using snoc.prems by simp
  then obtain d where d: "digit_value c = Some d" "d < base"
    by (auto simp: is_digit_def split: option.splits)
  from snoc have "digits_value base ds < base ^ length ds \<or> base = 0" by simp
  then show ?case
  proof
    assume "digits_value base ds < base ^ length ds"
    then have "Suc (digits_value base ds) \<le> base ^ length ds" by simp
    then have "Suc (digits_value base ds) * base \<le> base ^ length ds * base"
      by (rule mult_right_mono) simp
    with d show ?thesis by (simp add: digits_value_snoc algebra_simps)
  qed simp
qed

subsection \<open>Lines\<close>

definition print_lines :: "string list \<Rightarrow> string" where
  "print_lines ls = concat (map (\<lambda>l. l @ [CHR 0x0A]) ls)"

lemma getlines_print_lines:
  "list_all (\<lambda>l. CHR 0x0A \<notin> set l) ls \<Longrightarrow> getlines (print_lines ls) = ls"
proof (induction ls)
  case Nil
  then show ?case by (simp add: print_lines_def getlines.simps [of "[]"])
next
  case (Cons l ls)
  have "c \<noteq> CHR 0x0A" if "c \<in> set l" for c using Cons.prems that by auto
  then have "takeWhile (\<lambda>c. c \<noteq> CHR 0x0A) (l @ CHR 0x0A # r) = l"
    "dropWhile (\<lambda>c. c \<noteq> CHR 0x0A) (l @ CHR 0x0A # r) = CHR 0x0A # r" for r
    by (simp_all add: takeWhile_append2 dropWhile_append2)
  then show ?case
    using Cons by (simp add: print_lines_def getlines.simps [of "l @ CHR 0x0A # r" for r])
qed

end
