(* ===== verification/Json_Value.thy ===== *)
theory Json_Value
  imports Std_Text Complex_Main
begin

text \<open>
  The JSON values of Boost.JSON as the sources use them. A number has one of three kinds, an
  object keeps its keys in insertion order. Reading a value at the wrong kind or a missing key
  raises an exception of the library (\<open>System_error\<close> stands for all of them). The parser and
  the serializer themselves are code outside the repository: the definitions that use them
  take them as arguments, and \<open>reparse\<close> states what the library documents about their
  composition (an integer that fits is read back as \<^verbatim>\<open>int64\<close>).
\<close>

datatype json =
    JNull
  | JBool bool
  | JInt64 "64 word"
  | JUint64 "64 word"
  | JDouble rat
  | JString string
  | JArray "json list"
  | JObject "(string \<times> json) list"

type_synonym jobject = "(string \<times> json) list"

fun is_string :: "json \<Rightarrow> bool" where
  "is_string (JString s) = True"
| "is_string _ = False"

fun is_number :: "json \<Rightarrow> bool" where
  "is_number (JInt64 w) = True"
| "is_number (JUint64 w) = True"
| "is_number (JDouble d) = True"
| "is_number _ = False"

fun is_uint64 :: "json \<Rightarrow> bool" where
  "is_uint64 (JUint64 w) = True"
| "is_uint64 _ = False"

fun is_array :: "json \<Rightarrow> bool" where
  "is_array (JArray xs) = True"
| "is_array _ = False"

fun is_object :: "json \<Rightarrow> bool" where
  "is_object (JObject kvs) = True"
| "is_object _ = False"

fun as_string :: "json \<Rightarrow> string outcome" where
  "as_string (JString s) = Ok s"
| "as_string _ = throws System_error"

fun as_array :: "json \<Rightarrow> json list outcome" where
  "as_array (JArray xs) = Ok xs"
| "as_array _ = throws System_error"

fun as_object :: "json \<Rightarrow> jobject outcome" where
  "as_object (JObject kvs) = Ok kvs"
| "as_object _ = throws System_error"

text \<open>\<^verbatim>\<open>to_number<uint64_t>\<close>: exact or an exception.\<close>

fun to_uint64 :: "json \<Rightarrow> u64 outcome" where
  "to_uint64 (JUint64 w) = Ok w"
| "to_uint64 (JInt64 w) = (if sint w < 0 then throws System_error else Ok w)"
| "to_uint64 (JDouble r) =
     (if r = of_int \<lfloor>r\<rfloor> \<and> 0 \<le> \<lfloor>r\<rfloor> \<and> \<lfloor>r\<rfloor> < 2 ^ 64 then Ok (word_of_int \<lfloor>r\<rfloor>)
      else throws System_error)"
| "to_uint64 _ = throws System_error"

definition jcontains :: "jobject \<Rightarrow> string \<Rightarrow> bool" where
  "jcontains obj k \<longleftrightarrow> map_of obj k \<noteq> None"

definition jat :: "jobject \<Rightarrow> string \<Rightarrow> json outcome" where
  "jat obj k = (case map_of obj k of None \<Rightarrow> throws System_error | Some v \<Rightarrow> Ok v)"

text \<open>\<^verbatim>\<open>contains(k) && at(k).is_...()\<close>\<close>

definition jhas :: "jobject \<Rightarrow> string \<Rightarrow> (json \<Rightarrow> bool) \<Rightarrow> bool" where
  "jhas obj k p \<longleftrightarrow> (case map_of obj k of None \<Rightarrow> False | Some v \<Rightarrow> p v)"

text \<open>\<^verbatim>\<open>obj[k] = v\<close>: assigned in place, or appended.\<close>

fun jset :: "string \<Rightarrow> json \<Rightarrow> jobject \<Rightarrow> jobject" where
  "jset k v [] = [(k, v)]"
| "jset k v ((k', v') # obj) = (if k' = k then (k, v) # obj else (k', v') # jset k v obj)"

text \<open>A member read as a string and assigned to a \<^verbatim>\<open>std::string\<close> through
  \<^verbatim>\<open>c_str()\<close>.\<close>

definition jstr :: "jobject \<Rightarrow> string \<Rightarrow> string outcome" where
  "jstr obj k = obind (jat obj k) (\<lambda>v. obind (as_string v) (\<lambda>s. Ok (c_str s)))"

text \<open>What parsing a serialized value gives back: unsigned integers that fit are signed.\<close>

fun reparse :: "json \<Rightarrow> json" where
  "reparse (JUint64 w) = (if unat w < 2 ^ 63 then JInt64 w else JUint64 w)"
| "reparse (JArray xs) = JArray (map reparse xs)"
| "reparse (JObject kvs) = JObject (map (\<lambda>(k, v). (k, reparse v)) kvs)"
| "reparse v = v"

definition reparse_object :: "jobject \<Rightarrow> jobject" where
  "reparse_object obj = map (\<lambda>(k, v). (k, reparse v)) obj"

definition json_io :: "(string \<Rightarrow> json option) \<Rightarrow> (json \<Rightarrow> string) \<Rightarrow> json \<Rightarrow> bool" where
  "json_io parse serialize j \<longleftrightarrow> parse (serialize j) = Some (reparse j) \<and> serialize j \<noteq> []"

section \<open>Facts\<close>

lemma map_of_jset: "map_of (jset k v obj) = (map_of obj)(k \<mapsto> v)"
  by (induction k v obj rule: jset.induct) auto

lemma jset_fresh: "k \<notin> fst ` set obj \<Longrightarrow> jset k v obj = obj @ [(k, v)]"
  by (induction k v obj rule: jset.induct) auto

lemma map_of_reparse_object: "map_of (reparse_object obj) k = map_option reparse (map_of obj k)"
  by (induction obj) (auto simp: reparse_object_def)

lemma reparse_object_append [simp]: "reparse_object (a @ b) = reparse_object a @ reparse_object b"
  by (simp add: reparse_object_def)

lemma reparse_object_simps [simp]:
  "reparse_object [] = []"
  "reparse_object ((k, v) # obj) = (k, reparse v) # reparse_object obj"
  by (simp_all add: reparse_object_def)

lemma reparse_JObject: "reparse (JObject obj) = JObject (reparse_object obj)"
  by (simp add: reparse_object_def)

lemma as_string_eq_Ok: "as_string v = Ok s \<longleftrightarrow> v = JString s"
  by (cases v) auto

lemma is_string_iff: "is_string v \<longleftrightarrow> (\<exists>s. v = JString s)"
  by (cases v) auto

lemma is_object_iff: "is_object v \<longleftrightarrow> (\<exists>kvs. v = JObject kvs)"
  by (cases v) auto

lemma is_array_iff: "is_array v \<longleftrightarrow> (\<exists>xs. v = JArray xs)"
  by (cases v) auto

lemma jhas_iff: "jhas obj k p \<longleftrightarrow> (\<exists>v. map_of obj k = Some v \<and> p v)"
  by (auto simp: jhas_def split: option.splits)

lemma jat_eq_Ok [simp]: "jat obj k = Ok v \<longleftrightarrow> map_of obj k = Some v"
  by (auto simp: jat_def split: option.splits)

lemma jat_Some: "map_of obj k = Some v \<Longrightarrow> jat obj k = Ok v"
  by simp

lemma jstr_eq_Ok: "jstr obj k = Ok s \<longleftrightarrow> (\<exists>t. map_of obj k = Some (JString t) \<and> s = c_str t)"
  by (auto simp: jstr_def obind_eq_Ok as_string_eq_Ok)

lemma jstr_Some: "map_of obj k = Some (JString s) \<Longrightarrow> jstr obj k = Ok (c_str s)"
  by (simp add: jstr_def jat_def)

lemma sint_nonneg_iff: "0 \<le> sint (w :: 64 word) \<longleftrightarrow> unat w < 2 ^ 63"
proof -
  have "0 \<le> sint w \<longleftrightarrow> \<not> bit w 63"
    using bit_last_iff [of w] by (simp add: not_less)
  also have "\<dots> \<longleftrightarrow> unat w < 2 ^ 63"
  proof -
    define q where "q = uint w div 2 ^ 63"
    have "bit w 63 \<longleftrightarrow> odd q"
      using bit_uint_iff [of w 63] by (simp add: bit_iff_odd [of "uint w"] q_def)
    moreover have "0 \<le> q" "q < 2"
      using unsigned_less [of w, where 'a = int] by (simp_all add: q_def pos_imp_zdiv_nonneg_iff)
    ultimately have "\<not> bit w 63 \<longleftrightarrow> q = 0" by presburger
    also have "\<dots> \<longleftrightarrow> uint w < 2 ^ 63" by (auto simp: q_def zdiv_eq_0_iff)
    finally show ?thesis by (simp add: nat_less_iff flip: nat_uint_eq)
  qed
  finally show ?thesis .
qed

lemma to_uint64_reparse [simp]: "to_uint64 (reparse (JUint64 w)) = Ok w"
  using sint_nonneg_iff [of w] by auto


end
