(* ===== verification/Dal_Dto.thy ===== *)
theory Dal_Dto
  imports Json_Value
begin

text \<open>
  The data transfer objects of \<^verbatim>\<open>daemon/dal/dto.hpp\<close> and \<^verbatim>\<open>dto.cpp\<close>: devices,
  users, groups, mount entries and permission entries, their constructors and their JSON form.
  Each class is a record; each constructor is a function into \<open>outcome\<close> with the exceptions
  it throws. The section at the end proves that the JSON form can be read back.
\<close>

record Device =
  dev_vid :: string
  dev_pid :: string
  dev_serial :: string

record User =
  user_uid :: u32
  user_name :: string

record Group =
  group_gid :: u32
  group_name :: string

record MountEntry =
  me_dev_name :: string
  me_mount_point :: string
  me_fs_type :: string

record PermissionEntry =
  pe_device :: Device
  pe_users :: "User list"
  pe_groups :: "Group list"

section \<open>Device\<close>

definition Device_of_json :: "jobject \<Rightarrow> Device outcome" where
  "Device_of_json obj =
     (if \<not> jhas obj ''vid'' is_string \<or> \<not> jhas obj ''pid'' is_string \<or>
         \<not> jhas obj ''serial'' is_string
      then throws Invalid_argument
      else obind (jstr obj ''vid'') (\<lambda>v.
           obind (jstr obj ''pid'') (\<lambda>p.
           obind (jstr obj ''serial'') (\<lambda>s.
             Ok \<lparr>dev_vid = v, dev_pid = p, dev_serial = s\<rparr>))))"

text \<open>Both identifiers must be hexadecimal numbers as \<^verbatim>\<open>std::stoi\<close> reads them; its
  own exceptions come through.\<close>

definition Device_of_params :: "string \<Rightarrow> string \<Rightarrow> string \<Rightarrow> Device outcome" where
  "Device_of_params v p s =
     obind (stoi 16 v) (\<lambda>(_, pos).
     obind (stoi 16 p) (\<lambda>(_, pos2).
       if pos \<noteq> length v \<or> pos2 \<noteq> length p then throws Logic_error
       else Ok \<lparr>dev_vid = v, dev_pid = p, dev_serial = s\<rparr>))"

definition Device_to_json :: "Device \<Rightarrow> jobject" where
  "Device_to_json d =
     [(''vid'', JString (dev_vid d)), (''pid'', JString (dev_pid d)), (''serial'', JString (dev_serial d))]"

definition Device_eq :: "Device \<Rightarrow> Device \<Rightarrow> bool" where
  "Device_eq a b \<longleftrightarrow> dev_vid a = dev_vid b \<and> dev_pid a = dev_pid b \<and> dev_serial a = dev_serial b"

section \<open>User and Group\<close>

text \<open>The 64-bit number of the JSON object is narrowed to the 32 bits of
  \<^verbatim>\<open>uid_t\<close>.\<close>

definition User_of_json :: "jobject \<Rightarrow> User outcome" where
  "User_of_json obj =
     (if \<not> jcontains obj ''uid'' \<or> \<not> jcontains obj ''name'' \<or>
         \<not> jhas obj ''uid'' is_number \<or> \<not> jhas obj ''name'' is_string
      then throws Invalid_argument
      else obind (jat obj ''uid'') (\<lambda>j.
           obind (to_uint64 j) (\<lambda>n.
           obind (jstr obj ''name'') (\<lambda>s.
             Ok \<lparr>user_uid = ucast n, user_name = s\<rparr>))))"

definition User_of :: "u32 \<Rightarrow> string \<Rightarrow> User outcome" where
  "User_of u s = (if s = [] then throws Invalid_argument else Ok \<lparr>user_uid = u, user_name = s\<rparr>)"

definition User_to_json :: "User \<Rightarrow> jobject" where
  "User_to_json u = [(''uid'', JUint64 (ucast (user_uid u))), (''name'', JString (user_name u))]"

definition Group_of_json :: "jobject \<Rightarrow> Group outcome" where
  "Group_of_json obj =
     (if \<not> jcontains obj ''gid'' \<or> \<not> jcontains obj ''name'' \<or>
         \<not> jhas obj ''gid'' is_number \<or> \<not> jhas obj ''name'' is_string
      then throws Invalid_argument
      else obind (jat obj ''gid'') (\<lambda>j.
           obind (to_uint64 j) (\<lambda>n.
           obind (jstr obj ''name'') (\<lambda>s.
             Ok \<lparr>group_gid = ucast n, group_name = s\<rparr>))))"

definition Group_of :: "u32 \<Rightarrow> string \<Rightarrow> Group outcome" where
  "Group_of g s = (if s = [] then throws Invalid_argument else Ok \<lparr>group_gid = g, group_name = s\<rparr>)"

definition Group_to_json :: "Group \<Rightarrow> jobject" where
  "Group_to_json g = [(''gid'', JUint64 (ucast (group_gid g))), (''name'', JString (group_name g))]"

section \<open>MountEntry\<close>

definition MountEntry_of_json :: "jobject \<Rightarrow> MountEntry outcome" where
  "MountEntry_of_json obj =
     (if \<not> jhas obj ''dev_name'' is_string \<or> \<not> jhas obj ''mount_point'' is_string \<or>
         \<not> jhas obj ''fs_type'' is_string
      then throws Invalid_argument
      else obind (jstr obj ''dev_name'') (\<lambda>d.
           obind (jstr obj ''mount_point'') (\<lambda>m.
           obind (jstr obj ''fs_type'') (\<lambda>f.
             Ok \<lparr>me_dev_name = d, me_mount_point = m, me_fs_type = f\<rparr>))))"

definition MountEntry_of_params :: "string \<Rightarrow> string \<Rightarrow> string \<Rightarrow> MountEntry outcome" where
  "MountEntry_of_params d m f =
     (if d = [] \<or> m = [] then throws Invalid_argument
      else Ok \<lparr>me_dev_name = d, me_mount_point = m, me_fs_type = f\<rparr>)"

definition MountEntry_to_json :: "MountEntry \<Rightarrow> jobject" where
  "MountEntry_to_json e =
     [(''dev_name'', JString (me_dev_name e)), (''mount_point'', JString (me_mount_point e)),
      (''fs_type'', JString (me_fs_type e))]"

definition MountEntry_eq :: "MountEntry \<Rightarrow> MountEntry \<Rightarrow> bool" where
  "MountEntry_eq a b \<longleftrightarrow>
     me_dev_name a = me_dev_name b \<and> me_mount_point a = me_mount_point b \<and> me_fs_type a = me_fs_type b"

section \<open>PermissionEntry\<close>

text \<open>An element of one of the two arrays, which must be an object.\<close>

definition array_element :: "(jobject \<Rightarrow> 'a outcome) \<Rightarrow> json \<Rightarrow> 'a outcome" where
  "array_element mk v =
     (if \<not> is_object v then throws Runtime_error else obind (as_object v) mk)"

definition PermissionEntry_of_json :: "jobject \<Rightarrow> PermissionEntry outcome" where
  "PermissionEntry_of_json obj =
     (if \<not> jhas obj ''device'' is_object \<or> \<not> jhas obj ''users'' is_array \<or>
         \<not> jhas obj ''groups'' is_array
      then throws Invalid_argument
      else obind (obind (jat obj ''users'') as_array) (\<lambda>us.
           obind (omap (array_element User_of_json) us) (\<lambda>us'.
           obind (obind (jat obj ''groups'') as_array) (\<lambda>gs.
           obind (omap (array_element Group_of_json) gs) (\<lambda>gs'.
           obind (obind (jat obj ''device'') as_object) (\<lambda>d.
           obind (Device_of_json d) (\<lambda>dev.
             Ok \<lparr>pe_device = dev, pe_users = us', pe_groups = gs'\<rparr>)))))))"

definition PermissionEntry_of ::
  "Device \<Rightarrow> User list \<Rightarrow> Group list \<Rightarrow> PermissionEntry outcome" where
  "PermissionEntry_of d us gs =
     (if us = [] \<and> gs = [] then throws Invalid_argument
      else Ok \<lparr>pe_device = d, pe_users = us, pe_groups = gs\<rparr>)"

definition PermissionEntry_to_json :: "PermissionEntry \<Rightarrow> jobject" where
  "PermissionEntry_to_json p =
     [(''device'', JObject (Device_to_json (pe_device p))),
      (''users'', JArray (map (\<lambda>u. JObject (User_to_json u)) (pe_users p))),
      (''groups'', JArray (map (\<lambda>g. JObject (Group_to_json g)) (pe_groups p)))]"

section \<open>Reading the JSON form back\<close>

text \<open>
  A string that came through \<^verbatim>\<open>c_str()\<close> or from a C API has no NUL; such objects are
  well formed and survive the round trip.
\<close>

definition Device_wf :: "Device \<Rightarrow> bool" where
  "Device_wf d \<longleftrightarrow> nul_free (dev_vid d) \<and> nul_free (dev_pid d) \<and> nul_free (dev_serial d)"

definition MountEntry_wf :: "MountEntry \<Rightarrow> bool" where
  "MountEntry_wf e \<longleftrightarrow> nul_free (me_dev_name e) \<and> nul_free (me_mount_point e) \<and> nul_free (me_fs_type e)"

definition PermissionEntry_wf :: "PermissionEntry \<Rightarrow> bool" where
  "PermissionEntry_wf p \<longleftrightarrow> Device_wf (pe_device p) \<and>
     (\<forall>u \<in> set (pe_users p). nul_free (user_name u)) \<and>
     (\<forall>g \<in> set (pe_groups p). nul_free (group_name g))"

lemma Device_eq_iff: "Device_eq a b \<longleftrightarrow> a = b"
  by (auto simp: Device_eq_def)

lemma MountEntry_eq_iff: "MountEntry_eq a b \<longleftrightarrow> a = b"
  by (auto simp: MountEntry_eq_def)

lemma Device_json_back:
  "Device_wf d \<Longrightarrow> Device_of_json (reparse_object (Device_to_json d)) = Ok d"
  by (simp add: Device_of_json_def Device_to_json_def Device_wf_def jhas_def jstr_def jat_def)

lemma ucast_ucast_u32 [simp]: "ucast (ucast (w :: u32) :: u64) = w"
  by (simp add: ucast_up_ucast_id is_up)

lemma to_uint64_if [simp]:
  "to_uint64 (if unat w < 9223372036854775808 then JInt64 w else JUint64 w) = Ok w"
  using to_uint64_reparse [of w] by simp

lemma is_number_if [simp]: "is_number (if b then JInt64 w else JUint64 w)"
  by simp

lemma User_json_back:
  "nul_free (user_name u) \<Longrightarrow> User_of_json (reparse_object (User_to_json u)) = Ok u"
  by (simp add: User_of_json_def User_to_json_def jcontains_def jhas_def jstr_def jat_def
      del: to_uint64.simps)

lemma Group_json_back:
  "nul_free (group_name g) \<Longrightarrow> Group_of_json (reparse_object (Group_to_json g)) = Ok g"
  by (simp add: Group_of_json_def Group_to_json_def jcontains_def jhas_def jstr_def jat_def
      del: to_uint64.simps)

lemma omap_array_element_back:
  assumes "\<And>x. x \<in> set xs \<Longrightarrow> of_json (reparse_object (to_json x)) = Ok x"
  shows "omap (array_element of_json) (map (\<lambda>x. JObject (reparse_object (to_json x))) xs) = Ok xs"
  using omap_Ok [of xs "\<lambda>x. array_element of_json (JObject (reparse_object (to_json x)))" id] assms
  by (simp add: omap_map array_element_def)

lemma PermissionEntry_json_back:
  assumes "PermissionEntry_wf p"
  shows "PermissionEntry_of_json (reparse_object (PermissionEntry_to_json p) @ rest) = Ok p"
proof -
  have "Device_of_json (reparse_object (Device_to_json (pe_device p))) = Ok (pe_device p)"
    "omap (array_element User_of_json)
       (map (\<lambda>u. JObject (reparse_object (User_to_json u))) (pe_users p)) = Ok (pe_users p)"
    "omap (array_element Group_of_json)
       (map (\<lambda>g. JObject (reparse_object (Group_to_json g))) (pe_groups p)) = Ok (pe_groups p)"
    using assms
    by (simp_all add: PermissionEntry_wf_def Device_json_back omap_array_element_back
        User_json_back Group_json_back)
  then show ?thesis
    by (simp add: PermissionEntry_of_json_def PermissionEntry_to_json_def jhas_def jat_def
        reparse_JObject o_def del: reparse.simps(3))
qed

lemma MountEntry_json_back:
  "MountEntry_wf e \<Longrightarrow>
   MountEntry_of_json (reparse_object (MountEntry_to_json e) @ rest) = Ok e"
  by (simp add: MountEntry_of_json_def MountEntry_to_json_def MountEntry_wf_def jhas_def jstr_def
      jat_def)

text \<open>What the JSON constructors give is well formed: every string came through
  \<^verbatim>\<open>c_str()\<close>.\<close>

lemma Device_of_json_wf: "Device_of_json obj = Ok d \<Longrightarrow> Device_wf d"
  by (auto simp: Device_of_json_def Device_wf_def obind_eq_Ok jstr_eq_Ok split: if_splits)

lemma MountEntry_of_json_wf: "MountEntry_of_json obj = Ok e \<Longrightarrow> MountEntry_wf e"
  by (auto simp: MountEntry_of_json_def MountEntry_wf_def obind_eq_Ok jstr_eq_Ok split: if_splits)

lemma User_of_json_wf: "User_of_json obj = Ok u \<Longrightarrow> nul_free (user_name u)"
  by (auto simp: User_of_json_def obind_eq_Ok jstr_eq_Ok split: if_splits)

lemma Group_of_json_wf: "Group_of_json obj = Ok g \<Longrightarrow> nul_free (group_name g)"
  by (auto simp: Group_of_json_def obind_eq_Ok jstr_eq_Ok split: if_splits)

lemma array_element_Ok: "array_element f v = Ok x \<Longrightarrow> \<exists>obj. v = JObject obj \<and> f obj = Ok x"
  by (auto simp: array_element_def is_object_iff split: if_splits)

lemma PermissionEntry_of_json_wf:
  assumes "PermissionEntry_of_json obj = Ok p"
  shows "PermissionEntry_wf p"
proof -
  obtain d us gs where
    "Device_of_json d = Ok (pe_device p)"
    and u: "omap (array_element User_of_json) us = Ok (pe_users p)"
    and g: "omap (array_element Group_of_json) gs = Ok (pe_groups p)"
    using assms by (auto simp: PermissionEntry_of_json_def obind_eq_Ok split: if_splits)
  then have "Device_wf (pe_device p)" by (blast intro: Device_of_json_wf)
  moreover have "nul_free (user_name x)" if "x \<in> set (pe_users p)" for x
    using omap_eq_Ok_mem [OF u that] by (auto dest!: array_element_Ok intro: User_of_json_wf)
  moreover have "nul_free (group_name x)" if "x \<in> set (pe_groups p)" for x
    using omap_eq_Ok_mem [OF g that] by (auto dest!: array_element_Ok intro: Group_of_json_wf)
  ultimately show ?thesis by (simp add: PermissionEntry_wf_def)
qed

section \<open>Properties\<close>

definition sample_permission :: PermissionEntry where
  "sample_permission =
     \<lparr>pe_device = \<lparr>dev_vid = ''346d'', dev_pid = ''5678'', dev_serial = ''4102101253919586827''\<rparr>,
      pe_users = [\<lparr>user_uid = 1000, user_name = ''test''\<rparr>],
      pe_groups = [\<lparr>group_gid = 1001, group_name = ''usb_flash1''\<rparr>]\<rparr>"

definition sample_mount :: MountEntry where
  "sample_mount = \<lparr>me_dev_name = ''/dev/sda1'', me_mount_point = ''/mount1'', me_fs_type = ''ntfs''\<rparr>"

lemma sample_permission_wf: "PermissionEntry_wf sample_permission"
  by (simp add: sample_permission_def PermissionEntry_wf_def Device_wf_def nul_free_def)

lemma sample_mount_wf: "MountEntry_wf sample_mount"
  by (simp add: sample_mount_def MountEntry_wf_def nul_free_def)

text \<open>
  A permission entry whose strings hold no NUL is rebuilt exactly from its own JSON form,
  also after a trip through the serializer (which may change the kind of its numbers) and with
  further members behind it, such as the row's id.
\<close>

theorem permission_entry_json_roundtrip:
  assumes "PermissionEntry_wf p"
  shows "PermissionEntry_of_json (reparse_object (PermissionEntry_to_json p) @ rest) = Ok p"
  using assms by (rule PermissionEntry_json_back)

theorem permission_entry_json_roundtrip_witness:
  "PermissionEntry_of_json
     (reparse_object (PermissionEntry_to_json sample_permission) @ [(''id'', JInt64 7)])
   = Ok sample_permission"
  by (rule permission_entry_json_roundtrip [OF sample_permission_wf])

end
