(* ===== verification/Dal_Table.thy ===== *)
theory Dal_Table
  imports Std_Map Dal_Dto
begin

text \<open>
  \<^verbatim>\<open>daemon/dal/table.hpp\<close> and \<^verbatim>\<open>table.cpp\<close>: the CRUD table kept in a JSON file,
  with its transaction. A table is a record; the calls run on the pair of the table and the
  world outside (the file system). The files and the JSON library are the record
  \<open>file_io\<close>, an argument of every call that uses them.

  The locks are the ones a single thread can meet: \<open>tbl_mutex\<close> is \<^verbatim>\<open>transaction_mutex_\<close>,
  and the two other flags say that the transaction's own \<^verbatim>\<open>unique_lock\<close>s are held. A call
  that would wait for a lock nobody is going to release has the outcome \<open>Hangs\<close>.
\<close>

section \<open>Files and the JSON library\<close>

text \<open>
  \<open>fio_write\<close> is opening a file for writing and sending the text to it (false: it could not
  be opened); \<open>fio_read\<close> is reading it whole; the two calls of \<^verbatim>\<open>std::filesystem\<close> may
  throw.
\<close>

record 'w file_io =
  fio_exists :: "string \<Rightarrow> ('w, bool) prog"
  fio_create_directories :: "string \<Rightarrow> ('w, unit) prog"
  fio_write :: "string \<Rightarrow> string \<Rightarrow> 'w \<Rightarrow> bool \<times> 'w"
  fio_read :: "string \<Rightarrow> 'w \<Rightarrow> string option \<times> 'w"
  json_parse :: "string \<Rightarrow> json option"
  json_serialize :: "json \<Rightarrow> string"

section \<open>State\<close>

record 'e table =
  tbl_path :: string
  tbl_raw :: string
  tbl_data :: "(u64, 'e) smap"
  tbl_clone :: "(u64, 'e) smap"
  tbl_started :: bool
  tbl_mutex :: bool
  tbl_data_lock :: bool
  tbl_file_lock :: bool

type_synonym ('w, 'e) tstate = "'e table \<times> 'w"

definition table_inv :: "'e table \<Rightarrow> bool" where
  "table_inv t \<longleftrightarrow> smap_inv (tbl_data t) \<and> smap_inv (tbl_clone t) \<and>
     tbl_mutex t = tbl_started t \<and> tbl_data_lock t = tbl_started t \<and>
     tbl_file_lock t = tbl_started t"

section \<open>Operations\<close>

definition Table_to_json :: "('e \<Rightarrow> jobject) \<Rightarrow> 'e table \<Rightarrow> json" where
  "Table_to_json to_json t =
     JArray (map (\<lambda>(k, e). JObject (jset ''id'' (JUint64 k) (to_json e))) (tbl_data t))"

text \<open>Taking \<^verbatim>\<open>data_mutex_\<close> outside a transaction.\<close>

definition data_guard :: "(('w, 'e) tstate, 'a) prog \<Rightarrow> (('w, 'e) tstate, 'a) prog" where
  "data_guard m = (\<lambda>(t, w).
     if \<not> tbl_started t \<and> tbl_data_lock t then (Fail Hangs, (t, w)) else m (t, w))"

definition WriteRaw ::
  "('w, 'z) file_io_scheme \<Rightarrow> ('e \<Rightarrow> jobject) \<Rightarrow> (('w, 'e) tstate, unit) prog" where
  "WriteRaw io to_json = (\<lambda>(t, w).
     if \<not> tbl_started t \<and> (tbl_file_lock t \<or> tbl_data_lock t) then (Fail Hangs, (t, w))
     else case fio_write io (tbl_path t) (json_serialize io (Table_to_json to_json t)) w of
       (True, w') \<Rightarrow> (Ok (), (t, w'))
     | (False, w') \<Rightarrow> (throws Runtime_error, (t, w')))"

definition ReadRaw :: "('w, 'z) file_io_scheme \<Rightarrow> (('w, 'e) tstate, unit) prog" where
  "ReadRaw io = (\<lambda>(t, w).
     case fio_exists io (tbl_path t) w of
       (Fail e, w') \<Rightarrow> (Fail e, (t, w'))
     | (Ok False, w') \<Rightarrow> (Ok (), (t, w'))
     | (Ok True, w') \<Rightarrow>
         if \<not> tbl_started t \<and> tbl_file_lock t then (Fail Hangs, (t, w'))
         else case fio_read io (tbl_path t) w' of
           (None, w'') \<Rightarrow> (throws Runtime_error, (t, w''))
         | (Some s, w'') \<Rightarrow> (Ok (), (t\<lparr>tbl_raw := s\<rparr>, w'')))"

text \<open>The directory part of a path (the two table files have one).\<close>

definition parent_path :: "string \<Rightarrow> string" where
  "parent_path p = rev (drop 1 (dropWhile (\<lambda>c. c \<noteq> CHR ''/'') (rev p)))"

definition new_table :: "string \<Rightarrow> 'e table" where
  "new_table path = \<lparr>tbl_path = path, tbl_raw = [], tbl_data = [], tbl_clone = [],
     tbl_started = False, tbl_mutex = False, tbl_data_lock = False, tbl_file_lock = False\<rparr>"

text \<open>The constructor: a missing file is created empty, an existing one is read.\<close>

definition Table_construct :: "('w, 'z) file_io_scheme \<Rightarrow> (('w, 'e) tstate, unit) prog" where
  "Table_construct io = (\<lambda>(t, w).
     case fio_exists io (tbl_path t) w of
       (Fail e, w1) \<Rightarrow> (Fail e, (t, w1))
     | (Ok False, w1) \<Rightarrow>
         (case fio_create_directories io (parent_path (tbl_path t)) w1 of
            (Fail e, w2) \<Rightarrow> (Fail e, (t, w2))
          | (Ok _, w2) \<Rightarrow>
              (case fio_write io (tbl_path t) [] w2 of
                 (False, w3) \<Rightarrow> (throws Runtime_error, (t, w3))
               | (True, w3) \<Rightarrow> (Ok (), (t, w3))))
     | (Ok True, w1) \<Rightarrow> ReadRaw io (t, w1))"

text \<open>Outside a transaction every change is written to the file at once.\<close>

definition commit ::
  "('w, 'z) file_io_scheme \<Rightarrow> ('e \<Rightarrow> jobject) \<Rightarrow> (('w, 'e) tstate, unit) prog" where
  "commit io to_json = (\<lambda>(t, w). if tbl_started t then (Ok (), (t, w)) else WriteRaw io to_json (t, w))"

definition upd_data :: "((u64, 'e) smap \<Rightarrow> (u64, 'e) smap) \<Rightarrow> (('w, 'e) tstate, unit) prog" where
  "upd_data f = modp (\<lambda>(t, w). (t\<lparr>tbl_data := f (tbl_data t)\<rparr>, w))"

definition CheckIndex :: "u64 \<Rightarrow> (('w, 'e) tstate, unit) prog" where
  "CheckIndex i = data_guard (\<lambda>(t, w).
     if smap_count (tbl_data t) i then (Ok (), (t, w)) else (throws Invalid_argument, (t, w)))"

definition Delete ::
  "('w, 'z) file_io_scheme \<Rightarrow> ('e \<Rightarrow> jobject) \<Rightarrow> u64 \<Rightarrow> (('w, 'e) tstate, unit) prog" where
  "Delete io to_json i =
     bindp (data_guard (upd_data (smap_erase i))) (\<lambda>_. commit io to_json)"

definition table_size :: "'e table \<Rightarrow> nat" where
  "table_size t = length (tbl_data t)"

definition Clear ::
  "('w, 'z) file_io_scheme \<Rightarrow> ('e \<Rightarrow> jobject) \<Rightarrow> (('w, 'e) tstate, unit) prog" where
  "Clear io to_json = bindp (data_guard (upd_data (\<lambda>_. []))) (\<lambda>_. commit io to_json)"

text \<open>The index of a new row: one above the last key (\<^verbatim>\<open>rbegin()\<close>), modulo \<open>2 ^ 64\<close>.\<close>

definition next_index :: "(u64, 'e) smap \<Rightarrow> u64" where
  "next_index m = (if m = [] then 0 else fst (last m) + 1)"

definition append_row :: "'e \<Rightarrow> (u64, 'e) smap \<Rightarrow> (u64, 'e) smap" where
  "append_row e m = smap_emplace (next_index m) e m"

text \<open>\<^verbatim>\<open>at(index)\<close> raises \<^verbatim>\<open>out_of_range\<close> for a missing key.\<close>

definition Read :: "u64 \<Rightarrow> (('w, 'e) tstate, 'e) prog" where
  "Read i = bindp (CheckIndex i) (\<lambda>_. data_guard (\<lambda>(t, w).
     case map_of (tbl_data t) i of
       None \<Rightarrow> (throws Out_of_range, (t, w))
     | Some e \<Rightarrow> (Ok e, (t, w))))"

definition Update ::
  "('w, 'z) file_io_scheme \<Rightarrow> ('e \<Rightarrow> jobject) \<Rightarrow> u64 \<Rightarrow> 'e \<Rightarrow> (('w, 'e) tstate, unit) prog" where
  "Update io to_json i e =
     bindp (CheckIndex i) (\<lambda>_.
     bindp (data_guard (\<lambda>(t, w).
       if smap_count (tbl_data t) i
       then (Ok (), (t\<lparr>tbl_data := smap_assign i e (tbl_data t)\<rparr>, w))
       else (throws Out_of_range, (t, w)))) (\<lambda>_.
     commit io to_json))"

subsection \<open>Transactions\<close>

definition StartTransaction :: "(('w, 'e) tstate, unit) prog" where
  "StartTransaction = (\<lambda>(t, w).
     if tbl_mutex t then (Fail Hangs, (t, w))
     else if tbl_data_lock t \<or> tbl_file_lock t
     then (Fail Hangs, (t\<lparr>tbl_mutex := True, tbl_started := True\<rparr>, w))
     else (Ok (), (t\<lparr>tbl_mutex := True, tbl_started := True,
                     tbl_data_lock := True, tbl_file_lock := True\<rparr>, w)))"

definition DeepDataClone :: "'e table \<Rightarrow> 'e table" where
  "DeepDataClone t = t\<lparr>tbl_clone := fold (\<lambda>(k, e). smap_emplace k e) (tbl_data t) []\<rparr>"

text \<open>Releasing a \<^verbatim>\<open>unique_lock\<close> that holds nothing throws inside a
  \<^verbatim>\<open>noexcept\<close> function.\<close>

definition end_transaction :: "bool \<Rightarrow> (('w, 'e) tstate, bool) prog" where
  "end_transaction b = (\<lambda>(t, w).
     if \<not> tbl_file_lock t \<or> \<not> tbl_data_lock t then (Fail Terminated, (t, w))
     else (Ok b, (t\<lparr>tbl_file_lock := False, tbl_data_lock := False,
                     tbl_mutex := False, tbl_started := False\<rparr>, w)))"

definition ProcessTransaction ::
  "('w, 'z) file_io_scheme \<Rightarrow> ('e \<Rightarrow> jobject) \<Rightarrow> (('w, 'e) tstate, bool) prog" where
  "ProcessTransaction io to_json = (\<lambda>(t, w).
     case WriteRaw io to_json (DeepDataClone t, w) of
       (Ok _, s) \<Rightarrow> end_transaction True s
     | (Fail (Exc e), (t', w')) \<Rightarrow>
         end_transaction False (t'\<lparr>tbl_data := tbl_clone t', tbl_clone := []\<rparr>, w')
     | (Fail f, s) \<Rightarrow> (Fail f, s))"

subsection \<open>Reading the file at start\<close>

definition load_row ::
  "(jobject \<Rightarrow> bool) \<Rightarrow> (jobject \<Rightarrow> 'e outcome) \<Rightarrow> json \<Rightarrow> (u64 \<times> 'e) outcome" where
  "load_row row_ok of_json v =
     (if \<not> is_object v then throws Runtime_error
      else obind (as_object v) (\<lambda>obj.
        if \<not> row_ok obj then throws Runtime_error
        else obind (jat obj ''id'') (\<lambda>j.
             obind (to_uint64 j) (\<lambda>k.
             obind (of_json obj) (\<lambda>e. Ok (k, e))))))"

fun load_rows ::
  "(jobject \<Rightarrow> bool) \<Rightarrow> (jobject \<Rightarrow> 'e outcome) \<Rightarrow> json list \<Rightarrow> (u64, 'e) smap \<Rightarrow>
   (u64, 'e) smap outcome" where
  "load_rows row_ok of_json [] m = Ok m"
| "load_rows row_ok of_json (v # vs) m =
     obind (load_row row_ok of_json v) (\<lambda>(k, e). load_rows row_ok of_json vs (smap_emplace k e m))"

definition DataFromRawJson ::
  "('w, 'z) file_io_scheme \<Rightarrow> (jobject \<Rightarrow> bool) \<Rightarrow> (jobject \<Rightarrow> 'e outcome) \<Rightarrow>
   (('w, 'e) tstate, unit) prog" where
  "DataFromRawJson io row_ok of_json = (\<lambda>(t, w).
     if tbl_raw t = [] then (Ok (), (t, w))
     else case json_parse io (tbl_raw t) of
       None \<Rightarrow> (throws System_error, (t, w))
     | Some val \<Rightarrow>
         if \<not> is_array val then (throws Runtime_error, (t, w))
         else case obind (as_array val) (\<lambda>arr. load_rows row_ok of_json arr (tbl_data t)) of
           Ok m \<Rightarrow> (Ok (), (t\<lparr>tbl_data := m\<rparr>, w))
         | Fail f \<Rightarrow> (Fail f, (t, w)))"

section \<open>Facts about a single call\<close>

lemma table_invD:
  assumes "table_inv t"
  shows "smap_inv (tbl_data t)" "smap_inv (tbl_clone t)" "tbl_mutex t = tbl_started t"
    "tbl_data_lock t = tbl_started t" "tbl_file_lock t = tbl_started t"
  using assms by (auto simp: table_inv_def)

lemma table_inv_new [simp]: "table_inv (new_table path)"
  by (simp add: table_inv_def new_table_def smap_inv_def)

lemma table_inv_upd_data [simp]:
  "table_inv t \<Longrightarrow> smap_inv m \<Longrightarrow> table_inv (t\<lparr>tbl_data := m\<rparr>)"
  by (simp add: table_inv_def)

lemma data_guard_inv [simp]: "table_inv t \<Longrightarrow> data_guard m (t, w) = m (t, w)"
  by (simp add: data_guard_def table_inv_def)

lemma WriteRaw_run:
  "table_inv t \<Longrightarrow> WriteRaw io to_json (t, w) =
     (case fio_write io (tbl_path t) (json_serialize io (Table_to_json to_json t)) w of
        (b, w') \<Rightarrow> (if b then Ok () else throws Runtime_error, (t, w')))"
  by (auto simp: WriteRaw_def table_inv_def split: prod.splits)

lemma commit_run:
  "table_inv t \<Longrightarrow> commit io to_json (t, w) =
     (if tbl_started t then (Ok (), (t, w))
      else case fio_write io (tbl_path t) (json_serialize io (Table_to_json to_json t)) w of
        (b, w') \<Rightarrow> (if b then Ok () else throws Runtime_error, (t, w')))"
  by (simp add: commit_def WriteRaw_run)

lemma commit_table:
  "table_inv t \<Longrightarrow> commit io to_json (t, w) = (r, (t', w')) \<Longrightarrow>
     t' = t \<and> (r = Ok () \<or> r = throws Runtime_error)"
  by (auto simp: commit_run split: if_splits prod.splits)

lemma upd_data_run [simp]: "upd_data f (t, w) = (Ok (), (t\<lparr>tbl_data := f (tbl_data t)\<rparr>, w))"
  by (simp add: upd_data_def)

lemma Delete_run:
  "table_inv t \<Longrightarrow>
   Delete io to_json i (t, w) = commit io to_json (t\<lparr>tbl_data := smap_erase i (tbl_data t)\<rparr>, w)"
  by (simp add: Delete_def)

lemma Clear_run:
  "table_inv t \<Longrightarrow> Clear io to_json (t, w) = commit io to_json (t\<lparr>tbl_data := []\<rparr>, w)"
  by (simp add: Clear_def)

lemma CheckIndex_run:
  "table_inv t \<Longrightarrow> CheckIndex i (t, w) =
     (if smap_count (tbl_data t) i then Ok () else throws Invalid_argument, (t, w))"
  by (simp add: CheckIndex_def)

lemma Read_run:
  "table_inv t \<Longrightarrow> Read i (t, w) =
     (case map_of (tbl_data t) i of None \<Rightarrow> throws Invalid_argument | Some e \<Rightarrow> Ok e, (t, w))"
  by (auto simp: Read_def CheckIndex_run smap_count_def bindp_def split: option.splits)

lemma Update_run:
  "table_inv t \<Longrightarrow> Update io to_json i e (t, w) =
     (if smap_count (tbl_data t) i
      then commit io to_json (t\<lparr>tbl_data := smap_assign i e (tbl_data t)\<rparr>, w)
      else (throws Invalid_argument, (t, w)))"
  by (simp add: Update_def CheckIndex_run bindp_def)

lemma fold_emplace_id: "smap_inv m \<Longrightarrow> fold (\<lambda>(k, e). smap_emplace k e) m [] = m"
proof -
  have "fold (\<lambda>(k, e). smap_emplace k e) m acc = acc @ m"
    if "smap_inv (acc @ m)" for acc
    using that
  proof (induction m arbitrary: acc)
    case (Cons x m)
    obtain k e where x: "x = (k, e)" by (cases x)
    have "smap_emplace k e acc = acc @ [(k, e)]"
      using Cons.prems x
      by (intro std_map.emplace_above) (auto simp: smap_inv_def sorted_wrt_append)
    with Cons.IH [of "acc @ [x]"] Cons.prems x show ?case by simp
  qed simp
  then show "smap_inv m \<Longrightarrow> fold (\<lambda>(k, e). smap_emplace k e) m [] = m" by simp
qed

lemma DeepDataClone_run: "table_inv t \<Longrightarrow> DeepDataClone t = t\<lparr>tbl_clone := tbl_data t\<rparr>"
  by (simp add: DeepDataClone_def fold_emplace_id table_inv_def)

lemma StartTransaction_run:
  "table_inv t \<Longrightarrow> StartTransaction (t, w) =
     (if tbl_started t then (Fail Hangs, (t, w))
      else (Ok (), (t\<lparr>tbl_mutex := True, tbl_started := True,
                      tbl_data_lock := True, tbl_file_lock := True\<rparr>, w)))"
  by (simp add: StartTransaction_def table_inv_def)

text \<open>The table after a transaction has ended.\<close>

definition closed :: "'e table \<Rightarrow> 'e table" where
  "closed t = t\<lparr>tbl_file_lock := False, tbl_data_lock := False, tbl_mutex := False,
     tbl_started := False\<rparr>"

lemma table_inv_closed [simp]: "table_inv t \<Longrightarrow> table_inv (closed t)"
  by (simp add: closed_def table_inv_def)

lemma ProcessTransaction_run:
  assumes "table_inv t" "tbl_started t"
  shows "ProcessTransaction io to_json (t, w) =
    (case fio_write io (tbl_path t) (json_serialize io (Table_to_json to_json t)) w of
       (b, w') \<Rightarrow> (Ok b, (closed (t\<lparr>tbl_clone := if b then tbl_data t else []\<rparr>), w')))"
proof -
  have i: "table_inv (t\<lparr>tbl_clone := tbl_data t\<rparr>)"
    using assms(1) by (simp add: table_inv_def)
  have j: "Table_to_json to_json (t\<lparr>tbl_clone := tbl_data t\<rparr>) = Table_to_json to_json t"
    by (simp add: Table_to_json_def)
  show ?thesis
    using assms
    by (auto simp: ProcessTransaction_def DeepDataClone_run WriteRaw_run i j end_transaction_def
        closed_def table_inv_def split: prod.splits)
qed

text \<open>Every call keeps the invariant of the table.\<close>

lemma Delete_inv: "table_inv t \<Longrightarrow> Delete io to_json i (t, w) = (r, (t', w')) \<Longrightarrow> table_inv t'"
  by (auto simp: Delete_run smap_inv_erase table_invD dest!: commit_table [rotated])

lemma Clear_inv: "table_inv t \<Longrightarrow> Clear io to_json (t, w) = (r, (t', w')) \<Longrightarrow> table_inv t'"
  by (auto simp: Clear_run smap_inv_def dest!: commit_table [rotated])

lemma Update_inv:
  "table_inv t \<Longrightarrow> Update io to_json i e (t, w) = (r, (t', w')) \<Longrightarrow> table_inv t'"
  by (auto simp: Update_run smap_inv_assign table_invD split: if_splits dest!: commit_table [rotated])

lemma append_row_inv: "smap_inv m \<Longrightarrow> smap_inv (append_row e m)"
  by (simp add: append_row_def smap_inv_emplace)

lemma StartTransaction_inv:
  "table_inv t \<Longrightarrow> StartTransaction (t, w) = (r, (t', w')) \<Longrightarrow> table_inv t'"
  by (auto simp: StartTransaction_run split: if_splits) (simp add: table_inv_def)

lemma ProcessTransaction_inv:
  "table_inv t \<Longrightarrow> tbl_started t \<Longrightarrow> ProcessTransaction io to_json (t, w) = (r, (t', w')) \<Longrightarrow>
   table_inv t'"
  by (auto simp: ProcessTransaction_run split: prod.splits)
    (auto simp: closed_def table_inv_def smap_inv_def)

section \<open>New rows\<close>

text \<open>Below the top of the key range a new row gets a fresh key and goes to the end.\<close>

lemma smap_last_greatest:
  assumes "smap_inv m" "k \<in> fst ` set m"
  shows "k \<le> fst (last m)"
  using assms
proof (induction m rule: rev_induct)
  case (snoc x m)
  then show ?case by (auto simp: smap_inv_def sorted_wrt_append intro: less_imp_le)
qed simp

lemma word_less_succ:
  fixes k l :: u64
  assumes "k \<le> l" and "l \<noteq> - 1"
  shows "k < l + 1"
proof -
  have "l + 1 \<noteq> 0" using assms(2) by (metis add.commute add_eq_0_iff)
  then have "unat (l + 1) = unat l + 1" by (simp add: unatSuc add.commute)
  then show ?thesis using assms(1) by (simp add: word_less_nat_alt word_le_nat_alt)
qed

lemma append_row_fresh:
  assumes "smap_inv m" and "\<And>k. k \<in> fst ` set m \<Longrightarrow> k \<noteq> - 1"
  shows "append_row e m = m @ [(next_index m, e)]"
    and "map_of m (next_index m) = None"
proof -
  have above: "k < next_index m" if "k \<in> fst ` set m" for k
  proof -
    have ne: "m \<noteq> []" using that by auto
    then have "fst (last m) \<in> fst ` set m" by simp
    with assms(2) have "fst (last m) \<noteq> - 1" by blast
    with smap_last_greatest [OF assms(1) that] show ?thesis
      using ne by (simp add: next_index_def word_less_succ)
  qed
  show "append_row e m = m @ [(next_index m, e)]"
    unfolding append_row_def by (rule std_map.emplace_above) (use assms(1) above in auto)
  show "map_of m (next_index m) = None"
    using above by (force simp: map_of_eq_None_iff)
qed

text \<open>At the top of the range the index wraps to 0, and an existing row 0 is kept.\<close>

lemma append_row_wraps:
  assumes "smap_inv m" and "m \<noteq> []" and "fst (last m) = - 1"
  shows "append_row e m = smap_emplace 0 e m"
  using assms by (simp add: append_row_def next_index_def)

section \<open>Reading the file back\<close>

text \<open>
  The contract between a table and the objects it stores: an object is rebuilt from its JSON
  form, which leaves the member \<^verbatim>\<open>id\<close> to the table. A table adds the check it makes on a
  row before it builds the object; \<open>id_ok\<close> are the keys that pass this check.
\<close>

locale json_dto =
  fixes to_obj :: "'e \<Rightarrow> jobject"
    and of_obj :: "jobject \<Rightarrow> 'e outcome"
    and wf :: "'e \<Rightarrow> bool"
  assumes rebuilt: "wf e \<Longrightarrow> of_obj (reparse_object (to_obj e) @ rest) = Ok e"
    and no_id: "''id'' \<notin> fst ` set (to_obj e)"

locale table_rows = json_dto to_obj of_obj wf
  for to_obj :: "'e \<Rightarrow> jobject"
    and of_obj :: "jobject \<Rightarrow> 'e outcome"
    and wf :: "'e \<Rightarrow> bool" +
  fixes row_ok :: "jobject \<Rightarrow> bool"
    and id_ok :: "u64 \<Rightarrow> bool"
  assumes row_accepted: "wf e \<Longrightarrow> id_ok k \<Longrightarrow>
      row_ok (reparse_object (to_obj e) @ [(''id'', reparse (JUint64 k))])"
    and row_rejected: "\<not> id_ok k \<Longrightarrow>
      \<not> row_ok (reparse_object (to_obj e) @ [(''id'', reparse (JUint64 k))])"
begin

definition row :: "u64 \<times> 'e \<Rightarrow> json" where
  "row = (\<lambda>(k, e). JObject (jset ''id'' (JUint64 k) (to_obj e)))"

lemma row_reparse:
  "reparse (row (k, e)) = JObject (reparse_object (to_obj e) @ [(''id'', reparse (JUint64 k))])"
  using jset_fresh [OF no_id, of "JUint64 k" e] by (simp add: row_def reparse_JObject del: reparse.simps(3))

lemma id_lookup: "map_of (reparse_object (to_obj e) @ [(''id'', j)]) ''id'' = Some j"
proof -
  have "map_of (reparse_object (to_obj e)) ''id'' = None"
    using no_id [of e] by (simp add: map_of_reparse_object map_of_eq_None_iff)
  then show ?thesis by (simp add: map_add_def)
qed

lemma load_row_back:
  "wf e \<Longrightarrow> id_ok k \<Longrightarrow> load_row row_ok of_obj (reparse (row (k, e))) = Ok (k, e)"
  by (simp only: row_reparse load_row_def is_object.simps as_object.simps obind.simps
      row_accepted not_True_eq_False if_False jat_Some [OF id_lookup] to_uint64_reparse rebuilt)

lemma load_row_refused:
  "\<not> id_ok k \<Longrightarrow> load_row row_ok of_obj (reparse (row (k, e))) = throws Runtime_error"
  by (simp only: row_reparse load_row_def is_object.simps as_object.simps obind.simps
      row_rejected not_True_eq_False not_False_eq_True if_False if_True)

lemma load_rows_back:
  assumes "smap_inv (acc @ m)" and "\<And>k e. (k, e) \<in> set m \<Longrightarrow> wf e \<and> id_ok k"
  shows "load_rows row_ok of_obj (map (\<lambda>x. reparse (row x)) m) acc = Ok (acc @ m)"
  using assms
proof (induction m arbitrary: acc)
  case (Cons x m)
  obtain k e where x: "x = (k, e)" by (cases x)
  have "smap_emplace k e acc = acc @ [(k, e)]"
    using Cons.prems(1) x
    by (intro std_map.emplace_above) (auto simp: smap_inv_def sorted_wrt_append)
  moreover have "load_row row_ok of_obj (reparse (row (k, e))) = Ok (k, e)"
    using Cons.prems(2) x by (intro load_row_back) auto
  moreover have "load_rows row_ok of_obj (map (\<lambda>x. reparse (row x)) m) (acc @ [x]) = Ok ((acc @ [x]) @ m)"
    by (rule Cons.IH) (use Cons.prems in auto)
  ultimately show ?case using x by simp
qed simp

lemma Table_to_json_rows: "Table_to_json to_obj t = JArray (map row (tbl_data t))"
  by (simp add: Table_to_json_def row_def)

text \<open>A refused row makes the whole load fail.\<close>

lemma load_rows_refused:
  assumes "(k, e) \<in> set m" and "\<not> id_ok k" and "\<And>k e. (k, e) \<in> set m \<Longrightarrow> wf e"
  shows "load_rows row_ok of_obj (map (\<lambda>x. reparse (row x)) m) acc = throws Runtime_error"
  using assms
proof (induction m arbitrary: acc)
  case (Cons x m)
  obtain k' e' where x: "x = (k', e')" by (cases x)
  show ?case
  proof (cases "id_ok k'")
    case True
    have "wf e'" by (rule Cons.prems(3) [of k']) (simp add: x)
    with True x have "load_row row_ok of_obj (reparse (row x)) = Ok (k', e')"
      by (simp add: load_row_back)
    with Cons x True show ?thesis by auto
  next
    case False
    with x show ?thesis by (simp add: load_row_refused)
  qed
qed simp

text \<open>Loading what \<open>t\<close> serializes to gives back the rows of \<open>t\<close>.\<close>

lemma load_serialized:
  assumes "table_inv t" and "\<And>k e. (k, e) \<in> set (tbl_data t) \<Longrightarrow> wf e \<and> id_ok k"
    and "json_io (json_parse io) (json_serialize io) (Table_to_json to_obj t)"
    and "tbl_raw t' = json_serialize io (Table_to_json to_obj t)" and "tbl_data t' = []"
  shows "DataFromRawJson io row_ok of_obj (t', w) = (Ok (), (t'\<lparr>tbl_data := tbl_data t\<rparr>, w))"
proof -
  have "load_rows row_ok of_obj (map (\<lambda>x. reparse (row x)) (tbl_data t)) [] = Ok (tbl_data t)"
    using load_rows_back [of "[]" "tbl_data t"] assms(1,2) by (simp add: table_invD)
  with assms(3-5) show ?thesis
    by (simp add: DataFromRawJson_def json_io_def Table_to_json_rows o_def)
qed

lemma load_serialized_refused:
  assumes "(k, e) \<in> set (tbl_data t)" and "\<not> id_ok k"
    and "\<And>k e. (k, e) \<in> set (tbl_data t) \<Longrightarrow> wf e"
    and "json_io (json_parse io) (json_serialize io) (Table_to_json to_obj t)"
    and "tbl_raw t' = json_serialize io (Table_to_json to_obj t)"
  shows "DataFromRawJson io row_ok of_obj (t', w) = (throws Runtime_error, (t', w))"
proof -
  have "load_rows row_ok of_obj (map (\<lambda>x. reparse (row x)) (tbl_data t)) (tbl_data t')
      = throws Runtime_error"
    using assms(1-3) by (rule load_rows_refused)
  with assms(4,5) show ?thesis
    by (simp add: DataFromRawJson_def json_io_def Table_to_json_rows o_def)
qed

end

text \<open>
  What the program relies on from the file system: after a successful write of \<open>s\<close> the file is
  there and reading it gives \<open>s\<close>.
\<close>

definition file_keeps :: "('w, 'z) file_io_scheme \<Rightarrow> string \<Rightarrow> string \<Rightarrow> 'w \<Rightarrow> bool" where
  "file_keeps io p s w \<longleftrightarrow>
     (\<exists>w1. fio_exists io p w = (Ok True, w1) \<and> (\<exists>w2. fio_exists io p w1 = (Ok True, w2) \<and>
       fst (fio_read io p w2) = Some s))"

lemma Table_construct_reads:
  assumes "file_keeps io p s w"
  shows "\<exists>w'. Table_construct io (new_table p, w) = (Ok (), ((new_table p)\<lparr>tbl_raw := s\<rparr>, w'))"
proof -
  obtain w1 w2 where e: "fio_exists io p w = (Ok True, w1)" "fio_exists io p w1 = (Ok True, w2)"
    "fst (fio_read io p w2) = Some s"
    using assms by (auto simp: file_keeps_def)
  moreover obtain w3 where "fio_read io p w2 = (Some s, w3)" using e(3) by (cases "fio_read io p w2") auto
  ultimately show ?thesis
    by (auto simp: Table_construct_def ReadRaw_def new_table_def)
qed

section \<open>A sample file system\<close>

text \<open>
  A world for the concrete runs: a partial map from paths to contents, with a serializer that
  knows one value.
\<close>

type_synonym disk = "string \<Rightarrow> string option"

definition sample_io :: "json \<Rightarrow> disk file_io" where
  "sample_io j = \<lparr>
     fio_exists = \<lambda>p w. (Ok (w p \<noteq> None), w),
     fio_create_directories = \<lambda>p w. (Ok (), w),
     fio_write = \<lambda>p s w. (True, w(p \<mapsto> s)),
     fio_read = \<lambda>p w. (w p, w),
     json_parse = \<lambda>s. if s = ''rows'' then Some (reparse j) else None,
     json_serialize = \<lambda>v. if v = j then ''rows'' else ''other''\<rparr>"

end
