(* ===== verification/Dal_Mount_Points.thy ===== *)
theory Dal_Mount_Points
  imports Dal_Table
begin

text \<open>
  \<^verbatim>\<open>daemon/dal/mount_points.hpp\<close> and \<^verbatim>\<open>mount_points.cpp\<close>: the table of the mount
  points the daemon has made, a \<open>table\<close> of \<open>MountEntry\<close>. The interpretation \<open>mount_rows\<close>
  discharges the contract between the table and its rows, and the properties at the end say
  what each operation does to the rows and to the file.
\<close>

type_synonym 'w mpstate = "('w, MountEntry) tstate"

section \<open>Operations\<close>

text \<open>The check of a row before its entry is built.\<close>

definition mount_row_ok :: "jobject \<Rightarrow> bool" where
  "mount_row_ok obj \<longleftrightarrow> jhas obj ''id'' is_number \<and> jhas obj ''dev_name'' is_string \<and>
     jhas obj ''mount_point'' is_string \<and> jhas obj ''fs_type'' is_string"

definition Mountpoints_DataFromRawJson ::
  "('w, 'z) file_io_scheme \<Rightarrow> ('w mpstate, unit) prog" where
  "Mountpoints_DataFromRawJson io = DataFromRawJson io mount_row_ok MountEntry_of_json"

definition Mountpoints_construct :: "('w, 'z) file_io_scheme \<Rightarrow> ('w mpstate, unit) prog" where
  "Mountpoints_construct io =
     bindp (Table_construct io) (\<lambda>_. Mountpoints_DataFromRawJson io)"

definition Mountpoints_WriteRaw :: "('w, 'z) file_io_scheme \<Rightarrow> ('w mpstate, unit) prog" where
  "Mountpoints_WriteRaw io = WriteRaw io MountEntry_to_json"

text \<open>Both \<^verbatim>\<open>Find\<close> give the key of the first row that matches.\<close>

definition Mountpoints_Find_entry :: "MountEntry \<Rightarrow> ('w mpstate, u64 option) prog" where
  "Mountpoints_Find_entry entry = data_guard (getp (\<lambda>(t, w).
     smap_find_key (\<lambda>db_entry. MountEntry_eq db_entry entry) (tbl_data t)))"

definition Mountpoints_Find_dev :: "string \<Rightarrow> ('w mpstate, u64 option) prog" where
  "Mountpoints_Find_dev block_dev = data_guard (getp (\<lambda>(t, w).
     smap_find_key (\<lambda>db_entry. me_dev_name db_entry = block_dev) (tbl_data t)))"

definition Mountpoints_Create ::
  "('w, 'z) file_io_scheme \<Rightarrow> MountEntry \<Rightarrow> ('w mpstate, unit) prog" where
  "Mountpoints_Create io entry =
     bindp (Mountpoints_Find_entry entry) (\<lambda>index.
       case index of
         Some _ \<Rightarrow> ret ()
       | None \<Rightarrow>
           bindp (data_guard (upd_data (append_row entry))) (\<lambda>_.
             commit io MountEntry_to_json))"

definition Mountpoints_Read :: "u64 \<Rightarrow> ('w mpstate, MountEntry) prog" where
  "Mountpoints_Read index = Read index"

definition Mountpoints_Update ::
  "('w, 'z) file_io_scheme \<Rightarrow> u64 \<Rightarrow> MountEntry \<Rightarrow> ('w mpstate, unit) prog" where
  "Mountpoints_Update io index entry = Update io MountEntry_to_json index entry"

text \<open>The loop over the rows with the iterator that \<^verbatim>\<open>erase\<close> returns.\<close>

fun erase_expired :: "string list \<Rightarrow> (u64, MountEntry) smap \<Rightarrow> (u64, MountEntry) smap" where
  "erase_expired valid_set [] = []"
| "erase_expired valid_set ((k, mnt_entry) # rows) =
     (if me_mount_point mnt_entry \<notin> set valid_set then erase_expired valid_set rows
      else (k, mnt_entry) # erase_expired valid_set rows)"

definition Mountpoints_RemoveExpired ::
  "('w, 'z) file_io_scheme \<Rightarrow> string list \<Rightarrow> ('w mpstate, unit) prog" where
  "Mountpoints_RemoveExpired io valid_set = noexceptp
     (bindp (data_guard (upd_data (erase_expired valid_set))) (\<lambda>_.
        commit io MountEntry_to_json))"

definition Mountpoints_GetAll :: "('w mpstate, MountEntry list) prog" where
  "Mountpoints_GetAll = data_guard (getp (\<lambda>(t, w). map snd (tbl_data t)))"

definition Mountpoints_Delete ::
  "('w, 'z) file_io_scheme \<Rightarrow> u64 \<Rightarrow> ('w mpstate, unit) prog" where
  "Mountpoints_Delete io index = Delete io MountEntry_to_json index"

section \<open>The rows satisfy the contract of the table\<close>

interpretation mount_rows:
  table_rows MountEntry_to_json MountEntry_of_json MountEntry_wf mount_row_ok "\<lambda>_. True"
proof unfold_locales
  fix e :: MountEntry and rest
  show "MountEntry_wf e \<Longrightarrow>
      MountEntry_of_json (reparse_object (MountEntry_to_json e) @ rest) = Ok e"
    by (rule MountEntry_json_back)
  show "''id'' \<notin> fst ` set (MountEntry_to_json e)"
    by (simp add: MountEntry_to_json_def)
  show "MountEntry_wf e \<Longrightarrow> True \<Longrightarrow>
      mount_row_ok (reparse_object (MountEntry_to_json e) @ [(''id'', reparse (JUint64 k))])" for k
    by (simp add: mount_row_ok_def jhas_def MountEntry_to_json_def)
qed simp

section \<open>Single calls\<close>

definition no_top_key :: "(u64, 'e) smap \<Rightarrow> bool" where
  "no_top_key m \<longleftrightarrow> - 1 \<notin> fst ` set m"

lemma erase_expired_filter:
  "erase_expired valid_set m = filter (\<lambda>(k, e). me_mount_point e \<in> set valid_set) m"
  by (induction valid_set m rule: erase_expired.induct) auto

lemma map_of_filter_snd:
  "distinct (map fst m) \<Longrightarrow>
   map_of (filter (\<lambda>(k, e). P e) m) k = Some e \<longleftrightarrow> map_of m k = Some e \<and> P e"
  by (simp add: distinct_map_filter)

lemma Mountpoints_Find_entry_run:
  "table_inv t \<Longrightarrow> Mountpoints_Find_entry entry (t, w) =
     (Ok (smap_find_key (\<lambda>e. e = entry) (tbl_data t)), (t, w))"
  by (simp add: Mountpoints_Find_entry_def MountEntry_eq_iff)

lemma Mountpoints_Find_dev_run:
  "table_inv t \<Longrightarrow> Mountpoints_Find_dev dev (t, w) =
     (Ok (smap_find_key (\<lambda>e. me_dev_name e = dev) (tbl_data t)), (t, w))"
  by (simp add: Mountpoints_Find_dev_def)

lemma Mountpoints_GetAll_run:
  "table_inv t \<Longrightarrow> Mountpoints_GetAll (t, w) = (Ok (map snd (tbl_data t)), (t, w))"
  by (simp add: Mountpoints_GetAll_def)

lemma find_entry_None:
  "smap_find_key (\<lambda>e. e = entry) m = None \<longleftrightarrow> entry \<notin> snd ` set m"
  by (force simp: smap_find_key_def find_None_iff)

lemma Mountpoints_Create_run:
  assumes "table_inv t"
  shows "Mountpoints_Create io entry (t, w) =
    (if entry \<in> snd ` set (tbl_data t) then (Ok (), (t, w))
     else commit io MountEntry_to_json (t\<lparr>tbl_data := append_row entry (tbl_data t)\<rparr>, w))"
proof (cases "entry \<in> snd ` set (tbl_data t)")
  case True
  then have "smap_find_key (\<lambda>e. e = entry) (tbl_data t) \<noteq> None"
    by (simp add: find_entry_None)
  with True show ?thesis
    by (auto simp: Mountpoints_Create_def bindp_def Mountpoints_Find_entry_run assms)
next
  case False
  then have "smap_find_key (\<lambda>e. e = entry) (tbl_data t) = None"
    by (simp add: find_entry_None)
  with False show ?thesis
    by (simp add: Mountpoints_Create_def bindp_def Mountpoints_Find_entry_run assms)
qed

lemma Mountpoints_RemoveExpired_run:
  assumes "table_inv t"
  shows "Mountpoints_RemoveExpired io valid_set (t, w) =
    noexceptp (commit io MountEntry_to_json) (t\<lparr>tbl_data := erase_expired valid_set (tbl_data t)\<rparr>, w)"
  using assms by (simp add: Mountpoints_RemoveExpired_def noexceptp_def)

lemma append_row_values: "snd ` set (append_row e m) \<subseteq> insert e (snd ` set m)"
  using smap_emplace_split [of "next_index m" e m] by (auto simp: append_row_def)

lemma distinct_append_row:
  "e \<notin> snd ` set m \<Longrightarrow> distinct (map snd m) \<Longrightarrow> distinct (map snd (append_row e m))"
  using smap_emplace_split [of "next_index m" e m] by (auto simp: append_row_def)

section \<open>Invariant\<close>

text \<open>No two rows hold the same entry.\<close>

definition mounts_inv :: "MountEntry table \<Rightarrow> bool" where
  "mounts_inv t \<longleftrightarrow> table_inv t \<and> distinct (map snd (tbl_data t))"

lemma distinct_map_filter_snd: "distinct (map snd m) \<Longrightarrow> distinct (map snd (filter P m))"
  by (induction m) auto

lemma mounts_inv_upd:
  "mounts_inv t \<Longrightarrow> smap_inv m \<Longrightarrow> distinct (map snd m) \<Longrightarrow> mounts_inv (t\<lparr>tbl_data := m\<rparr>)"
  by (simp add: mounts_inv_def)

lemma commit_snd: "table_inv t \<Longrightarrow> fst (snd (commit io to_json (t, w))) = t"
  by (auto simp: commit_run split: prod.splits)

lemma noexcept_commit_snd:
  "table_inv t \<Longrightarrow> fst (snd (noexceptp (commit io to_json) (t, w))) = t"
  by (auto simp: noexceptp_def commit_run split: prod.splits)

lemma mounts_inv_Create:
  "mounts_inv t \<Longrightarrow> mounts_inv (fst (snd (Mountpoints_Create io e (t, w))))"
  by (auto simp: mounts_inv_def Mountpoints_Create_run commit_snd append_row_inv table_invD
      intro: distinct_append_row)

lemma mounts_inv_RemoveExpired:
  "mounts_inv t \<Longrightarrow> mounts_inv (fst (snd (Mountpoints_RemoveExpired io valid_set (t, w))))"
  by (simp add: mounts_inv_def Mountpoints_RemoveExpired_run noexcept_commit_snd
      erase_expired_filter smap_inv_filter distinct_map_filter_snd table_invD)

lemma mounts_inv_Delete:
  "mounts_inv t \<Longrightarrow> mounts_inv (fst (snd (Mountpoints_Delete io k (t, w))))"
  by (simp add: mounts_inv_def Mountpoints_Delete_def Delete_run commit_snd smap_inv_erase
      smap_erase_def smap_inv_filter distinct_map_filter_snd table_invD)

lemmas mounts_inv_ops = mounts_inv_Create mounts_inv_RemoveExpired mounts_inv_Delete

section \<open>Properties\<close>

definition sample_mounts :: "MountEntry table" where
  "sample_mounts = (new_table ''/var/lib/alt-usb-mount/mount_points.json'')
     \<lparr>tbl_data := [(3, sample_mount), (5, sample_mount\<lparr>me_mount_point := ''/mount2''\<rparr>)]\<rparr>"

lemma sample_mounts_inv: "mounts_inv sample_mounts"
  by (simp add: mounts_inv_def table_inv_def sample_mounts_def new_table_def smap_inv_def
      sample_mount_def)

lemma sample_mounts_data:
  "tbl_data sample_mounts = [(3, sample_mount), (5, sample_mount\<lparr>me_mount_point := ''/mount2''\<rparr>)]"
  by (simp add: sample_mounts_def)

text \<open>
  The table of mount points never holds the same entry twice: creating, deleting and
  removing expired rows keep the keys increasing, the locks consistent and the entries
  distinct, whatever the file system answers.
\<close>

theorem mount_points_no_duplicates:
  assumes "mounts_inv t"
  shows "mounts_inv (fst (snd (Mountpoints_Create io e (t, w)))) \<and>
    mounts_inv (fst (snd (Mountpoints_RemoveExpired io valid_set (t, w)))) \<and>
    mounts_inv (fst (snd (Mountpoints_Delete io k (t, w))))"
  using assms by (simp add: mounts_inv_ops)

theorem mount_points_no_duplicates_witness:
  "mounts_inv (fst (snd (Mountpoints_Create (sample_io JNull) sample_mount (sample_mounts, Map.empty))))"
  using mount_points_no_duplicates [OF sample_mounts_inv, of "sample_io JNull" sample_mount Map.empty]
  by blast

text \<open>
  Creating an entry that the table holds changes nothing, not even the file. A new entry
  gets a key above every key in use, is added under it and leaves the other rows alone; outside
  a transaction the file is then written with the new table, and a failing write is reported
  as \<open>Runtime_error\<close> with the row kept in memory.
\<close>

theorem mount_points_create:
  assumes "table_inv t" and "no_top_key (tbl_data t)" and "\<not> tbl_started t"
  shows "if e \<in> snd ` set (tbl_data t)
    then Mountpoints_Create io e (t, w) = (Ok (), (t, w))
    else (\<exists>k t' b w'. map_of (tbl_data t) k = None \<and> (\<forall>k' \<in> dom (map_of (tbl_data t)). k' < k) \<and>
      map_of (tbl_data t') = (map_of (tbl_data t))(k \<mapsto> e) \<and> tbl_path t' = tbl_path t \<and>
      fio_write io (tbl_path t) (json_serialize io (Table_to_json MountEntry_to_json t')) w = (b, w') \<and>
      Mountpoints_Create io e (t, w) = (if b then Ok () else throws Runtime_error, (t', w')))"
proof (cases "e \<in> snd ` set (tbl_data t)")
  case True
  then show ?thesis using assms(1) by (simp add: Mountpoints_Create_run)
next
  case False
  let ?t = "t\<lparr>tbl_data := append_row e (tbl_data t)\<rparr>"
  have key: "k' \<noteq> - 1" if "k' \<in> fst ` set (tbl_data t)" for k'
    using assms(2) that by (metis no_top_key_def)
  note app = append_row_fresh [OF table_invD(1) [OF assms(1)] key]
  have "\<forall>k' \<in> dom (map_of (tbl_data t)). k' < next_index (tbl_data t)"
    using append_row_inv [OF table_invD(1) [OF assms(1)], of e]
    by (auto simp: app smap_inv_def sorted_wrt_append dom_map_of_conv_image_fst)
  moreover have "map_of (tbl_data ?t) = (map_of (tbl_data t))(next_index (tbl_data t) \<mapsto> e)"
    by (auto simp: app fun_eq_iff map_add_def split: option.splits)
  moreover have "table_inv ?t"
    using assms(1) by (simp add: append_row_inv table_invD)
  ultimately show ?thesis
    using False assms app(2)
    by (auto simp: Mountpoints_Create_run commit_run split: prod.splits
        intro!: exI [of _ "next_index (tbl_data t)"] exI [of _ ?t])
qed

theorem mount_points_create_witness:
  "table_inv sample_mounts \<and> Mountpoints_Create (sample_io JNull) sample_mount (sample_mounts, Map.empty)
     = (Ok (), (sample_mounts, Map.empty))"
proof -
  have inv: "table_inv sample_mounts" using sample_mounts_inv by (simp add: mounts_inv_def)
  have top: "no_top_key (tbl_data sample_mounts)"
    by (simp add: no_top_key_def sample_mounts_def)
  have "\<not> tbl_started sample_mounts" by (simp add: sample_mounts_def new_table_def)
  from mount_points_create [OF inv top this, of sample_mount "sample_io JNull" Map.empty] inv
  show ?thesis by (simp add: sample_mounts_data)
qed

text \<open>
  \<^verbatim>\<open>RemoveExpired\<close> keeps exactly the rows whose mount point is in the given set, under
  their keys; the only way it does not return is a file that cannot be opened, and then the
  process ends, because the exception leaves a \<^verbatim>\<open>noexcept\<close> function.
\<close>

theorem mount_points_remove_expired:
  assumes "table_inv t"
  shows "\<exists>r t' w'. Mountpoints_RemoveExpired io valid_set (t, w) = (r, (t', w')) \<and>
    (r = Ok () \<or> r = Fail Terminated) \<and> (tbl_started t \<longrightarrow> r = Ok () \<and> w' = w) \<and>
    (\<forall>k e. map_of (tbl_data t') k = Some e \<longleftrightarrow>
       map_of (tbl_data t) k = Some e \<and> me_mount_point e \<in> set valid_set)"
proof -
  let ?t = "t\<lparr>tbl_data := erase_expired valid_set (tbl_data t)\<rparr>"
  have inv: "table_inv ?t"
    using assms by (simp add: erase_expired_filter smap_inv_filter table_invD)
  have rows: "\<forall>k e. map_of (tbl_data ?t) k = Some e \<longleftrightarrow>
       map_of (tbl_data t) k = Some e \<and> me_mount_point e \<in> set valid_set"
    using std_map.distinct_keys [OF table_invD(1) [OF assms]]
    by (simp add: erase_expired_filter map_of_filter_snd)
  obtain b w' where "fio_write io (tbl_path ?t)
      (json_serialize io (Table_to_json MountEntry_to_json ?t)) w = (b, w')" by fastforce
  then have "Mountpoints_RemoveExpired io valid_set (t, w) =
      (if tbl_started t then (Ok (), (?t, w)) else (if b then Ok () else Fail Terminated, (?t, w')))"
    by (simp add: Mountpoints_RemoveExpired_run [OF assms] noexceptp_def commit_run [OF inv])
  with rows show ?thesis by (cases "tbl_started t") fastforce+
qed

theorem mount_points_remove_expired_witness:
  "table_inv sample_mounts \<and>
   (\<exists>r t' w'. Mountpoints_RemoveExpired (sample_io JNull) [''/mount2''] (sample_mounts, Map.empty)
      = (r, (t', w')) \<and> map_of (tbl_data t') 3 = None)"
proof -
  have inv: "table_inv sample_mounts" using sample_mounts_inv by (simp add: mounts_inv_def)
  from mount_points_remove_expired [OF inv, of "sample_io JNull" "[''/mount2'']" Map.empty]
  obtain r t' w' where
    run: "Mountpoints_RemoveExpired (sample_io JNull) [''/mount2''] (sample_mounts, Map.empty) = (r, (t', w'))"
    and rows: "\<forall>k e. map_of (tbl_data t') k = Some e \<longleftrightarrow>
       map_of (tbl_data sample_mounts) k = Some e \<and> me_mount_point e \<in> set [''/mount2'']"
    by blast
  have "map_of (tbl_data t') 3 \<noteq> Some e" for e
    using rows by (auto simp: sample_mounts_data sample_mount_def)
  then have "map_of (tbl_data t') 3 = None" by (cases "map_of (tbl_data t') 3") auto
  with run inv show ?thesis by blast
qed

text \<open>
  Looking up a block device gives the least key of a row with that device, and nothing
  exactly when no row has it.
\<close>

theorem mount_points_find_dev:
  assumes "table_inv t"
  shows "\<exists>res. Mountpoints_Find_dev dev (t, w) = (Ok res, (t, w)) \<and>
    (case res of
       None \<Rightarrow> (\<forall>k e. map_of (tbl_data t) k = Some e \<longrightarrow> me_dev_name e \<noteq> dev)
     | Some k \<Rightarrow> (\<exists>e. map_of (tbl_data t) k = Some e \<and> me_dev_name e = dev) \<and>
         (\<forall>k' e'. map_of (tbl_data t) k' = Some e' \<and> me_dev_name e' = dev \<longrightarrow> k \<le> k'))"
proof -
  note inv = table_invD(1) [OF assms]
  let ?k = "smap_find_key (\<lambda>e. me_dev_name e = dev) (tbl_data t)"
  have "case ?k of
       None \<Rightarrow> (\<forall>k e. map_of (tbl_data t) k = Some e \<longrightarrow> me_dev_name e \<noteq> dev)
     | Some k \<Rightarrow> (\<exists>e. map_of (tbl_data t) k = Some e \<and> me_dev_name e = dev) \<and>
         (\<forall>k' e'. map_of (tbl_data t) k' = Some e' \<and> me_dev_name e' = dev \<longrightarrow> k \<le> k')"
  proof (cases ?k)
    case None
    then have "\<forall>k e. map_of (tbl_data t) k = Some e \<longrightarrow> me_dev_name e \<noteq> dev"
      using iffD1 [OF std_map.find_key_None [OF inv] None] by simp
    with None show ?thesis by (simp only: option.case)
  next
    case (Some k)
    then show ?thesis using std_map.find_key_least [OF inv] by simp
  qed
  then show ?thesis by (simp add: Mountpoints_Find_dev_run [OF assms])
qed

theorem mount_points_find_dev_witness:
  "table_inv sample_mounts \<and> (\<exists>res. Mountpoints_Find_dev ''/dev/sdb1'' (sample_mounts, Map.empty :: string \<rightharpoonup> string)
     = (Ok res, (sample_mounts, Map.empty)))"
  using mount_points_find_dev [of sample_mounts "''/dev/sdb1''" "Map.empty :: string \<rightharpoonup> string"]
    sample_mounts_inv by (auto simp: mounts_inv_def)

text \<open>
  A table of mount points written to its file is read back unchanged by the constructor of
  the next run, rows and keys. The hypotheses on the outside are that the file keeps what was
  written and that the JSON library reads back what it wrote.
\<close>

theorem mount_points_reload:
  assumes "table_inv t" and "\<And>e. e \<in> snd ` set (tbl_data t) \<Longrightarrow> MountEntry_wf e"
    and "json_io (json_parse io) (json_serialize io) (Table_to_json MountEntry_to_json t)"
    and "file_keeps io p (json_serialize io (Table_to_json MountEntry_to_json t)) w"
  shows "\<exists>t' w'. Mountpoints_construct io (new_table p, w) = (Ok (), (t', w')) \<and>
    tbl_data t' = tbl_data t \<and> table_inv t'"
proof -
  let ?s = "json_serialize io (Table_to_json MountEntry_to_json t)"
  obtain w' where c: "Table_construct io (new_table p :: MountEntry table, w) = (Ok (), ((new_table p)\<lparr>tbl_raw := ?s\<rparr>, w'))"
    using Table_construct_reads [OF assms(4)] by blast
  have "DataFromRawJson io mount_row_ok MountEntry_of_json ((new_table p)\<lparr>tbl_raw := ?s\<rparr>, w') =
      (Ok (), ((new_table p)\<lparr>tbl_raw := ?s, tbl_data := tbl_data t\<rparr>, w'))"
    using assms(1-3) by (subst mount_rows.load_serialized [of t]) (force simp: new_table_def)+
  with c have "Mountpoints_construct io (new_table p, w) =
      (Ok (), ((new_table p)\<lparr>tbl_raw := ?s, tbl_data := tbl_data t\<rparr>, w'))"
    by (simp add: Mountpoints_construct_def Mountpoints_DataFromRawJson_def bindp_def)
  moreover have "table_inv ((new_table p)\<lparr>tbl_raw := ?s, tbl_data := tbl_data t\<rparr>)"
    using assms(1) by (simp add: table_inv_def new_table_def smap_inv_def)
  ultimately show ?thesis by simp
qed

theorem mount_points_reload_witness:
  "\<exists>t' w'. Mountpoints_construct (sample_io (Table_to_json MountEntry_to_json sample_mounts))
     (new_table ''/m'', [''/m'' \<mapsto> ''rows'']) = (Ok (), (t', w')) \<and>
    tbl_data t' = tbl_data sample_mounts \<and> table_inv t'"
proof (rule mount_points_reload)
  show "table_inv sample_mounts" using sample_mounts_inv by (simp add: mounts_inv_def)
  show "MountEntry_wf e" if "e \<in> snd ` set (tbl_data sample_mounts)" for e
    using that by (auto simp: sample_mounts_data MountEntry_wf_def sample_mount_def nul_free_def)
qed (simp_all add: json_io_def sample_io_def file_keeps_def)

end
