(* ===== verification/Dal_Permissions.thy ===== *)
theory Dal_Permissions
  imports Dal_Mount_Points
begin

text \<open>
  \<^verbatim>\<open>daemon/dal/device_permissions.hpp\<close> and \<^verbatim>\<open>device_permissions.cpp\<close>: the table of the
  rules that say who may mount which device, and the storage of both tables
  (\<^verbatim>\<open>local_storage.cpp\<close>). The table is proved to implement an abstract map from keys to
  rules, inside and outside a transaction.
\<close>

type_synonym 'w dpstate = "('w, PermissionEntry) tstate"

section \<open>Operations\<close>

text \<open>
  The check of a row. The last test reads \<^verbatim>\<open>!obj.contains("id") || obj.at("id").is_uint64()\<close>
  in the source: a row is refused when its id \<^emph>\<open>is\<close> an unsigned number.
\<close>

definition permission_row_ok :: "jobject \<Rightarrow> bool" where
  "permission_row_ok obj \<longleftrightarrow> jhas obj ''device'' is_object \<and> jhas obj ''users'' is_array \<and>
     jhas obj ''groups'' is_array \<and> jhas obj ''id'' (\<lambda>j. \<not> is_uint64 j)"

definition DevicePermissions_DataFromRawJson ::
  "('w, 'z) file_io_scheme \<Rightarrow> ('w dpstate, unit) prog" where
  "DevicePermissions_DataFromRawJson io = DataFromRawJson io permission_row_ok PermissionEntry_of_json"

definition DevicePermissions_construct :: "('w, 'z) file_io_scheme \<Rightarrow> ('w dpstate, unit) prog" where
  "DevicePermissions_construct io =
     bindp (Table_construct io) (\<lambda>_. DevicePermissions_DataFromRawJson io)"

definition DevicePermissions_Create ::
  "('w, 'z) file_io_scheme \<Rightarrow> PermissionEntry \<Rightarrow> ('w dpstate, unit) prog" where
  "DevicePermissions_Create io entry =
     bindp (data_guard (upd_data (append_row entry))) (\<lambda>_. commit io PermissionEntry_to_json)"

definition DevicePermissions_Read :: "u64 \<Rightarrow> ('w dpstate, PermissionEntry) prog" where
  "DevicePermissions_Read index = Read index"

definition DevicePermissions_Find :: "Device \<Rightarrow> ('w dpstate, u64 option) prog" where
  "DevicePermissions_Find dev = data_guard (getp (\<lambda>(t, w).
     smap_find_key (\<lambda>entry. Device_eq (pe_device entry) dev) (tbl_data t)))"

definition DevicePermissions_Update ::
  "('w, 'z) file_io_scheme \<Rightarrow> u64 \<Rightarrow> PermissionEntry \<Rightarrow> ('w dpstate, unit) prog" where
  "DevicePermissions_Update io index entry = Update io PermissionEntry_to_json index entry"

definition DevicePermissions_Delete ::
  "('w, 'z) file_io_scheme \<Rightarrow> u64 \<Rightarrow> ('w dpstate, unit) prog" where
  "DevicePermissions_Delete io index = Delete io PermissionEntry_to_json index"

definition DevicePermissions_Clear :: "('w, 'z) file_io_scheme \<Rightarrow> ('w dpstate, unit) prog" where
  "DevicePermissions_Clear io = Clear io PermissionEntry_to_json"

definition DevicePermissions_ProcessTransaction ::
  "('w, 'z) file_io_scheme \<Rightarrow> ('w dpstate, bool) prog" where
  "DevicePermissions_ProcessTransaction io = ProcessTransaction io PermissionEntry_to_json"

text \<open>A copy of the rows as a new \<^verbatim>\<open>std::map\<close>.\<close>

definition DevicePermissions_getAll :: "('w dpstate, (u64, PermissionEntry) smap) prog" where
  "DevicePermissions_getAll = data_guard (getp (\<lambda>(t, w).
     fold (\<lambda>(k, perm). smap_emplace k perm) (tbl_data t) []))"

text \<open>\<^verbatim>\<open>LocalStorage\<close>: the two tables at their paths.\<close>

definition permissions_path :: string where
  "permissions_path = ''/var/lib/alt-usb-mount/permissions.json''"

definition mount_points_path :: string where
  "mount_points_path = ''/var/lib/alt-usb-mount/mount_points.json''"

definition LocalStorage_construct ::
  "('w, 'z) file_io_scheme \<Rightarrow> 'w \<Rightarrow> (PermissionEntry table \<times> MountEntry table) outcome \<times> 'w" where
  "LocalStorage_construct io w =
     (case DevicePermissions_construct io (new_table permissions_path, w) of
        (Fail f, (p, w1)) \<Rightarrow> (Fail f, w1)
      | (Ok _, (p, w1)) \<Rightarrow>
          (case Mountpoints_construct io (new_table mount_points_path, w1) of
             (Fail f, (m, w2)) \<Rightarrow> (Fail f, w2)
           | (Ok _, (m, w2)) \<Rightarrow> (Ok (p, m), w2)))"

section \<open>The rows satisfy the contract of the table\<close>

interpretation permission_rows:
  table_rows PermissionEntry_to_json PermissionEntry_of_json PermissionEntry_wf permission_row_ok
    "\<lambda>k. unat k < 2 ^ 63"
proof unfold_locales
  fix e :: PermissionEntry and rest
  show "PermissionEntry_wf e \<Longrightarrow>
      PermissionEntry_of_json (reparse_object (PermissionEntry_to_json e) @ rest) = Ok e"
    by (rule PermissionEntry_json_back)
  show "''id'' \<notin> fst ` set (PermissionEntry_to_json e)"
    by (simp add: PermissionEntry_to_json_def)
  fix k :: u64
  show "PermissionEntry_wf e \<Longrightarrow> unat k < 2 ^ 63 \<Longrightarrow>
      permission_row_ok (reparse_object (PermissionEntry_to_json e) @ [(''id'', reparse (JUint64 k))])"
    by (simp add: permission_row_ok_def jhas_def PermissionEntry_to_json_def)
  show "\<not> unat k < 2 ^ 63 \<Longrightarrow>
      \<not> permission_row_ok (reparse_object (PermissionEntry_to_json e) @ [(''id'', reparse (JUint64 k))])"
    by (simp add: permission_row_ok_def jhas_def PermissionEntry_to_json_def)
qed

section \<open>The abstract table\<close>

text \<open>The modifying operations, and what each of them promises on a map from keys to rules.\<close>

datatype crud =
    CreateRow PermissionEntry
  | UpdateRow u64 PermissionEntry
  | DeleteRow u64
  | ClearRows

definition spec_next :: "(u64 \<Rightarrow> 'e option) \<Rightarrow> u64" where
  "spec_next m = (if dom m = {} then 0 else Max (dom m) + 1)"

fun crud_spec :: "crud \<Rightarrow> (u64 \<Rightarrow> PermissionEntry option) \<Rightarrow> bool \<times> (u64 \<Rightarrow> PermissionEntry option)" where
  "crud_spec (CreateRow e) m =
     (True, if m (spec_next m) = None then m(spec_next m \<mapsto> e) else m)"
| "crud_spec (UpdateRow k e) m = (m k \<noteq> None, if m k = None then m else m(k \<mapsto> e))"
| "crud_spec (DeleteRow k) m = (True, m(k := None))"
| "crud_spec ClearRows m = (True, Map.empty)"

fun crud_prog :: "('w, 'z) file_io_scheme \<Rightarrow> crud \<Rightarrow> ('w dpstate, unit) prog" where
  "crud_prog io (CreateRow e) = DevicePermissions_Create io e"
| "crud_prog io (UpdateRow k e) = DevicePermissions_Update io k e"
| "crud_prog io (DeleteRow k) = DevicePermissions_Delete io k"
| "crud_prog io ClearRows = DevicePermissions_Clear io"

text \<open>A sequence of operations whose caller catches every exception.\<close>

definition crud_run :: "('w, 'z) file_io_scheme \<Rightarrow> crud list \<Rightarrow> ('w dpstate, unit) prog" where
  "crud_run io = foreach (\<lambda>op. tryp (crud_prog io op) (ret ()))"

lemma next_index_spec: "smap_inv m \<Longrightarrow> next_index m = spec_next (map_of m)"
proof (cases "m = []")
  case False
  assume inv: "smap_inv m"
  have "Max (dom (map_of m)) = fst (last m)"
  proof (rule Max_eqI)
    show "finite (dom (map_of m))" by (rule finite_dom_map_of)
    show "k \<le> fst (last m)" if "k \<in> dom (map_of m)" for k
      using that smap_last_greatest [OF inv] by (simp add: dom_map_of_conv_image_fst)
    show "fst (last m) \<in> dom (map_of m)"
      using False by (simp add: dom_map_of_conv_image_fst)
  qed
  then show ?thesis using False by (simp add: next_index_def spec_next_def dom_map_of_conv_image_fst)
qed (simp add: next_index_def spec_next_def)

lemma map_of_append_row:
  "smap_inv m \<Longrightarrow> map_of (append_row e m) = snd (crud_spec (CreateRow e) (map_of m))"
  by (auto simp: append_row_def next_index_spec map_of_smap_emplace split: option.splits)

text \<open>One operation, as a change of the rows followed by a commit.\<close>

definition crud_rows :: "crud \<Rightarrow> (u64, PermissionEntry) smap \<Rightarrow> (u64, PermissionEntry) smap" where
  "crud_rows op m = (case op of
     CreateRow e \<Rightarrow> append_row e m
   | UpdateRow k e \<Rightarrow> smap_assign k e m
   | DeleteRow k \<Rightarrow> smap_erase k m
   | ClearRows \<Rightarrow> [])"

lemma crud_rows_inv: "smap_inv m \<Longrightarrow> smap_inv (crud_rows op m)"
  by (cases op) (simp_all add: crud_rows_def append_row_inv smap_inv_assign smap_inv_erase,
    simp add: smap_inv_def)

lemma crud_rows_spec: "smap_inv m \<Longrightarrow> map_of (crud_rows op m) = snd (crud_spec op (map_of m))"
  by (cases op) (simp_all add: crud_rows_def map_of_append_row map_of_smap_assign map_of_smap_erase
    del: crud_spec.simps(1))

lemma crud_prog_run:
  assumes "table_inv t"
  shows "crud_prog io op (t, w) =
    (if fst (crud_spec op (map_of (tbl_data t)))
     then commit io PermissionEntry_to_json (t\<lparr>tbl_data := crud_rows op (tbl_data t)\<rparr>, w)
     else (throws Invalid_argument, (t, w)))"
proof (cases op)
  case (CreateRow e)
  then show ?thesis using assms
    by (simp add: DevicePermissions_Create_def crud_rows_def bindp_def)
next
  case (UpdateRow k e)
  then show ?thesis using assms
    by (simp add: DevicePermissions_Update_def Update_run crud_rows_def smap_count_def)
next
  case (DeleteRow k)
  then show ?thesis using assms by (simp add: DevicePermissions_Delete_def Delete_run crud_rows_def)
next
  case ClearRows
  then show ?thesis using assms by (simp add: DevicePermissions_Clear_def Clear_run crud_rows_def)
qed

lemma crud_rows_refused:
  "\<not> fst (crud_spec op m) \<Longrightarrow> snd (crud_spec op m) = m"
  by (cases op) auto

lemma crud_caught_step:
  assumes "table_inv t"
  shows "\<exists>t' w'. tryp (crud_prog io op) (ret ()) (t, w) = (Ok (), (t', w')) \<and> table_inv t' \<and>
    map_of (tbl_data t') = snd (crud_spec op (map_of (tbl_data t))) \<and>
    tbl_started t' = tbl_started t \<and> tbl_path t' = tbl_path t \<and> (tbl_started t \<longrightarrow> w' = w)"
proof (cases "fst (crud_spec op (map_of (tbl_data t)))")
  case True
  let ?t = "t\<lparr>tbl_data := crud_rows op (tbl_data t)\<rparr>"
  have inv: "table_inv ?t" using assms by (simp add: crud_rows_inv table_invD)
  obtain b w' where "fio_write io (tbl_path ?t)
      (json_serialize io (Table_to_json PermissionEntry_to_json ?t)) w = (b, w')" by fastforce
  then have "tryp (crud_prog io op) (ret ()) (t, w) =
      (Ok (), (?t, if tbl_started t then w else w'))"
    using True by (auto simp: tryp_def crud_prog_run [OF assms] commit_run [OF inv])
  then show ?thesis using inv crud_rows_spec [OF table_invD(1) [OF assms]] by auto
next
  case False
  then have "tryp (crud_prog io op) (ret ()) (t, w) = (Ok (), (t, w))"
    by (simp add: tryp_def crud_prog_run [OF assms])
  then show ?thesis using assms crud_rows_refused [OF False] by auto
qed

lemma crud_run_refines:
  assumes "table_inv t"
  shows "\<exists>t' w'. crud_run io ops (t, w) = (Ok (), (t', w')) \<and> table_inv t' \<and>
    map_of (tbl_data t') = fold (\<lambda>op m. snd (crud_spec op m)) ops (map_of (tbl_data t)) \<and>
    tbl_started t' = tbl_started t \<and> tbl_path t' = tbl_path t \<and> (tbl_started t \<longrightarrow> w' = w)"
  using assms
proof (induction ops arbitrary: t w)
  case Nil
  then show ?case by (simp add: crud_run_def)
next
  case (Cons op ops)
  obtain t1 w1 where s: "tryp (crud_prog io op) (ret ()) (t, w) = (Ok (), (t1, w1))" "table_inv t1"
    "map_of (tbl_data t1) = snd (crud_spec op (map_of (tbl_data t)))"
    "tbl_started t1 = tbl_started t" "tbl_path t1 = tbl_path t" "tbl_started t \<longrightarrow> w1 = w"
    using crud_caught_step [OF Cons.prems] by metis
  have "crud_run io (op # ops) (t, w) = crud_run io ops (t1, w1)"
    by (simp add: crud_run_def s(1))
  with Cons.IH [OF s(2), of w1] s(3-6) show ?case by simp
qed

section \<open>Properties\<close>

definition sample_permissions :: "PermissionEntry table" where
  "sample_permissions = (new_table permissions_path)\<lparr>tbl_data := [(3, sample_permission)]\<rparr>"

lemma sample_permissions_inv: "table_inv sample_permissions"
  by (simp add: table_inv_def sample_permissions_def new_table_def smap_inv_def)

text \<open>
  C12: The table of rules implements a map from keys to rules: after any sequence of create,
  update, delete and clear calls whose exceptions the caller catches, the rows are what the
  abstract operations give, whatever the file system answered to the writes in between; inside
  a transaction the file is not touched.
\<close>

theorem permissions_refine_map:
  assumes "table_inv t"
  shows "\<exists>t' w'. crud_run io ops (t, w) = (Ok (), (t', w')) \<and> table_inv t' \<and>
    map_of (tbl_data t') = fold (\<lambda>op m. snd (crud_spec op m)) ops (map_of (tbl_data t)) \<and>
    (tbl_started t \<longrightarrow> w' = w)"
  using crud_run_refines [OF assms, of io ops w] by blast

theorem permissions_refine_map_witness:
  "\<exists>t' w'. crud_run (sample_io JNull) [CreateRow sample_permission, DeleteRow 3]
      (sample_permissions, Map.empty) = (Ok (), (t', w')) \<and> map_of (tbl_data t') 3 = None"
  using permissions_refine_map [OF sample_permissions_inv, of "sample_io JNull"
      "[CreateRow sample_permission, DeleteRow 3]" Map.empty] by fastforce

text \<open>
  C35: A transaction around a sequence of modifying calls writes the file exactly once, at its
  end, with the rows that result; it reports whether that write could be made, and it always
  ends with the locks free. A failed write is not rolled back in memory: the clone that would
  restore the rows is taken after they were changed.
\<close>

theorem permissions_transaction:
  assumes "table_inv t" and "\<not> tbl_started t"
  shows "\<exists>t' w' b. bindp StartTransaction (\<lambda>_. bindp (crud_run io ops) (\<lambda>_.
        DevicePermissions_ProcessTransaction io)) (t, w) = (Ok b, (t', w')) \<and>
    fio_write io (tbl_path t) (json_serialize io (Table_to_json PermissionEntry_to_json t')) w = (b, w') \<and>
    map_of (tbl_data t') = fold (\<lambda>op m. snd (crud_spec op m)) ops (map_of (tbl_data t)) \<and>
    \<not> tbl_started t' \<and> table_inv t'"
proof -
  let ?t = "t\<lparr>tbl_mutex := True, tbl_started := True, tbl_data_lock := True, tbl_file_lock := True\<rparr>"
  have inv: "table_inv ?t" using assms(1) by (simp add: table_inv_def)
  have start: "StartTransaction (t, w) = (Ok (), (?t, w))"
    using assms by (simp add: StartTransaction_run)
  obtain t1 where run: "crud_run io ops (?t, w) = (Ok (), (t1, w))" and i1: "table_inv t1"
    and rows: "map_of (tbl_data t1) = fold (\<lambda>op m. snd (crud_spec op m)) ops (map_of (tbl_data t))"
    and st: "tbl_started t1" and path: "tbl_path t1 = tbl_path t"
    using crud_run_refines [OF inv, of io ops w] by auto
  obtain b w' where wr: "fio_write io (tbl_path t)
      (json_serialize io (Table_to_json PermissionEntry_to_json t1)) w = (b, w')" by fastforce
  let ?t' = "closed (t1\<lparr>tbl_clone := if b then tbl_data t1 else []\<rparr>)"
  have "DevicePermissions_ProcessTransaction io (t1, w) = (Ok b, (?t', w'))"
    by (simp add: DevicePermissions_ProcessTransaction_def ProcessTransaction_run [OF i1 st] path wr)
  with start run have "bindp StartTransaction (\<lambda>_. bindp (crud_run io ops) (\<lambda>_.
        DevicePermissions_ProcessTransaction io)) (t, w) = (Ok b, (?t', w'))"
    by (simp add: bindp_def)
  moreover have "Table_to_json PermissionEntry_to_json ?t' = Table_to_json PermissionEntry_to_json t1"
    "tbl_data ?t' = tbl_data t1" "\<not> tbl_started ?t'"
    by (simp_all add: Table_to_json_def closed_def)
  moreover have "table_inv ?t'"
    using i1 by (auto simp: closed_def table_inv_def smap_inv_def)
  ultimately show ?thesis using wr rows by metis
qed

theorem permissions_transaction_witness:
  "\<exists>t' w' b. bindp StartTransaction (\<lambda>_. bindp (crud_run (sample_io JNull) [ClearRows]) (\<lambda>_.
      DevicePermissions_ProcessTransaction (sample_io JNull))) (sample_permissions, Map.empty)
    = (Ok b, (t', w')) \<and> map_of (tbl_data t') = Map.empty"
  using permissions_transaction [OF sample_permissions_inv, of "sample_io JNull" "[ClearRows]" Map.empty]
  by (fastforce simp: sample_permissions_def new_table_def)

text \<open>
  A table of rules whose keys are below \<open>2 ^ 63\<close> is read back unchanged from its file by
  the constructor of the next run.
\<close>

theorem permissions_reload:
  assumes "table_inv t" and "\<And>e. e \<in> snd ` set (tbl_data t) \<Longrightarrow> PermissionEntry_wf e"
    and "\<And>k. k \<in> fst ` set (tbl_data t) \<Longrightarrow> unat k < 2 ^ 63"
    and "json_io (json_parse io) (json_serialize io) (Table_to_json PermissionEntry_to_json t)"
    and "file_keeps io p (json_serialize io (Table_to_json PermissionEntry_to_json t)) w"
  shows "\<exists>t' w'. DevicePermissions_construct io (new_table p, w) = (Ok (), (t', w')) \<and>
    tbl_data t' = tbl_data t \<and> table_inv t'"
proof -
  let ?s = "json_serialize io (Table_to_json PermissionEntry_to_json t)"
  obtain w' where c: "Table_construct io (new_table p :: PermissionEntry table, w) =
      (Ok (), ((new_table p)\<lparr>tbl_raw := ?s\<rparr>, w'))"
    using Table_construct_reads [OF assms(5)] by blast
  have "DataFromRawJson io permission_row_ok PermissionEntry_of_json ((new_table p)\<lparr>tbl_raw := ?s\<rparr>, w') =
      (Ok (), ((new_table p)\<lparr>tbl_raw := ?s, tbl_data := tbl_data t\<rparr>, w'))"
    using assms(1-4) by (subst permission_rows.load_serialized [of t]) (force simp: new_table_def)+
  with c have "DevicePermissions_construct io (new_table p, w) =
      (Ok (), ((new_table p)\<lparr>tbl_raw := ?s, tbl_data := tbl_data t\<rparr>, w'))"
    by (simp add: DevicePermissions_construct_def DevicePermissions_DataFromRawJson_def bindp_def)
  moreover have "table_inv ((new_table p)\<lparr>tbl_raw := ?s, tbl_data := tbl_data t\<rparr>)"
    using assms(1) by (simp add: table_inv_def new_table_def smap_inv_def)
  ultimately show ?thesis by simp
qed

theorem permissions_reload_witness:
  "\<exists>t' w'. DevicePermissions_construct (sample_io (Table_to_json PermissionEntry_to_json sample_permissions))
     (new_table ''/p'', [''/p'' \<mapsto> ''rows'']) = (Ok (), (t', w')) \<and>
    tbl_data t' = tbl_data sample_permissions \<and> table_inv t'"
proof (rule permissions_reload [OF sample_permissions_inv])
  show "PermissionEntry_wf e" if "e \<in> snd ` set (tbl_data sample_permissions)" for e
    using that by (simp add: sample_permissions_def sample_permission_wf)
  show "unat k < 2 ^ 63" if "k \<in> fst ` set (tbl_data sample_permissions)" for k
    using that by (simp add: sample_permissions_def)
qed (simp_all add: json_io_def sample_io_def file_keeps_def)

text \<open>
  A file with a row whose key needs the 64th bit, which the table itself writes, cannot be
  read again: the check of a row refuses an id that is an unsigned number (the intent is the
  opposite, see \<open>permission_row_ok\<close>), so the constructor throws.
\<close>

theorem permissions_large_key_unreadable:
  assumes "(k, e) \<in> set (tbl_data t)" and "2 ^ 63 \<le> unat k"
    and "\<And>e. e \<in> snd ` set (tbl_data t) \<Longrightarrow> PermissionEntry_wf e"
    and "json_io (json_parse io) (json_serialize io) (Table_to_json PermissionEntry_to_json t)"
    and "file_keeps io p (json_serialize io (Table_to_json PermissionEntry_to_json t)) w"
  shows "fst (DevicePermissions_construct io (new_table p, w)) = throws Runtime_error"
proof -
  let ?s = "json_serialize io (Table_to_json PermissionEntry_to_json t)"
  obtain w' where c: "Table_construct io (new_table p :: PermissionEntry table, w) =
      (Ok (), ((new_table p)\<lparr>tbl_raw := ?s\<rparr>, w'))"
    using Table_construct_reads [OF assms(5)] by blast
  have "DataFromRawJson io permission_row_ok PermissionEntry_of_json ((new_table p)\<lparr>tbl_raw := ?s\<rparr>, w') =
      (throws Runtime_error, ((new_table p)\<lparr>tbl_raw := ?s\<rparr>, w'))"
  proof (rule permission_rows.load_serialized_refused [OF assms(1)])
    show "\<not> unat k < 2 ^ 63" using assms(2) by simp
    show "PermissionEntry_wf e" if "(k, e) \<in> set (tbl_data t)" for k e
      using assms(3) that by force
    show "json_io (json_parse io) (json_serialize io) (Table_to_json PermissionEntry_to_json t)"
      by (rule assms(4))
  qed simp
  with c show ?thesis
    by (simp add: DevicePermissions_construct_def DevicePermissions_DataFromRawJson_def bindp_def)
qed

definition top_permissions :: "PermissionEntry table" where
  "top_permissions = (new_table permissions_path)\<lparr>tbl_data := [(- 1, sample_permission)]\<rparr>"

theorem permissions_large_key_unreadable_witness:
  "fst (DevicePermissions_construct (sample_io (Table_to_json PermissionEntry_to_json top_permissions))
     (new_table ''/p'', [''/p'' \<mapsto> ''rows''])) = throws Runtime_error"
proof (rule permissions_large_key_unreadable)
  show "(- 1, sample_permission) \<in> set (tbl_data top_permissions)"
    by (simp add: top_permissions_def)
  show "2 ^ 63 \<le> unat (- 1 :: u64)" by (simp add: unsigned_minus_1_eq_mask mask_eq_exp_minus_1)
  show "PermissionEntry_wf e" if "e \<in> snd ` set (tbl_data top_permissions)" for e
    using that by (simp add: top_permissions_def sample_permission_wf)
qed (simp_all add: json_io_def sample_io_def file_keeps_def)

end
