(* ===== verification/Daemon_State.thy ===== *)
theory Daemon_State
  imports Dal_Permissions
begin

text \<open>
  What the daemon runs on: the operating system as the record \<open>os\<close> of the calls the sources
  make (an argument of every operation, so that a property holds for every answer the system
  may give), the state of the process (both tables and the world outside), and a trace of the
  system calls that change something, in which the properties about safety are stated.
\<close>

section \<open>The operating system\<close>

text \<open>
  A udev device as \<^verbatim>\<open>libudev\<close> shows it: properties, system attributes, the device node,
  and the closest parent in the subsystem \<^verbatim>\<open>usb\<close>.
\<close>

datatype udev_device = UdevDevice
  (udev_props: "(string \<times> string) list")
  (udev_sysattrs: "(string \<times> string) list")
  (udev_devnode: "string option")
  (udev_usb_parent: "udev_device option")

definition udev_property :: "udev_device \<Rightarrow> string \<Rightarrow> string option" where
  "udev_property d k = map_of (udev_props d) k"

definition udev_sysattr :: "udev_device \<Rightarrow> string \<Rightarrow> string option" where
  "udev_sysattr d k = map_of (udev_sysattrs d) k"

text \<open>One line of \<^verbatim>\<open>/etc/mtab\<close>.\<close>

record mntent =
  mnt_fsname :: string
  mnt_dir :: string
  mnt_type :: string

text \<open>
  Calls of \<^verbatim>\<open>std::filesystem\<close> may throw and are programs; calls of the C library give
  their result. \<open>os_mtab\<close> is \<^verbatim>\<open>setmntent\<close> and all answers of \<^verbatim>\<open>getmntent_r\<close>
  (\<open>None\<close>: the file could not be opened). \<open>os_udev_scan\<close> is the list of an enumeration of the
  block devices on the USB bus (\<open>None\<close>: it could not be made; an entry without a name is
  \<open>None\<close>).
\<close>

record 'w os = "'w file_io" +
  os_is_directory :: "string \<Rightarrow> ('w, bool) prog"
  os_is_empty :: "string \<Rightarrow> ('w, bool) prog"
  os_list_dir :: "string \<Rightarrow> ('w, string list) prog"
  os_remove :: "string \<Rightarrow> ('w, bool) prog"
  os_create_directory :: "string \<Rightarrow> ('w, bool) prog"
  os_chmod :: "string \<Rightarrow> nat \<Rightarrow> 'w \<Rightarrow> bool \<times> 'w"
  os_chown :: "string \<Rightarrow> u32 \<Rightarrow> u32 \<Rightarrow> 'w \<Rightarrow> bool \<times> 'w"
  os_getpwuid :: "u32 \<Rightarrow> 'w \<Rightarrow> string option \<times> 'w"
  os_getgrgid :: "u32 \<Rightarrow> 'w \<Rightarrow> string option \<times> 'w"
  os_mtab :: "'w \<Rightarrow> mntent list option \<times> 'w"
  os_mount :: "string \<Rightarrow> string \<Rightarrow> string \<Rightarrow> u64 \<Rightarrow> string \<Rightarrow> 'w \<Rightarrow> int \<times> 'w"
  os_umount2 :: "string \<Rightarrow> 'w \<Rightarrow> int \<times> 'w"
  os_udev_scan :: "'w \<Rightarrow> string option list option \<times> 'w"
  os_udev_from_syspath :: "string \<Rightarrow> 'w \<Rightarrow> udev_device option \<times> 'w"
  os_udev_receive :: "'w \<Rightarrow> udev_device option \<times> 'w"

section \<open>The process\<close>

datatype sysevent =
    EvMount string string string u64 string int   \<comment> \<open>device, target, type, flags, data, result\<close>
  | EvUmount string int
  | EvMkdir string
  | EvRemove string
  | EvChmod string nat
  | EvChown string u32 u32
  | EvSetAcl string u32 u32

fun is_mount :: "sysevent \<Rightarrow> bool" where
  "is_mount (EvMount d t fs fl data r) \<longleftrightarrow> True"
| "is_mount _ \<longleftrightarrow> False"

text \<open>The trace has the latest event first.\<close>

record 'w daemon =
  st_world :: 'w
  st_perms :: "PermissionEntry table"
  st_mounts :: "MountEntry table"
  st_trace :: "sysevent list"

type_synonym ('w, 'a) dprog = "('w daemon, 'a) prog"

definition on_world :: "('w, 'a) prog \<Rightarrow> ('w, 'a) dprog" where
  "on_world m = (\<lambda>s. case m (st_world s) of (r, w) \<Rightarrow> (r, s\<lparr>st_world := w\<rparr>))"

definition os_call :: "('w \<Rightarrow> 'a \<times> 'w) \<Rightarrow> ('w, 'a) dprog" where
  "os_call f = on_world (\<lambda>w. case f w of (a, w') \<Rightarrow> (Ok a, w'))"

definition on_perms :: "(('w, PermissionEntry) tstate, 'a) prog \<Rightarrow> ('w, 'a) dprog" where
  "on_perms m = (\<lambda>s. case m (st_perms s, st_world s) of
     (r, (t, w)) \<Rightarrow> (r, s\<lparr>st_perms := t, st_world := w\<rparr>))"

definition on_mounts :: "(('w, MountEntry) tstate, 'a) prog \<Rightarrow> ('w, 'a) dprog" where
  "on_mounts m = (\<lambda>s. case m (st_mounts s, st_world s) of
     (r, (t, w)) \<Rightarrow> (r, s\<lparr>st_mounts := t, st_world := w\<rparr>))"

definition emit :: "sysevent \<Rightarrow> ('w, unit) dprog" where
  "emit ev = modp (\<lambda>s. s\<lparr>st_trace := ev # st_trace s\<rparr>)"

definition initial :: "'w \<Rightarrow> PermissionEntry table \<Rightarrow> MountEntry table \<Rightarrow> 'w daemon" where
  "initial w p m = \<lparr>st_world = w, st_perms = p, st_mounts = m, st_trace = []\<rparr>"

section \<open>Facts\<close>

lemma on_world_run: "on_world m s = (fst (m (st_world s)), s\<lparr>st_world := snd (m (st_world s))\<rparr>)"
  by (simp add: on_world_def split_beta)

lemma os_call_run:
  "os_call f s = (Ok (fst (f (st_world s))), s\<lparr>st_world := snd (f (st_world s))\<rparr>)"
  by (simp add: os_call_def on_world_def split_beta)

lemma bindp_os_call [simp]:
  "bindp (os_call f) k s = k (fst (f (st_world s))) (s\<lparr>st_world := snd (f (st_world s))\<rparr>)"
  by (simp add: bindp_def os_call_run)

lemma emit_run [simp]: "emit ev s = (Ok (), s\<lparr>st_trace := ev # st_trace s\<rparr>)"
  by (simp add: emit_def)

lemma bindp_emit [simp]: "bindp (emit ev) k s = k () (s\<lparr>st_trace := ev # st_trace s\<rparr>)"
  by (simp add: bindp_def)

text \<open>
  A fact about every event of the trace is kept by every program that emits no event, or only
  events with the fact; the tables are changed only by programs on them.
\<close>

definition trace_all :: "(sysevent \<Rightarrow> bool) \<Rightarrow> 'w daemon \<Rightarrow> bool" where
  "trace_all Q s \<longleftrightarrow> (\<forall>ev \<in> set (st_trace s). Q ev)"

lemma trace_all_on_world [keeps_rules]: "keeps (trace_all Q) (on_world m)"
  and trace_all_os_call [keeps_rules]: "keeps (trace_all Q) (os_call f)"
  and trace_all_on_perms [keeps_rules]: "keeps (trace_all Q) (on_perms m1)"
  and trace_all_on_mounts [keeps_rules]: "keeps (trace_all Q) (on_mounts m2)"
  by (simp_all add: keeps_def trace_all_def on_world_run os_call_run on_perms_def on_mounts_def split_beta)

lemma trace_all_emit [keeps_rules]: "Q ev \<Longrightarrow> keeps (trace_all Q) (emit ev)"
  by (simp add: keeps_def trace_all_def)

definition perms_are :: "PermissionEntry table \<Rightarrow> 'w daemon \<Rightarrow> bool" where
  "perms_are t s \<longleftrightarrow> st_perms s = t"

definition mounts_are :: "MountEntry table \<Rightarrow> 'w daemon \<Rightarrow> bool" where
  "mounts_are t s \<longleftrightarrow> st_mounts s = t"

lemma perms_are_on_world [keeps_rules]: "keeps (perms_are t) (on_world m)"
  and perms_are_os_call [keeps_rules]: "keeps (perms_are t) (os_call f)"
  and perms_are_emit [keeps_rules]: "keeps (perms_are t) (emit ev)"
  and perms_are_on_mounts [keeps_rules]: "keeps (perms_are t) (on_mounts m')"
  by (simp_all add: keeps_def perms_are_def on_world_run os_call_run on_mounts_def split_beta)

lemma mounts_are_on_world [keeps_rules]: "keeps (mounts_are t) (on_world m)"
  and mounts_are_os_call [keeps_rules]: "keeps (mounts_are t) (os_call f)"
  and mounts_are_emit [keeps_rules]: "keeps (mounts_are t) (emit ev)"
  and mounts_are_on_perms [keeps_rules]: "keeps (mounts_are t) (on_perms m')"
  by (simp_all add: keeps_def mounts_are_def on_world_run os_call_run on_perms_def split_beta)

text \<open>Both tables are consistent.\<close>

definition daemon_inv :: "'w daemon \<Rightarrow> bool" where
  "daemon_inv s \<longleftrightarrow> table_inv (st_perms s) \<and> mounts_inv (st_mounts s)"

lemma daemon_inv_on_world [keeps_rules]: "keeps daemon_inv (on_world m)"
  and daemon_inv_os_call [keeps_rules]: "keeps daemon_inv (os_call f)"
  and daemon_inv_emit [keeps_rules]: "keeps daemon_inv (emit ev)"
  by (simp_all add: keeps_def daemon_inv_def on_world_run os_call_run)

lemma daemon_inv_on_mounts:
  "(\<And>t w. mounts_inv t \<Longrightarrow> mounts_inv (fst (snd (m (t, w))))) \<Longrightarrow> keeps daemon_inv (on_mounts m)"
  by (simp add: keeps_def daemon_inv_def on_mounts_def split_beta)

lemma daemon_inv_on_perms:
  "(\<And>t w. table_inv t \<Longrightarrow> table_inv (fst (snd (m (t, w))))) \<Longrightarrow> keeps daemon_inv (on_perms m)"
  by (simp add: keeps_def daemon_inv_def on_perms_def split_beta)

lemma mounts_inv_table: "mounts_inv t \<Longrightarrow> table_inv t"
  by (simp add: mounts_inv_def)

lemma daemon_inv_mount_ops [keeps_rules]:
  "keeps daemon_inv (on_mounts (Mountpoints_Create io e))"
  "keeps daemon_inv (on_mounts (Mountpoints_RemoveExpired io vs))"
  "keeps daemon_inv (on_mounts (Mountpoints_Delete io k))"
  "keeps daemon_inv (on_mounts (Mountpoints_Find_entry e))"
  "keeps daemon_inv (on_mounts (Mountpoints_Find_dev d))"
  "keeps daemon_inv (on_mounts Mountpoints_GetAll)"
  by (rule daemon_inv_on_mounts, simp add: mounts_inv_ops mounts_inv_table Mountpoints_Find_entry_run
      Mountpoints_Find_dev_run Mountpoints_GetAll_run)+

lemma daemon_inv_perm_reads [keeps_rules]:
  "keeps daemon_inv (on_perms (DevicePermissions_Find d))"
  "keeps daemon_inv (on_perms (DevicePermissions_Read k))"
  by (rule daemon_inv_on_perms, simp add: DevicePermissions_Find_def DevicePermissions_Read_def
      Read_run split_beta)+

lemma on_mounts_ok:
  "m (st_mounts s, st_world s) = (r, (t, w)) \<Longrightarrow>
   on_mounts m s = (r, s\<lparr>st_mounts := t, st_world := w\<rparr>)"
  by (simp add: on_mounts_def)

lemma on_perms_ok:
  "m (st_perms s, st_world s) = (r, (t, w)) \<Longrightarrow>
   on_perms m s = (r, s\<lparr>st_perms := t, st_world := w\<rparr>)"
  by (simp add: on_perms_def)

lemma on_mounts_pure:
  "m (st_mounts s, st_world s) = (r, (st_mounts s, st_world s)) \<Longrightarrow> on_mounts m s = (r, s)"
  by (simp add: on_mounts_def)

lemma on_perms_pure:
  "m (st_perms s, st_world s) = (r, (st_perms s, st_world s)) \<Longrightarrow> on_perms m s = (r, s)"
  by (simp add: on_perms_def)

section \<open>A sample system\<close>

text \<open>A small system for the concrete runs: files, directories, a mount table and devices.\<close>

record sample_world =
  sw_files :: disk
  sw_dirs :: "string list"
  sw_mtab :: "mntent list option"
  sw_devs :: "(string \<times> udev_device) list"

definition sample_os :: "json \<Rightarrow> sample_world os" where
  "sample_os j = \<lparr>
     fio_exists = \<lambda>p w. (Ok (sw_files w p \<noteq> None \<or> p \<in> set (sw_dirs w)), w),
     fio_create_directories = \<lambda>p w. (Ok (), w\<lparr>sw_dirs := p # sw_dirs w\<rparr>),
     fio_write = \<lambda>p s w. (True, w\<lparr>sw_files := (sw_files w)(p \<mapsto> s)\<rparr>),
     fio_read = \<lambda>p w. (sw_files w p, w),
     json_parse = \<lambda>s. if s = ''rows'' then Some (reparse j) else None,
     json_serialize = \<lambda>v. if v = j then ''rows'' else ''other'',
     os_is_directory = \<lambda>p w. (Ok (p \<in> set (sw_dirs w)), w),
     os_is_empty = \<lambda>p w. (Ok (\<not> list_ex (\<lambda>d. starts_with d (p @ ''/'')) (sw_dirs w)), w),
     os_list_dir = \<lambda>p w. (Ok (filter (\<lambda>d. starts_with d p \<and> d \<noteq> p) (sw_dirs w)), w),
     os_remove = \<lambda>p w. (Ok True, w\<lparr>sw_dirs := filter (\<lambda>d. d \<noteq> p) (sw_dirs w)\<rparr>),
     os_create_directory = \<lambda>p w. (Ok True, w\<lparr>sw_dirs := p # sw_dirs w\<rparr>),
     os_chmod = \<lambda>p m w. (True, w),
     os_chown = \<lambda>p u g w. (True, w),
     os_getpwuid = \<lambda>u w. (if u = 1000 then Some ''test'' else None, w),
     os_getgrgid = \<lambda>g w. (if g = 1001 then Some ''usb'' else None, w),
     os_mtab = \<lambda>w. (sw_mtab w, w),
     os_mount = \<lambda>d t fs fl data w. (0, w\<lparr>sw_mtab := map_option
       (\<lambda>es. \<lparr>mnt_fsname = d, mnt_dir = t, mnt_type = fs\<rparr> # es) (sw_mtab w)\<rparr>),
     os_umount2 = \<lambda>t w. (0, w\<lparr>sw_mtab := map_option (filter (\<lambda>e. mnt_dir e \<noteq> t)) (sw_mtab w)\<rparr>),
     os_udev_scan = \<lambda>w. (Some (map (\<lambda>(p, d). Some p) (sw_devs w)), w),
     os_udev_from_syspath = \<lambda>p w. (map_of (sw_devs w) p, w),
     os_udev_receive = \<lambda>w. (None, w)\<rparr>"

lemma sample_os_simps [simp]:
  "fio_exists (sample_os j) = (\<lambda>p w. (Ok (sw_files w p \<noteq> None \<or> p \<in> set (sw_dirs w)), w))"
  "fio_create_directories (sample_os j) = (\<lambda>p w. (Ok (), w\<lparr>sw_dirs := p # sw_dirs w\<rparr>))"
  "fio_write (sample_os j) = (\<lambda>p s w. (True, w\<lparr>sw_files := (sw_files w)(p \<mapsto> s)\<rparr>))"
  "fio_read (sample_os j) = (\<lambda>p w. (sw_files w p, w))"
  "json_parse (sample_os j) = (\<lambda>s. if s = ''rows'' then Some (reparse j) else None)"
  "json_serialize (sample_os j) = (\<lambda>v. if v = j then ''rows'' else ''other'')"
  "os_is_directory (sample_os j) = (\<lambda>p w. (Ok (p \<in> set (sw_dirs w)), w))"
  "os_is_empty (sample_os j) = (\<lambda>p w. (Ok (\<not> list_ex (\<lambda>d. starts_with d (p @ ''/'')) (sw_dirs w)), w))"
  "os_list_dir (sample_os j) = (\<lambda>p w. (Ok (filter (\<lambda>d. starts_with d p \<and> d \<noteq> p) (sw_dirs w)), w))"
  "os_remove (sample_os j) = (\<lambda>p w. (Ok True, w\<lparr>sw_dirs := filter (\<lambda>d. d \<noteq> p) (sw_dirs w)\<rparr>))"
  "os_create_directory (sample_os j) = (\<lambda>p w. (Ok True, w\<lparr>sw_dirs := p # sw_dirs w\<rparr>))"
  "os_chmod (sample_os j) = (\<lambda>p m w. (True, w))"
  "os_chown (sample_os j) = (\<lambda>p u g w. (True, w))"
  "os_getpwuid (sample_os j) = (\<lambda>u w. (if u = 1000 then Some ''test'' else None, w))"
  "os_getgrgid (sample_os j) = (\<lambda>g w. (if g = 1001 then Some ''usb'' else None, w))"
  "os_mtab (sample_os j) = (\<lambda>w. (sw_mtab w, w))"
  "os_mount (sample_os j) = (\<lambda>d t fs fl data w. (0, w\<lparr>sw_mtab := map_option (\<lambda>es. \<lparr>mnt_fsname = d, mnt_dir = t, mnt_type = fs\<rparr> # es) (sw_mtab w)\<rparr>))"
  "os_umount2 (sample_os j) = (\<lambda>t w. (0, w\<lparr>sw_mtab := map_option (filter (\<lambda>e. mnt_dir e \<noteq> t)) (sw_mtab w)\<rparr>))"
  "os_udev_scan (sample_os j) = (\<lambda>w. (Some (map (\<lambda>(p, d). Some p) (sw_devs w)), w))"
  "os_udev_from_syspath (sample_os j) = (\<lambda>p w. (map_of (sw_devs w) p, w))"
  "os_udev_receive (sample_os j) = (\<lambda>w. (None, w))"
  by (simp_all add: sample_os_def)

definition empty_world :: sample_world where
  "empty_world = \<lparr>sw_files = Map.empty, sw_dirs = [], sw_mtab = None, sw_devs = []\<rparr>"

definition sample_daemon :: "sample_world \<Rightarrow> sample_world daemon" where
  "sample_daemon w = initial w sample_permissions sample_mounts"

lemma sample_daemon_inv [simp]: "daemon_inv (sample_daemon w)"
  by (simp add: daemon_inv_def sample_daemon_def initial_def sample_permissions_inv sample_mounts_inv)

lemma sample_daemon_simps [simp]:
  "st_world (sample_daemon w) = w" "st_perms (sample_daemon w) = sample_permissions"
  "st_mounts (sample_daemon w) = sample_mounts" "st_trace (sample_daemon w) = []"
  by (simp_all add: sample_daemon_def initial_def)

end
