(* ===== verification/Daemon_Utils.thy ===== *)
theory Daemon_Utils
  imports Daemon_State
begin

text \<open>
  \<^verbatim>\<open>daemon/utils.hpp\<close> and \<^verbatim>\<open>utils.cpp\<close>, apart from the ACL helpers: validation of
  strings, the limits of \<^verbatim>\<open>/etc/login.defs\<close>, the users and groups of people, the mount
  table of the system and the review of the daemon's own mount points. Logging is left out.
\<close>

section \<open>Strings\<close>

definition StrToUint :: "string \<Rightarrow> u64 outcome" where
  "StrToUint str =
     (if str \<noteq> [] \<and> hd str = CHR ''-'' then throws Invalid_argument
      else obind (stoul str) (\<lambda>(res, pos).
        if pos \<noteq> length str then throws Invalid_argument else Ok res))"

definition ValidVid :: "string \<Rightarrow> bool outcome" where
  "ValidVid str =
     (if length str \<noteq> 4 then Ok False
      else if str ! 0 = CHR ''-'' then Ok False
      else obind (stoi 16 str) (\<lambda>(val, pos).
        if pos \<noteq> length str then Ok False
        else if val < 0 \<or> 0xFFFF < val then Ok False
        else Ok True))"

fun SanitizeMount :: "string \<Rightarrow> string" where
  "SanitizeMount [] = []"
| "SanitizeMount (symbol # str) =
     (if symbol = CHR 0x5C \<or> symbol = CHR ''/'' \<or> symbol = CHR 0x27 \<or> symbol = CHR 0x22
      then CHR ''_'' # SanitizeMount str else symbol # SanitizeMount str)"

section \<open>Users and groups\<close>

text \<open>Opening an existing file for reading; every failure gives \<open>None\<close>.\<close>

definition open_lines :: "('w, 'z) file_io_scheme \<Rightarrow> string \<Rightarrow> ('w, string list option) prog" where
  "open_lines io fname =
     bindp (tryp (fio_exists io fname) (ret False)) (\<lambda>found.
       if \<not> found then ret None
       else (\<lambda>w. case fio_read io fname w of (r, w') \<Rightarrow> (Ok (map_option getlines r), w')))"

record IdMinMax =
  uid_min :: u32
  uid_max :: u32
  gid_min :: u32
  gid_max :: u32

definition set_limit :: "string list \<Rightarrow> IdMinMax \<Rightarrow> IdMinMax outcome" where
  "set_limit tokens ids =
     (if 1 < length tokens then
        let v = StrToUint (tokens ! 1) in
        if tokens ! 0 = ''UID_MIN'' then obind v (\<lambda>n. Ok (ids\<lparr>uid_min := ucast n\<rparr>))
        else if tokens ! 0 = ''UID_MAX'' then obind v (\<lambda>n. Ok (ids\<lparr>uid_max := ucast n\<rparr>))
        else if tokens ! 0 = ''GID_MIN'' then obind v (\<lambda>n. Ok (ids\<lparr>gid_min := ucast n\<rparr>))
        else if tokens ! 0 = ''GID_MAX'' then obind v (\<lambda>n. Ok (ids\<lparr>gid_max := ucast n\<rparr>))
        else Ok ids
      else Ok ids)"

definition limits_set :: "IdMinMax \<Rightarrow> bool" where
  "limits_set ids \<longleftrightarrow> 0 < uid_min ids \<and> 0 < uid_max ids \<and> 0 < gid_min ids \<and> 0 < gid_max ids"

fun login_defs_loop :: "string list \<Rightarrow> IdMinMax \<Rightarrow> IdMinMax option outcome" where
  "login_defs_loop [] ids = Ok None"
| "login_defs_loop (l # ls) ids =
     (let line = trim l in
      if line = [] \<or> starts_with line ''#'' then login_defs_loop ls ids
      else obind (set_limit (split_space line) ids) (\<lambda>ids'.
        if limits_set ids' then Ok (Some ids') else login_defs_loop ls ids'))"

definition no_limits :: IdMinMax where
  "no_limits = \<lparr>uid_min = 0, uid_max = 0, gid_min = 0, gid_max = 0\<rparr>"

definition GetSystemUidMinMax :: "('w, 'z) file_io_scheme \<Rightarrow> ('w, IdMinMax option) prog" where
  "GetSystemUidMinMax io =
     bindp (open_lines io ''/etc/login.defs'') (\<lambda>ls. case ls of
       None \<Rightarrow> ret None
     | Some ls \<Rightarrow> tryp (liftO (login_defs_loop ls no_limits)) (ret None))"

definition shell_lines :: "string list \<Rightarrow> string list" where
  "shell_lines ls = filter (\<lambda>l. l \<noteq> []) (map trim ls)"

definition GetPossibleShells :: "('w, 'z) file_io_scheme \<Rightarrow> ('w, string list) prog" where
  "GetPossibleShells io =
     bindp (open_lines io ''/etc/shells'') (\<lambda>ls. case ls of
       None \<Rightarrow> ret [] | Some ls \<Rightarrow> ret (shell_lines ls))"

text \<open>The loop over \<^verbatim>\<open>/etc/passwd\<close>: a line that cannot be read is skipped.\<close>

definition passwd_user :: "IdMinMax \<Rightarrow> string list \<Rightarrow> string \<Rightarrow> User option" where
  "passwd_user ids shells line =
     (let tokens = split_char (CHR '':'') line in
      if length tokens = 7 \<and> tokens ! 0 \<noteq> [] \<and> tokens ! 6 \<in> set shells then
        (case obind (StrToUint (tokens ! 2)) (\<lambda>u. obind (StrToUint (tokens ! 3)) (\<lambda>g.
             let uid = ucast u :: u32; gid = ucast g :: u32 in
             if uid_min ids \<le> uid \<and> uid \<le> uid_max ids \<and> gid_min ids \<le> gid \<and> gid \<le> gid_max ids
             then obind (User_of uid (tokens ! 0)) (\<lambda>usr. Ok (Some usr)) else Ok None)) of
           Ok r \<Rightarrow> r | Fail _ \<Rightarrow> None)
      else None)"

definition GetHumanUsers ::
  "('w, 'z) file_io_scheme \<Rightarrow> IdMinMax \<Rightarrow> ('w, User list) prog" where
  "GetHumanUsers io ids =
     bindp (GetPossibleShells io) (\<lambda>shells.
     bindp (open_lines io ''/etc/passwd'') (\<lambda>ls. case ls of
       None \<Rightarrow> ret []
     | Some ls \<Rightarrow> ret (List.map_filter (passwd_user ids shells) ls)))"

text \<open>The group file; the limits compared here are those of the users, as in the source.\<close>

definition group_entry :: "IdMinMax \<Rightarrow> string \<Rightarrow> Group option" where
  "group_entry ids line =
     (let tokens = split_char (CHR '':'') line in
      if 3 \<le> length tokens \<and> tokens ! 0 \<noteq> [] then
        (case obind (StrToUint (tokens ! 2)) (\<lambda>u.
             let uid = ucast u :: u32 in
             if uid_min ids \<le> uid \<and> uid \<le> uid_max ids
             then obind (Group_of uid (tokens ! 0)) (\<lambda>g. Ok (Some g)) else Ok None) of
           Ok r \<Rightarrow> r | Fail _ \<Rightarrow> None)
      else None)"

definition GetHumanGroups ::
  "('w, 'z) file_io_scheme \<Rightarrow> IdMinMax \<Rightarrow> ('w, Group list) prog" where
  "GetHumanGroups io ids =
     bindp (open_lines io ''/etc/group'') (\<lambda>ls. case ls of
       None \<Rightarrow> ret []
     | Some ls \<Rightarrow> ret (List.map_filter (group_entry ids) ls))"

section \<open>Mount points of the system\<close>

definition mount_root :: string where
  "mount_root = ''/media/alt-usb-mount/''"

definition GetSystemMountPoints :: "'w os \<Rightarrow> ('w, string list) dprog" where
  "GetSystemMountPoints os = bindp (os_call (os_mtab os)) (\<lambda>entries. case entries of
     None \<Rightarrow> ret []
   | Some es \<Rightarrow> ret (filter (\<lambda>d. contains d mount_root) (map mnt_dir es)))"

definition GetSystemMountedDevices :: "'w os \<Rightarrow> ('w, string list) dprog" where
  "GetSystemMountedDevices os = bindp (os_call (os_mtab os)) (\<lambda>entries. case entries of
     None \<Rightarrow> ret []
   | Some es \<Rightarrow> ret (map mnt_fsname es))"

text \<open>The two nested loops over directories; an iterator is read whole before its loop.\<close>

definition review_sub :: "'w os \<Rightarrow> string list \<Rightarrow> string \<Rightarrow> ('w, unit) dprog" where
  "review_sub os mtab sub =
     bindp (on_world (os_is_directory os sub)) (\<lambda>d.
       if \<not> d then ret ()
       else bindp (on_world (os_is_empty os sub)) (\<lambda>e.
         if e \<and> sub \<notin> set mtab
         then bindp (emit (EvRemove sub)) (\<lambda>_. bindp (on_world (os_remove os sub)) (\<lambda>_. ret ()))
         else ret ()))"

definition review_folder :: "'w os \<Rightarrow> string list \<Rightarrow> string \<Rightarrow> ('w, unit) dprog" where
  "review_folder os mtab entry =
     bindp (on_world (os_is_directory os entry)) (\<lambda>d.
       if \<not> d then ret ()
       else bindp (on_world (os_is_empty os entry)) (\<lambda>e.
         if e then ret ()
         else bindp (on_world (os_list_dir os entry)) (\<lambda>subs.
           foreach (review_sub os mtab) subs)))"

definition ReviewMountPoints :: "'w os \<Rightarrow> ('w, bool) dprog" where
  "ReviewMountPoints os = noexceptp
     (bindp (GetSystemMountPoints os) (\<lambda>mtab.
      bindp (on_mounts (Mountpoints_RemoveExpired os mtab)) (\<lambda>_.
      bindp (tryp
        (bindp (on_world (fio_exists os mount_root)) (\<lambda>found.
           if found then
             bindp (on_world (os_list_dir os mount_root)) (\<lambda>entries.
               foreach (review_folder os mtab) entries)
           else on_world (fio_create_directories os mount_root)))
        (ret ())) (\<lambda>_.
      ret True))))"

section \<open>Facts about the strings\<close>

lemma scan_int_parts:
  assumes "list_all is_space w" and "sg = ''-'' \<or> sg = ''+'' \<or> sg = []"
    and "ds \<noteq> []" and "list_all (is_digit 10) ds"
  shows "scan_int 10 (w @ sg @ ds) =
    Some (sg = ''-'', digits_value 10 ds, length (w @ sg @ ds))"
proof -
  obtain d ds' where ds: "ds = d # ds'" using assms(3) by (cases ds) auto
  have d: "is_digit 10 d" using assms(4) ds by simp
  obtain c r where c: "sg @ ds = c # r" "\<not> is_space c"
    using assms(2) ds not_space_digit [OF d] by (auto simp: is_space_def)
  then have w: "takeWhile is_space (w @ sg @ ds) = w" "dropWhile is_space (w @ sg @ ds) = sg @ ds"
    using assms(1) by (simp_all add: list_all_iff takeWhile_append2 dropWhile_append2)
  have sgn: "skip_sign (sg @ ds) = (sg = ''-'', ds, length sg)"
    using assms(2) ds digit_not_sign [OF d] by (auto simp: skip_sign_def)
  have digits: "takeWhile (is_digit 10) ds = ds"
    using assms(4) by (simp add: list_all_iff takeWhile_all)
  show ?thesis
    using assms(3) by (simp add: scan_int_def w sgn skip_0x_def Let_def add.assoc digits)
qed

lemma scan_int_whole:
  assumes "scan_int 10 s = Some (neg, m, length s)"
  obtains w sg ds where "s = w @ sg @ ds" "list_all is_space w" "ds \<noteq> []"
    "list_all (is_digit 10) ds" "m = digits_value 10 ds"
    "if neg then sg = ''-'' else sg = [] \<or> sg = ''+''"
proof -
  let ?w = "takeWhile is_space s" and ?r = "dropWhile is_space s"
  obtain neg' s1 p1 where sk: "skip_sign ?r = (neg', s1, p1)" by (cases "skip_sign ?r") auto
  let ?ds = "takeWhile (is_digit 10) s1"
  have eq: "neg = neg'" "?ds \<noteq> []" "m = digits_value 10 ?ds" "length s = length ?w + p1 + length ?ds"
    using assms by (auto simp: scan_int_def sk skip_0x_def Let_def split: if_splits)
  obtain sg where sg: "?r = sg @ s1" "p1 = length sg" "if neg then sg = ''-'' else sg = [] \<or> sg = ''+''"
    using sk eq(1) by (cases ?r) (auto simp: skip_sign_def split: if_splits)
  have "length s = length ?w + length sg + length s1"
    using sg(1) by (metis add.assoc length_append takeWhile_dropWhile_id)
  with eq(4) sg(2) have "length ?ds = length s1" by simp
  then have "?ds = s1" by (metis append_eq_conv_conj takeWhile_eq_take take_all_iff order_refl)
  then have "s = ?w @ sg @ ?ds" using sg(1) by (metis takeWhile_dropWhile_id)
  moreover have "list_all is_space ?w" "list_all (is_digit 10) ?ds"
    by (auto simp: list_all_iff dest: set_takeWhileD)
  ultimately show thesis using that eq(2,3) sg(3) by blast
qed

lemma SanitizeMount_map:
  "SanitizeMount s = map (\<lambda>c. if c \<in> {CHR 0x5C, CHR ''/'', CHR 0x27, CHR 0x22} then CHR ''_'' else c) s"
  by (induction s) auto

lemma ValidVid_stoi: "ValidVid v = Ok True \<Longrightarrow> \<exists>n. stoi 16 v = Ok (n, length v)"
  by (auto simp: ValidVid_def obind_eq_Ok split: if_splits)

section \<open>Properties of the strings\<close>

text \<open>
  \<^verbatim>\<open>StrToUint\<close> accepts exactly: white space, an optional sign, one or more decimal digits
  with a value below \<open>2 ^ 64\<close>, nothing after them, and no minus sign as the very first
  character. A minus sign that white space hides is accepted, and gives the negated number
  modulo \<open>2 ^ 64\<close>.
\<close>

theorem str_to_uint_accepts:
  "StrToUint str = Ok n \<longleftrightarrow>
    (\<exists>w sg ds. str = w @ sg @ ds \<and> list_all is_space w \<and> ds \<noteq> [] \<and> list_all (is_digit 10) ds \<and>
       digits_value 10 ds < 2 ^ 64 \<and>
       ((sg = [] \<or> sg = ''+'') \<and> n = word_of_nat (digits_value 10 ds) \<or>
        sg = ''-'' \<and> w \<noteq> [] \<and> n = - word_of_nat (digits_value 10 ds)))"
  (is "?l \<longleftrightarrow> ?r")
proof
  assume ?l
  then obtain neg m where sc: "scan_int 10 str = Some (neg, m, length str)" "m < 2 ^ 64"
    "n = (if neg then - word_of_nat m else word_of_nat m)" and hd: "str = [] \<or> hd str \<noteq> CHR ''-''"
    by (auto simp: StrToUint_def stoul_def obind_eq_Ok not_le split: if_splits option.splits)
  obtain w sg ds where p: "str = w @ sg @ ds" "list_all is_space w" "ds \<noteq> []"
    "list_all (is_digit 10) ds" "m = digits_value 10 ds"
    "if neg then sg = ''-'' else sg = [] \<or> sg = ''+''"
    using scan_int_whole [OF sc(1)] by metis
  have "neg \<Longrightarrow> w \<noteq> []" using hd p(1,6) by auto
  then show ?r
    using p sc by (intro exI [of _ w] exI [of _ sg] exI [of _ ds]) (cases neg, auto)
next
  assume ?r
  then obtain w sg ds where p: "str = w @ sg @ ds" "list_all is_space w" "ds \<noteq> []"
    "list_all (is_digit 10) ds" "digits_value 10 ds < 2 ^ 64"
    "(sg = [] \<or> sg = ''+'') \<and> n = word_of_nat (digits_value 10 ds) \<or>
        sg = ''-'' \<and> w \<noteq> [] \<and> n = - word_of_nat (digits_value 10 ds)" by blast
  have "hd str \<noteq> CHR ''-''"
  proof (cases w)
    case Nil
    then show ?thesis using p digit_not_sign [of 10 "hd ds"] by (cases ds) auto
  next
    case (Cons c w')
    then show ?thesis using p(1,2) by (auto simp: is_space_def)
  qed
  moreover have "scan_int 10 str = Some (sg = ''-'', digits_value 10 ds, length str)"
    using scan_int_parts [of w sg ds] p by auto
  ultimately show ?l using p(5,6) by (auto simp: StrToUint_def stoul_def not_le)
qed

text \<open>
  Printing any 64-bit number in decimal and reading it with \<^verbatim>\<open>StrToUint\<close> gives the
  number back; this is how the ids of rules travel to the user interface and back.
\<close>

theorem str_to_uint_roundtrip: "StrToUint (to_string (n :: u64)) = Ok n"
proof -
  have "hd (nat_to_string (unat n)) \<noteq> CHR ''-''"
    using digit_not_sign [OF nat_to_string_digits [OF hd_in_set [OF nat_to_string_nonempty]]] by blast
  moreover have "unat n < 2 ^ 64" using unsigned_less [of n, where 'a = nat] by simp
  ultimately show ?thesis
    by (simp add: StrToUint_def to_string_def stoul_nat_to_string)
qed

text \<open>
  Two identifiers that \<^verbatim>\<open>ValidVid\<close> accepts always make a device: the constructor of
  \<^verbatim>\<open>dal::Device\<close>, which throws on other strings, succeeds for them with any serial number.
\<close>

theorem valid_vid_makes_device:
  assumes "ValidVid v = Ok True" and "ValidVid p = Ok True"
  shows "Device_of_params v p sn = Ok \<lparr>dev_vid = v, dev_pid = p, dev_serial = sn\<rparr>"
  using ValidVid_stoi [OF assms(1)] ValidVid_stoi [OF assms(2)]
  by (auto simp: Device_of_params_def)

theorem valid_vid_makes_device_witness:
  "Device_of_params ''346d'' ''5678'' ''41'' =
     Ok \<lparr>dev_vid = ''346d'', dev_pid = ''5678'', dev_serial = ''41''\<rparr>"
  by (rule valid_vid_makes_device)
    (simp_all add: ValidVid_def stoi_def scan_int_def is_space_def skip_sign_def skip_0x_def
      is_digit_def digit_value_def digits_value_def)

text \<open>
  \<^verbatim>\<open>SanitizeMount\<close> keeps the length, leaves no slash, backslash or quote, changes nothing
  exactly when there was none, and sanitizing again changes nothing.
\<close>

theorem sanitize_mount_safe:
  "length (SanitizeMount s) = length s \<and>
   set (SanitizeMount s) \<inter> {CHR 0x5C, CHR ''/'', CHR 0x27, CHR 0x22} = {} \<and>
   (SanitizeMount s = s \<longleftrightarrow> set s \<inter> {CHR 0x5C, CHR ''/'', CHR 0x27, CHR 0x22} = {}) \<and>
   SanitizeMount (SanitizeMount s) = SanitizeMount s"
proof -
  have "SanitizeMount s = s \<longleftrightarrow> set s \<inter> {CHR 0x5C, CHR ''/'', CHR 0x27, CHR 0x22} = {}"
    by (induction s) auto
  then show ?thesis by (auto simp: SanitizeMount_map)
qed

section \<open>Printed account files\<close>

text \<open>
  The account databases as they are documented: one line per record, fields separated by
  colons. Reading is compared with printing them.
\<close>

record passwd =
  pw_name :: string
  pw_passwd :: string
  pw_uid :: u32
  pw_gid :: u32
  pw_gecos :: string
  pw_dir :: string
  pw_shell :: string

record group_line =
  gr_name :: string
  gr_passwd :: string
  gr_gid :: u32
  gr_members :: string

definition field_ok :: "string \<Rightarrow> bool" where
  "field_ok f \<longleftrightarrow> CHR '':'' \<notin> set f \<and> CHR 0x0A \<notin> set f"

fun join_fields :: "string list \<Rightarrow> string" where
  "join_fields [] = []"
| "join_fields [f] = f"
| "join_fields (f # fs) = f @ '':'' @ join_fields fs"

definition passwd_fields :: "passwd \<Rightarrow> string list" where
  "passwd_fields p = [pw_name p, pw_passwd p, to_string (pw_uid p), to_string (pw_gid p), pw_gecos p,
     pw_dir p, pw_shell p]"

definition passwd_ok :: "passwd \<Rightarrow> bool" where
  "passwd_ok p \<longleftrightarrow> pw_name p \<noteq> [] \<and> list_all field_ok
     [pw_name p, pw_passwd p, pw_gecos p, pw_dir p, pw_shell p]"

definition group_fields :: "group_line \<Rightarrow> string list" where
  "group_fields g = [gr_name g, gr_passwd g, to_string (gr_gid g), gr_members g]"

definition group_line_ok :: "group_line \<Rightarrow> bool" where
  "group_line_ok g \<longleftrightarrow> gr_name g \<noteq> [] \<and> list_all field_ok [gr_name g, gr_passwd g, gr_members g]"

lemma split_join_fields:
  "list_all field_ok fs \<Longrightarrow> fs \<noteq> [] \<Longrightarrow> split_char (CHR '':'') (join_fields fs) = fs"
  by (induction fs rule: join_fields.induct)
    (auto simp: field_ok_def split_char_single split_char_append)

lemma join_fields_newline:
  "list_all field_ok fs \<Longrightarrow> CHR 0x0A \<notin> set (join_fields fs)"
  by (induction fs rule: join_fields.induct) (auto simp: field_ok_def)

lemma field_ok_to_string [simp]: "field_ok (to_string (w :: 'a::len word))"
  using nat_to_string_digits [of "CHR '':''" "unat w"] nat_to_string_digits [of "CHR 0x0A" "unat w"]
  by (auto simp: field_ok_def to_string_def is_digit_def digit_value_def)

lemma StrToUint_to_string_u32 [simp]: "StrToUint (to_string (w :: u32)) = Ok (ucast w)"
proof -
  have "hd (nat_to_string (unat w)) \<noteq> CHR ''-''"
    using digit_not_sign [OF nat_to_string_digits [OF hd_in_set [OF nat_to_string_nonempty]]] by blast
  moreover have "unat w < 2 ^ 64"
    using unsigned_less [of w, where 'a = nat] by simp
  ultimately show ?thesis
    by (simp add: StrToUint_def to_string_def stoul_nat_to_string)
qed

lemma map_filter_map: "List.map_filter f (map g xs) = List.map_filter (\<lambda>x. f (g x)) xs"
  by (induction xs) (simp_all add: List.map_filter_simps split: option.splits)

lemma map_filter_eq: "(\<And>x. x \<in> set xs \<Longrightarrow> f x = (if P x then Some (g x) else None)) \<Longrightarrow>
    List.map_filter f xs = map g (filter P xs)"
  by (induction xs) (simp_all add: List.map_filter_simps)

definition human :: "IdMinMax \<Rightarrow> string list \<Rightarrow> passwd \<Rightarrow> bool" where
  "human ids shells p \<longleftrightarrow> pw_shell p \<in> set shells \<and> uid_min ids \<le> pw_uid p \<and> pw_uid p \<le> uid_max ids \<and>
     gid_min ids \<le> pw_gid p \<and> pw_gid p \<le> gid_max ids"

lemma passwd_fields_ok: "passwd_ok p \<Longrightarrow> list_all field_ok (passwd_fields p)"
  by (simp add: passwd_ok_def passwd_fields_def)

lemma group_fields_ok: "group_line_ok g \<Longrightarrow> list_all field_ok (group_fields g)"
  by (simp add: group_line_ok_def group_fields_def)

lemma passwd_user_printed:
  assumes "passwd_ok p"
  shows "passwd_user ids shells (join_fields (passwd_fields p)) =
    (if human ids shells p then Some \<lparr>user_uid = pw_uid p, user_name = pw_name p\<rparr> else None)"
proof -
  have "split_char (CHR '':'') (join_fields (passwd_fields p)) = passwd_fields p"
    using passwd_fields_ok [OF assms] by (rule split_join_fields) (simp add: passwd_fields_def)
  then show ?thesis
    using assms
    by (simp add: passwd_user_def passwd_ok_def passwd_fields_def human_def User_of_def Let_def)
qed

lemma group_entry_printed:
  assumes "group_line_ok g"
  shows "group_entry ids (join_fields (group_fields g)) =
    (if uid_min ids \<le> gr_gid g \<and> gr_gid g \<le> uid_max ids
     then Some \<lparr>group_gid = gr_gid g, group_name = gr_name g\<rparr> else None)"
proof -
  have "split_char (CHR '':'') (join_fields (group_fields g)) = group_fields g"
    using group_fields_ok [OF assms] by (rule split_join_fields) (simp add: group_fields_def)
  then show ?thesis
    using assms by (simp add: group_entry_def group_line_ok_def group_fields_def Group_of_def Let_def)
qed

lemma open_lines_run:
  assumes "fio_exists io fname w = (Ok True, w1)" and "fio_read io fname w1 = (Some txt, w2)"
  shows "open_lines io fname w = (Ok (Some (getlines txt)), w2)"
  using assms by (simp add: open_lines_def bindp_def tryp_def)

section \<open>Properties of the account files\<close>

text \<open>
  Reading a well-formed \<^verbatim>\<open>/etc/passwd\<close> gives exactly the users whose shell is one of
  the possible shells and whose user and group id lie within the limits, in file order, each
  with its own id and name.
\<close>

theorem human_users_exact:
  assumes "GetPossibleShells io w = (Ok shells, w1)"
    and "fio_exists io ''/etc/passwd'' w1 = (Ok True, w2)"
    and "fio_read io ''/etc/passwd'' w2 =
      (Some (print_lines (map (\<lambda>p. join_fields (passwd_fields p)) ps)), w3)"
    and "list_all passwd_ok ps"
  shows "GetHumanUsers io ids w =
    (Ok (map (\<lambda>p. \<lparr>user_uid = pw_uid p, user_name = pw_name p\<rparr>) (filter (human ids shells) ps)), w3)"
proof -
  have nl: "list_all (\<lambda>l. CHR 0x0A \<notin> set l) (map (\<lambda>p. join_fields (passwd_fields p)) ps)"
    using assms(4) join_fields_newline [OF passwd_fields_ok] by (simp add: list_all_iff)
  have "List.map_filter (passwd_user ids shells) (map (\<lambda>p. join_fields (passwd_fields p)) ps) =
      map (\<lambda>p. \<lparr>user_uid = pw_uid p, user_name = pw_name p\<rparr>) (filter (human ids shells) ps)"
    using assms(4) unfolding map_filter_map
    by (intro map_filter_eq) (simp add: list_all_iff passwd_user_printed)
  with assms(1) open_lines_run [OF assms(2,3)] getlines_print_lines [OF nl] show ?thesis
    by (simp add: GetHumanUsers_def bindp_def)
qed

text \<open>
  Reading a well-formed \<^verbatim>\<open>/etc/group\<close> gives the groups whose id lies between the
  minimal and maximal \<^emph>\<open>user\<close> id: the limits for groups are not looked at.
\<close>

theorem human_groups_use_user_limits:
  assumes "fio_exists io ''/etc/group'' w = (Ok True, w1)"
    and "fio_read io ''/etc/group'' w1 =
      (Some (print_lines (map (\<lambda>g. join_fields (group_fields g)) gs)), w2)"
    and "list_all group_line_ok gs"
  shows "GetHumanGroups io ids w =
    (Ok (map (\<lambda>g. \<lparr>group_gid = gr_gid g, group_name = gr_name g\<rparr>)
       (filter (\<lambda>g. uid_min ids \<le> gr_gid g \<and> gr_gid g \<le> uid_max ids) gs)), w2)"
proof -
  have nl: "list_all (\<lambda>l. CHR 0x0A \<notin> set l) (map (\<lambda>g. join_fields (group_fields g)) gs)"
    using assms(3) join_fields_newline [OF group_fields_ok] by (simp add: list_all_iff)
  have "List.map_filter (group_entry ids) (map (\<lambda>g. join_fields (group_fields g)) gs) =
      map (\<lambda>g. \<lparr>group_gid = gr_gid g, group_name = gr_name g\<rparr>)
       (filter (\<lambda>g. uid_min ids \<le> gr_gid g \<and> gr_gid g \<le> uid_max ids) gs)"
    using assms(3) unfolding map_filter_map
    by (intro map_filter_eq) (simp add: list_all_iff group_entry_printed)
  with open_lines_run [OF assms(1,2)] getlines_print_lines [OF nl] show ?thesis
    by (simp add: GetHumanGroups_def bindp_def)
qed

text \<open>Sample accounts, in a file system that holds only them.\<close>

definition sample_passwd :: "passwd list" where
  "sample_passwd = [\<lparr>pw_name = ''test'', pw_passwd = ''x'', pw_uid = 1000, pw_gid = 1000, pw_gecos = [],
     pw_dir = ''/home/test'', pw_shell = ''/bin/bash''\<rparr>,
    \<lparr>pw_name = ''bin'', pw_passwd = ''x'', pw_uid = 1, pw_gid = 1, pw_gecos = [], pw_dir = ''/'',
     pw_shell = ''/dev/null''\<rparr>]"

definition sample_groups :: "group_line list" where
  "sample_groups = [\<lparr>gr_name = ''usb'', gr_passwd = ''x'', gr_gid = 1001, gr_members = ''test''\<rparr>,
    \<lparr>gr_name = ''nogroup'', gr_passwd = ''x'', gr_gid = 65534, gr_members = []\<rparr>]"

definition sample_accounts :: disk where
  "sample_accounts = [''/etc/shells'' \<mapsto> print_lines [''/bin/bash''],
     ''/etc/passwd'' \<mapsto> print_lines (map (\<lambda>p. join_fields (passwd_fields p)) sample_passwd),
     ''/etc/group'' \<mapsto> print_lines (map (\<lambda>g. join_fields (group_fields g)) sample_groups)]"

definition sample_limits :: IdMinMax where
  "sample_limits = \<lparr>uid_min = 500, uid_max = 60000, gid_min = 500, gid_max = 70000\<rparr>"

lemma sample_account_files:
  "fio_exists (sample_io JNull) ''/etc/shells'' sample_accounts = (Ok True, sample_accounts)"
  "fio_exists (sample_io JNull) ''/etc/passwd'' sample_accounts = (Ok True, sample_accounts)"
  "fio_exists (sample_io JNull) ''/etc/group'' sample_accounts = (Ok True, sample_accounts)"
  "fio_read (sample_io JNull) ''/etc/shells'' sample_accounts =
     (Some (print_lines [''/bin/bash'']), sample_accounts)"
  "fio_read (sample_io JNull) ''/etc/passwd'' sample_accounts =
     (Some (print_lines (map (\<lambda>p. join_fields (passwd_fields p)) sample_passwd)), sample_accounts)"
  "fio_read (sample_io JNull) ''/etc/group'' sample_accounts =
     (Some (print_lines (map (\<lambda>g. join_fields (group_fields g)) sample_groups)), sample_accounts)"
  by (simp_all add: sample_io_def sample_accounts_def)

lemma sample_accounts_ok: "list_all passwd_ok sample_passwd" "list_all group_line_ok sample_groups"
  by (simp_all add: sample_passwd_def passwd_ok_def field_ok_def sample_groups_def group_line_ok_def)

lemma sample_shells:
  "GetPossibleShells (sample_io JNull) sample_accounts = (Ok [''/bin/bash''], sample_accounts)"
proof -
  have "getlines (print_lines [''/bin/bash'']) = [''/bin/bash'']"
    by (rule getlines_print_lines) simp
  then have "shell_lines (getlines (print_lines [''/bin/bash''])) = [''/bin/bash'']"
    by (simp add: shell_lines_def trim_id is_space_def)
  with open_lines_run [OF sample_account_files(1,4)] show ?thesis
    by (simp add: GetPossibleShells_def bindp_def)
qed

theorem human_users_exact_witness:
  "GetHumanUsers (sample_io JNull) sample_limits sample_accounts =
     (Ok [\<lparr>user_uid = 1000, user_name = ''test''\<rparr>], sample_accounts)"
proof -
  have "GetHumanUsers (sample_io JNull) sample_limits sample_accounts =
    (Ok (map (\<lambda>p. \<lparr>user_uid = pw_uid p, user_name = pw_name p\<rparr>)
      (filter (human sample_limits [''/bin/bash'']) sample_passwd)), sample_accounts)"
    by (rule human_users_exact [OF sample_shells sample_account_files(2,5) sample_accounts_ok(1)])
  then show ?thesis by (simp add: sample_passwd_def human_def sample_limits_def)
qed

theorem human_groups_use_user_limits_witness:
  "GetHumanGroups (sample_io JNull) sample_limits sample_accounts =
     (Ok [\<lparr>group_gid = 1001, group_name = ''usb''\<rparr>], sample_accounts)"
proof -
  have "GetHumanGroups (sample_io JNull) sample_limits sample_accounts =
    (Ok (map (\<lambda>g. \<lparr>group_gid = gr_gid g, group_name = gr_name g\<rparr>)
      (filter (\<lambda>g. uid_min sample_limits \<le> gr_gid g \<and> gr_gid g \<le> uid_max sample_limits) sample_groups)),
     sample_accounts)"
    by (rule human_groups_use_user_limits [OF sample_account_files(3,6) sample_accounts_ok(2)])
  then show ?thesis by (simp add: sample_groups_def sample_limits_def)
qed

text \<open>Where a limit of \<^verbatim>\<open>/etc/login.defs\<close> comes from.\<close>

definition limit_line :: "string \<Rightarrow> u32 \<Rightarrow> string \<Rightarrow> bool" where
  "limit_line key v l \<longleftrightarrow> (\<exists>val rest n. split_space (trim l) = key # val # rest \<and>
     StrToUint val = Ok n \<and> v = ucast n)"

definition limit_from :: "string \<Rightarrow> string list \<Rightarrow> u32 \<Rightarrow> u32 \<Rightarrow> bool" where
  "limit_from key ls old new \<longleftrightarrow> new = old \<or> list_ex (limit_line key new) ls"

definition limits_from :: "string list \<Rightarrow> IdMinMax \<Rightarrow> IdMinMax \<Rightarrow> bool" where
  "limits_from ls old new \<longleftrightarrow>
     limit_from ''UID_MIN'' ls (uid_min old) (uid_min new) \<and>
     limit_from ''UID_MAX'' ls (uid_max old) (uid_max new) \<and>
     limit_from ''GID_MIN'' ls (gid_min old) (gid_min new) \<and>
     limit_from ''GID_MAX'' ls (gid_max old) (gid_max new)"

lemma limit_from_refl [simp]: "limit_from key ls a a"
  by (simp add: limit_from_def)

lemma limit_from_line: "limit_line key b l \<Longrightarrow> limit_from key [l] a b"
  by (simp add: limit_from_def)

lemma limit_from_trans: "limit_from key [l] a b \<Longrightarrow> limit_from key ls b c \<Longrightarrow> limit_from key (l # ls) a c"
  by (auto simp: limit_from_def)

lemma limit_from_weaken: "limit_from key ls a b \<Longrightarrow> limit_from key (l # ls) a b"
  by (auto simp: limit_from_def)

lemma set_limit_from:
  "set_limit (split_space (trim l)) ids = Ok ids' \<Longrightarrow> limits_from [l] ids ids'"
proof -
  assume a: "set_limit (split_space (trim l)) ids = Ok ids'"
  show ?thesis
  proof (cases "split_space (trim l)")
    case (Cons key r)
    show ?thesis
    proof (cases r)
      case (Cons val rest)
      note tokens = \<open>split_space (trim l) = key # r\<close> Cons
      have line: "limit_line key (ucast n) l" if "StrToUint val = Ok n" for n
        using that tokens by (simp add: limit_line_def)
      show ?thesis
      proof (cases "StrToUint val")
        case (Ok n)
        have "limits_from [l] ids ids'"
          if "(if key = ''UID_MIN'' then ids\<lparr>uid_min := ucast n\<rparr>
             else if key = ''UID_MAX'' then ids\<lparr>uid_max := ucast n\<rparr>
             else if key = ''GID_MIN'' then ids\<lparr>gid_min := ucast n\<rparr>
             else if key = ''GID_MAX'' then ids\<lparr>gid_max := ucast n\<rparr> else ids) = ids'"
          using that line [OF Ok]
          by (auto simp: limits_from_def limit_from_line split: if_splits)
        then show ?thesis
          using a tokens Ok by (simp add: set_limit_def Let_def split: if_splits)
      next
        case (Fail f)
        with a tokens show ?thesis
          by (simp add: set_limit_def Let_def limits_from_def split: if_splits)
      qed
    qed (use a Cons in \<open>simp add: set_limit_def limits_from_def\<close>)
  qed (use a in \<open>simp add: set_limit_def limits_from_def\<close>)
qed

lemma limits_from_trans:
  "limits_from [l] a b \<Longrightarrow> limits_from ls b c \<Longrightarrow> limits_from (l # ls) a c"
  unfolding limits_from_def by (blast intro: limit_from_trans)

lemma limits_from_weaken: "limits_from ls a b \<Longrightarrow> limits_from (l # ls) a b"
  unfolding limits_from_def by (blast intro: limit_from_weaken)

lemma login_defs_loop_from:
  "login_defs_loop ls ids = Ok (Some r) \<Longrightarrow> limits_set r \<and> limits_from ls ids r"
proof (induction ls ids rule: login_defs_loop.induct)
  case (2 l ls ids)
  show ?case
  proof (cases "trim l = [] \<or> starts_with (trim l) ''#''")
    case True
    with 2 show ?thesis by (auto simp: Let_def intro: limits_from_weaken)
  next
    case False
    with "2.prems" obtain ids' where s: "set_limit (split_space (trim l)) ids = Ok ids'"
      and r: "(if limits_set ids' then Ok (Some ids') else login_defs_loop ls ids') = Ok (Some r)"
      by (auto simp: Let_def obind_eq_Ok)
    show ?thesis
    proof (cases "limits_set ids'")
      case True
      with r have "r = ids'" by simp
      moreover have "limits_from ls ids' ids'" by (simp add: limits_from_def)
      ultimately show ?thesis using True limits_from_trans [OF set_limit_from [OF s]] by blast
    next
      case 3: False
      with r have "login_defs_loop ls ids' = Ok (Some r)" by simp
      with "2.IH"(2) [OF refl False 3] set_limit_from [OF s] show ?thesis
        by (blast intro: limits_from_trans)
    qed
  qed
qed simp

lemma StrToUint_throws: "StrToUint str = Fail f \<Longrightarrow> \<exists>e. f = Exc e"
  using stoul_failure [of str f] by (cases "stoul str") (auto simp: StrToUint_def split: if_splits)

lemma set_limit_throws: "set_limit ts ids = Fail f \<Longrightarrow> \<exists>e. f = Exc e"
  using StrToUint_throws [of "ts ! 1" f]
  by (cases "StrToUint (ts ! 1)") (simp_all add: set_limit_def Let_def split: if_splits)

lemma login_defs_loop_throws: "login_defs_loop ls ids = Fail f \<Longrightarrow> \<exists>e. f = Exc e"
proof (induction ls ids rule: login_defs_loop.induct)
  case (2 l ls ids)
  show ?case
  proof (cases "set_limit (split_space (trim l)) ids")
    case (Ok ids')
    with 2 show ?thesis by (auto simp: Let_def split: if_splits)
  next
    case (Fail g)
    with 2 set_limit_throws [OF Fail] show ?thesis by (auto simp: Let_def split: if_splits)
  qed
qed simp

text \<open>
  The limits that \<^verbatim>\<open>GetSystemUidMinMax\<close> returns are all positive, and each of them is
  the number on a line of \<^verbatim>\<open>/etc/login.defs\<close> that starts with its key; when the file is
  missing, unreadable, ill-formed or incomplete there is no result, and never an exception.
\<close>

theorem system_limits_sound:
  assumes "fio_exists io ''/etc/login.defs'' w = (Ok True, w1)"
    and "fio_read io ''/etc/login.defs'' w1 = (Some txt, w2)"
  shows "\<exists>res. GetSystemUidMinMax io w = (Ok res, w2) \<and>
    (case res of None \<Rightarrow> True
     | Some ids \<Rightarrow> limits_set ids \<and>
         list_ex (limit_line ''UID_MIN'' (uid_min ids)) (getlines txt) \<and>
         list_ex (limit_line ''UID_MAX'' (uid_max ids)) (getlines txt) \<and>
         list_ex (limit_line ''GID_MIN'' (gid_min ids)) (getlines txt) \<and>
         list_ex (limit_line ''GID_MAX'' (gid_max ids)) (getlines txt))"
proof -
  let ?r = "login_defs_loop (getlines txt) no_limits"
  have run: "GetSystemUidMinMax io w = tryp (liftO ?r) (ret None) w2"
    using open_lines_run [OF assms] by (simp add: GetSystemUidMinMax_def bindp_def)
  show ?thesis
  proof (cases ?r)
    case (Ok res)
    then show ?thesis
      using login_defs_loop_from [of "getlines txt" no_limits]
      by (cases res) (auto simp: run tryp_def limits_from_def limit_from_def limits_set_def no_limits_def)
  next
    case (Fail f)
    with login_defs_loop_throws obtain e where "f = Exc e" by blast
    with Fail show ?thesis by (simp add: run tryp_def)
  qed
qed

theorem system_limits_sound_witness:
  "\<exists>res. GetSystemUidMinMax (sample_io JNull)
     [''/etc/login.defs'' \<mapsto> print_lines [''UID_MIN 500'', ''# none'']]
   = (Ok res, [''/etc/login.defs'' \<mapsto> print_lines [''UID_MIN 500'', ''# none'']])"
  using system_limits_sound [of "sample_io JNull"
      "[''/etc/login.defs'' \<mapsto> print_lines [''UID_MIN 500'', ''# none'']]"]
  by (fastforce simp: sample_io_def)

section \<open>Properties of the review\<close>

lemma review_sub_trace:
  "keeps (trace_all (\<lambda>ev. \<exists>d. ev = EvRemove d \<and> d \<notin> set mtab)) (review_sub os mtab sub)"
proof (cases "sub \<in> set mtab")
  case True
  then show ?thesis unfolding review_sub_def by (auto intro!: keeps_rules)
next
  case False
  then show ?thesis unfolding review_sub_def by (intro keeps_rules) auto
qed

lemma review_folder_trace:
  "keeps (trace_all (\<lambda>ev. \<exists>d. ev = EvRemove d \<and> d \<notin> set mtab)) (review_folder os mtab entry)"
  unfolding review_folder_def by (intro keeps_rules review_sub_trace)

lemma review_folder_mounts: "keeps (mounts_are t) (review_folder os mtab entry)"
  unfolding review_folder_def review_sub_def by (intro keeps_rules)

text \<open>The mount points the system lists below the daemon's root (none when the list cannot be
  read).\<close>

definition listed_dirs :: "mntent list option \<Rightarrow> string list" where
  "listed_dirs es = (case es of None \<Rightarrow> []
     | Some es \<Rightarrow> filter (\<lambda>d. contains d mount_root) (map mnt_dir es))"

lemma GetSystemMountPoints_run:
  "GetSystemMountPoints os s =
     (Ok (listed_dirs (fst (os_mtab os (st_world s)))), s\<lparr>st_world := snd (os_mtab os (st_world s))\<rparr>)"
  by (simp add: GetSystemMountPoints_def listed_dirs_def split: option.splits)

text \<open>The second half of the review, after the table.\<close>

definition review_rest :: "'w os \<Rightarrow> string list \<Rightarrow> ('w, bool) dprog" where
  "review_rest os mtab =
     bindp (tryp
        (bindp (on_world (fio_exists os mount_root)) (\<lambda>found.
           if found then
             bindp (on_world (os_list_dir os mount_root)) (\<lambda>entries.
               foreach (review_folder os mtab) entries)
           else on_world (fio_create_directories os mount_root)))
        (ret ())) (\<lambda>_.
      ret True)"

lemma review_rest_keeps:
  "keeps (trace_all (\<lambda>ev. \<exists>d. ev = EvRemove d \<and> d \<notin> set mtab)) (review_rest os mtab)"
  "keeps (mounts_are t) (review_rest os mtab)"
  unfolding review_rest_def by (intro keeps_rules review_folder_trace review_folder_mounts)+

lemma ReviewMountPoints_split:
  "ReviewMountPoints os = noexceptp (bindp (GetSystemMountPoints os) (\<lambda>mtab.
     bindp (on_mounts (Mountpoints_RemoveExpired os mtab)) (\<lambda>_. review_rest os mtab)))"
  by (simp add: ReviewMountPoints_def review_rest_def)

lemma snd_noexceptp: "snd (noexceptp m s) = snd (m s)"
  by (auto simp: noexceptp_def split: prod.splits outcome.splits failure.splits)



end
