(* ===== verification/Udev_Device.thy ===== *)
theory Udev_Device
  imports Daemon_Utils
begin

text \<open>
  \<^verbatim>\<open>daemon/usb_udev_device.hpp\<close> and \<^verbatim>\<open>usb_udev_device.cpp\<close>: what the daemon knows of
  a block device, read from udev either directly or by the name of its device node, with the
  search for a serial number among the parents. The search by name retries an entry that udev
  cannot open, so it is a partial function that may not end.
\<close>

datatype Action = KRemove | KAdd | KChange | KNoAction | KUndefined

record UsbUdevDevice =
  ud_action :: Action
  ud_subsystem :: string
  ud_block_name :: string
  ud_id_bus :: string
  ud_fs_label :: string
  ud_fs_uid :: string
  ud_filesystem :: string
  ud_dev_type :: string
  ud_partition :: int
  ud_vid :: string
  ud_pid :: string
  ud_serial :: string

definition blank_device :: UsbUdevDevice where
  "blank_device = \<lparr>ud_action = KUndefined, ud_subsystem = [], ud_block_name = [], ud_id_bus = [],
     ud_fs_label = [], ud_fs_uid = [], ud_filesystem = [], ud_dev_type = [], ud_partition = 0,
     ud_vid = [], ud_pid = [], ud_serial = []\<rparr>"

section \<open>Operations\<close>

definition SetAction :: "string option \<Rightarrow> UsbUdevDevice \<Rightarrow> UsbUdevDevice" where
  "SetAction p_action d =
     (case p_action of
        None \<Rightarrow> d
      | Some tmp \<Rightarrow> d\<lparr>ud_action :=
          (if tmp = ''add'' then KAdd
           else if tmp = ''remove'' then KRemove
           else if tmp = ''change'' then KChange
           else KNoAction)\<rparr>)"

text \<open>The loop over the parents: at most \<open>n\<close> more steps.\<close>

fun serial_loop :: "nat \<Rightarrow> udev_device \<Rightarrow> string \<Rightarrow> string" where
  "serial_loop 0 dev serial = serial"
| "serial_loop (Suc n) dev serial =
     (if serial \<noteq> [] then serial
      else case udev_usb_parent dev of
        None \<Rightarrow> serial
      | Some parent \<Rightarrow>
          serial_loop n parent
            (case udev_sysattr parent ''serial'' of None \<Rightarrow> serial | Some s \<Rightarrow> s))"

definition FindSerial :: "udev_device \<Rightarrow> UsbUdevDevice \<Rightarrow> UsbUdevDevice" where
  "FindSerial dev d =
     (case udev_property dev ''ID_SERIAL_SHORT'' of
        Some s \<Rightarrow> d\<lparr>ud_serial := s\<rparr>
      | None \<Rightarrow>
          (case udev_sysattr dev ''serial'' of
             Some s \<Rightarrow> d\<lparr>ud_serial := s\<rparr>
           | None \<Rightarrow> d\<lparr>ud_serial := serial_loop 3 dev (ud_serial d)\<rparr>))"

text \<open>\<^verbatim>\<open>if (p != nullptr) field = p;\<close>\<close>

definition from_property ::
  "udev_device \<Rightarrow> string \<Rightarrow> (string \<Rightarrow> UsbUdevDevice \<Rightarrow> UsbUdevDevice) \<Rightarrow> UsbUdevDevice \<Rightarrow> UsbUdevDevice"
where
  "from_property dev key upd d =
     (case udev_property dev key of None \<Rightarrow> d | Some v \<Rightarrow> upd v d)"

text \<open>The second half of \<^verbatim>\<open>getUdevDeviceInfo\<close>, after the three checks.\<close>

definition read_details :: "udev_device \<Rightarrow> UsbUdevDevice \<Rightarrow> UsbUdevDevice outcome" where
  "read_details dev d3 =
     (let d4 = from_property dev ''ID_FS_LABEL'' (\<lambda>v d. d\<lparr>ud_fs_label := v\<rparr>) d3;
          d5 = from_property dev ''ID_FS_UUID'' (\<lambda>v d. d\<lparr>ud_fs_uid := v\<rparr>) d4;
          d6 = from_property dev ''ID_FS_TYPE'' (\<lambda>v d. d\<lparr>ud_filesystem := v\<rparr>) d5;
          d7 = from_property dev ''DEVTYPE'' (\<lambda>v d. d\<lparr>ud_dev_type := v\<rparr>) d6
      in obind (case udev_property dev ''ID_PART_ENTRY_NUMBER'' of
                  None \<Rightarrow> Ok d7
                | Some v \<Rightarrow> obind (stoi 10 v) (\<lambda>(n, pos). Ok (d7\<lparr>ud_partition := n\<rparr>))) (\<lambda>d8.
         let d9 = from_property dev ''ID_VENDOR_ID'' (\<lambda>v d. d\<lparr>ud_vid := v\<rparr>) d8;
             d10 = from_property dev ''ID_MODEL_ID'' (\<lambda>v d. d\<lparr>ud_pid := v\<rparr>) d9
         in Ok (if ud_action d10 \<noteq> KRemove then FindSerial dev d10 else d10)))"

definition getUdevDeviceInfo :: "udev_device \<Rightarrow> UsbUdevDevice \<Rightarrow> UsbUdevDevice outcome" where
  "getUdevDeviceInfo dev d0 =
     (let d1 = from_property dev ''SUBSYSTEM'' (\<lambda>v d. d\<lparr>ud_subsystem := v\<rparr>) d0 in
      if ud_subsystem d1 \<noteq> ''block'' then throws Logic_error
      else let d2 = from_property dev ''ID_BUS'' (\<lambda>v d. d\<lparr>ud_id_bus := v\<rparr>) d1 in
      if ud_id_bus d2 \<noteq> ''usb'' \<and> ud_id_bus d2 \<noteq> ''USB'' then throws Logic_error
      else let d3 = from_property dev ''DEVNAME'' (\<lambda>v d. d\<lparr>ud_block_name := v\<rparr>) d2 in
      if ud_block_name d3 = [] then throws Logic_error
      else read_details dev d3)"

definition UsbUdevDevice_of_udev :: "udev_device \<Rightarrow> UsbUdevDevice outcome" where
  "UsbUdevDevice_of_udev dev =
     getUdevDeviceInfo dev (SetAction (udev_property dev ''ACTION'') blank_device)"

text \<open>
  The enumeration: an entry without a name, a device that cannot be opened and a device
  without a node are retried (\<^verbatim>\<open>continue\<close> without a step to the next entry).
\<close>

partial_function (option) find_udev_loop ::
  "'w os \<Rightarrow> string \<Rightarrow> string option list \<Rightarrow> 'w \<Rightarrow> (udev_device option outcome \<times> 'w) option" where
  "find_udev_loop os name entries w =
     (case entries of
        [] \<Rightarrow> Some (Ok None, w)
      | e # rest \<Rightarrow>
          (case e of
             None \<Rightarrow> find_udev_loop os name entries w
           | Some path \<Rightarrow>
               (case os_udev_from_syspath os path w of
                  (dev, w') \<Rightarrow>
                    (case dev of
                       None \<Rightarrow> find_udev_loop os name entries w'
                     | Some d \<Rightarrow>
                         (case udev_devnode d of
                            None \<Rightarrow> find_udev_loop os name entries w'
                          | Some node \<Rightarrow>
                              if name = node then Some (Ok (Some d), w')
                              else find_udev_loop os name rest w')))))"

definition FindUdevDeviceByBlockName ::
  "'w os \<Rightarrow> string \<Rightarrow> ('w, udev_device option) prog" where
  "FindUdevDeviceByBlockName os name = (\<lambda>w.
     case os_udev_scan os w of
       (None, w') \<Rightarrow> (throws Runtime_error, w')
     | (Some entries, w') \<Rightarrow> hangp (find_udev_loop os name entries) w')"

definition UsbUdevDevice_of_params ::
  "'w os \<Rightarrow> string \<Rightarrow> string \<Rightarrow> ('w, UsbUdevDevice) prog" where
  "UsbUdevDevice_of_params os dev_path action =
     (if dev_path = [] then fail (Exc Runtime_error)
      else if action = [] then fail (Exc Runtime_error)
      else
        let d = blank_device\<lparr>ud_block_name := dev_path,
                  ud_action := (if action = ''add'' then KAdd
                    else if action = ''remove'' then KRemove else KUndefined)\<rparr>
        in if ud_action d \<noteq> KAdd then ret d
           else bindp (FindUdevDeviceByBlockName os dev_path) (\<lambda>ptr_device. case ptr_device of
             None \<Rightarrow> ret d
           | Some dev \<Rightarrow> liftO (getUdevDeviceInfo dev d)))"

fun action_name :: "Action \<Rightarrow> string" where
  "action_name KAdd = ''add''"
| "action_name KRemove = ''remove''"
| "action_name KChange = ''change''"
| "action_name KNoAction = ''no_action''"
| "action_name KUndefined = ''undefined''"

definition UsbUdevDevice_toString :: "UsbUdevDevice \<Rightarrow> string" where
  "UsbUdevDevice_toString d =
     ''Action: '' @ action_name (ud_action d) @ '' block_name: '' @ ud_block_name d @
     '' fs_label: '' @ ud_fs_label d @ '' fs_uid: '' @ ud_fs_uid d @ '' file_system: '' @
     ud_filesystem d @ '' device_type:'' @ ud_dev_type d @ '' partition number '' @
     int_to_string (ud_partition d) @ '' vid '' @ ud_vid d @ '' pid '' @ ud_pid d @
     '' subsystem '' @ ud_subsystem d @ '' serial '' @ ud_serial d"

section \<open>Facts\<close>

lemma from_property_fields [simp]:
  "(\<And>v d. ud_action (upd v d) = ud_action d) \<Longrightarrow>
     ud_action (from_property dev key upd d) = ud_action d"
  "(\<And>v d. ud_subsystem (upd v d) = ud_subsystem d) \<Longrightarrow>
     ud_subsystem (from_property dev key upd d) = ud_subsystem d"
  "(\<And>v d. ud_id_bus (upd v d) = ud_id_bus d) \<Longrightarrow>
     ud_id_bus (from_property dev key upd d) = ud_id_bus d"
  "(\<And>v d. ud_block_name (upd v d) = ud_block_name d) \<Longrightarrow>
     ud_block_name (from_property dev key upd d) = ud_block_name d"
  by (simp_all add: from_property_def split: option.splits)

lemma FindSerial_fields [simp]:
  "ud_action (FindSerial dev d) = ud_action d" "ud_subsystem (FindSerial dev d) = ud_subsystem d"
  "ud_id_bus (FindSerial dev d) = ud_id_bus d" "ud_block_name (FindSerial dev d) = ud_block_name d"
  by (simp_all add: FindSerial_def split: option.splits)

lemma read_details_fields:
  assumes "read_details dev d3 = Ok d"
  shows "ud_action d = ud_action d3" "ud_subsystem d = ud_subsystem d3"
    "ud_id_bus d = ud_id_bus d3" "ud_block_name d = ud_block_name d3"
  using assms
  by (auto simp: read_details_def Let_def obind_eq_Ok split: option.splits if_splits)

text \<open>A device is only made from a block device on the USB bus that has a name.\<close>

lemma getUdevDeviceInfo_sound:
  assumes "getUdevDeviceInfo dev d0 = Ok d"
  shows "ud_subsystem d = ''block'' \<and> (ud_id_bus d = ''usb'' \<or> ud_id_bus d = ''USB'') \<and>
    ud_block_name d \<noteq> [] \<and> ud_action d = ud_action d0"
  using assms
  by (auto simp: getUdevDeviceInfo_def Let_def read_details_fields split: if_splits)

lemma find_udev_loop_unopenable:
  assumes "os_udev_from_syspath os path = (\<lambda>w. (None, w))"
  shows "find_udev_loop os name (Some path # rest) w = None"
proof -
  have "os_udev_from_syspath os path = (\<lambda>w. (None, w)) \<longrightarrow> entries \<noteq> Some path # rest"
    if "find_udev_loop os name entries w = Some r" for os :: "'a os" and name entries w r
    using that
    by (rule find_udev_loop.raw_induct [rotated])
      (auto split: list.splits option.splits prod.splits, blast)
  with assms show ?thesis
    by (cases "find_udev_loop os name (Some path # rest) w") blast+
qed

text \<open>When every entry can be opened and has a node, the search ends with the first match.\<close>

definition openable :: "'w os \<Rightarrow> (string \<times> udev_device) list \<Rightarrow> bool" where
  "openable os devs \<longleftrightarrow> (\<forall>(path, d) \<in> set devs. udev_devnode d \<noteq> None \<and>
     (\<forall>w. fst (os_udev_from_syspath os path w) = Some d))"

lemma find_udev_loop_ends:
  assumes "openable os devs"
  shows "\<exists>w'. find_udev_loop os name (map (\<lambda>(p, d). Some p) devs) w =
    Some (Ok (map_option snd (find (\<lambda>(p, d). udev_devnode d = Some name) devs)), w')"
  using assms
proof (induction devs arbitrary: w)
  case Nil
  then show ?case by (simp add: find_udev_loop.simps)
next
  case (Cons x devs)
  obtain p d where x: "x = (p, d)" by (cases x)
  obtain w' where o: "os_udev_from_syspath os p w = (Some d, w')"
    using Cons.prems x by (auto simp: openable_def) (metis prod.collapse)
  obtain node where n: "udev_devnode d = Some node" using Cons.prems x by (auto simp: openable_def)
  have "openable os devs" using Cons.prems by (simp add: openable_def)
  from Cons.IH [OF this, of w'] show ?case
    by (subst find_udev_loop.simps) (auto simp: x o n)
qed

section \<open>Properties\<close>

text \<open>The system attribute \<^verbatim>\<open>serial\<close> of the closest \<open>n\<close> parents.\<close>

fun parent_serials :: "nat \<Rightarrow> udev_device \<Rightarrow> string list" where
  "parent_serials 0 dev = []"
| "parent_serials (Suc n) dev =
     (case udev_usb_parent dev of
        None \<Rightarrow> []
      | Some p \<Rightarrow> (case udev_sysattr p ''serial'' of None \<Rightarrow> [] | Some s \<Rightarrow> s) # parent_serials n p)"

lemma serial_loop_found: "serial \<noteq> [] \<Longrightarrow> serial_loop n dev serial = serial"
  by (cases n) auto

lemma serial_loop_parents:
  "serial_loop n dev [] =
     (case find (\<lambda>s. s \<noteq> []) (parent_serials n dev) of None \<Rightarrow> [] | Some s \<Rightarrow> s)"
  by (induction n arbitrary: dev) (auto simp: serial_loop_found split: option.splits)

text \<open>
  The serial number is the property \<^verbatim>\<open>ID_SERIAL_SHORT\<close> when udev has it, else the
  system attribute of the device itself, else the first non-empty serial number among its three
  closest USB parents, else empty; nothing further up the tree is read.
\<close>

theorem find_serial_order:
  "ud_serial (FindSerial dev blank_device) =
    (case udev_property dev ''ID_SERIAL_SHORT'' of
       Some s \<Rightarrow> s
     | None \<Rightarrow>
         (case udev_sysattr dev ''serial'' of
            Some s \<Rightarrow> s
          | None \<Rightarrow>
              (case find (\<lambda>s. s \<noteq> []) (parent_serials 3 dev) of None \<Rightarrow> [] | Some s \<Rightarrow> s)))"
  by (simp add: FindSerial_def blank_device_def serial_loop_parents split: option.splits)

definition sample_udev :: udev_device where
  "sample_udev = UdevDevice
     [(''SUBSYSTEM'', ''block''), (''ID_BUS'', ''usb''), (''DEVNAME'', ''/dev/sdb1''),
      (''ID_FS_LABEL'', ''STICK''), (''ID_FS_TYPE'', ''vfat''), (''DEVTYPE'', ''partition''),
      (''ID_VENDOR_ID'', ''346d''), (''ID_MODEL_ID'', ''5678''),
      (''ID_SERIAL_SHORT'', ''4102101253919586827''), (''ACTION'', ''add'')]
     [] (Some ''/dev/sdb1'') None"

definition sample_usb :: UsbUdevDevice where
  "sample_usb = \<lparr>ud_action = KAdd, ud_subsystem = ''block'', ud_block_name = ''/dev/sdb1'',
     ud_id_bus = ''usb'', ud_fs_label = ''STICK'', ud_fs_uid = [], ud_filesystem = ''vfat'',
     ud_dev_type = ''partition'', ud_partition = 0, ud_vid = ''346d'', ud_pid = ''5678'',
     ud_serial = ''4102101253919586827''\<rparr>"

lemma sample_usb_made: "UsbUdevDevice_of_udev sample_udev = Ok sample_usb"
  by (simp add: UsbUdevDevice_of_udev_def getUdevDeviceInfo_def read_details_def from_property_def udev_property_def
      sample_udev_def sample_usb_def SetAction_def blank_device_def FindSerial_def)

text \<open>
  Looking a device up by its node ends whenever udev can open every device of the
  enumeration, with the first one that has this node; the constructor then gives a block device
  on the USB bus, or a device with nothing but its name when there is none.
\<close>

theorem device_by_name:
  assumes "os_udev_scan os w = (Some (map (\<lambda>(p, d). Some p) devs), w1)" and "openable os devs"
    and "name \<noteq> []"
  shows "\<exists>r w'. UsbUdevDevice_of_params os name ''add'' w = (r, w') \<and>
    (case find (\<lambda>(p, d). udev_devnode d = Some name) devs of
       None \<Rightarrow> r = Ok (blank_device\<lparr>ud_block_name := name, ud_action := KAdd\<rparr>)
     | Some (p, d) \<Rightarrow> r = getUdevDeviceInfo d (blank_device\<lparr>ud_block_name := name, ud_action := KAdd\<rparr>))"
proof -
  obtain w2 where "find_udev_loop os name (map (\<lambda>(p, d). Some p) devs) w1 =
    Some (Ok (map_option snd (find (\<lambda>(p, d). udev_devnode d = Some name) devs)), w2)"
    using find_udev_loop_ends [OF assms(2)] by blast
  then have "FindUdevDeviceByBlockName os name w =
      (Ok (map_option snd (find (\<lambda>(p, d). udev_devnode d = Some name) devs)), w2)"
    using assms(1) by (simp add: FindUdevDeviceByBlockName_def hangp_def)
  then show ?thesis
    using assms(3)
    by (cases "find (\<lambda>(p, d). udev_devnode d = Some name) devs")
      (auto simp: UsbUdevDevice_of_params_def bindp_def Let_def)
qed

definition sample_dev_world :: sample_world where
  "sample_dev_world = empty_world\<lparr>sw_devs := [(''/sys/block/sdb/sdb1'', sample_udev)]\<rparr>"

lemma sample_dev_openable: "openable (sample_os JNull) []"
  by (simp add: openable_def)

theorem device_by_name_witness:
  "\<exists>r w'. UsbUdevDevice_of_params (sample_os JNull) ''/dev/sdc1'' ''add'' empty_world = (r, w') \<and>
     r = Ok (blank_device\<lparr>ud_block_name := ''/dev/sdc1'', ud_action := KAdd\<rparr>)"
  using device_by_name [of "sample_os JNull" empty_world "[]" empty_world "''/dev/sdc1''"]
  by (simp add: empty_world_def openable_def)

text \<open>
  A device of the enumeration that udev cannot open (it was unplugged in between) makes
  the search for any other device behind it an endless loop, because the loop retries the same
  entry.
\<close>

theorem device_by_name_hangs:
  assumes "os_udev_scan os w = (Some (Some path # rest), wa)"
    and "os_udev_from_syspath os path = (\<lambda>w. (None, w))" and "name \<noteq> []"
  shows "fst (UsbUdevDevice_of_params os name ''add'' w) = Fail Hangs"
  using assms(1,3) find_udev_loop_unopenable [OF assms(2)]
  by (simp add: UsbUdevDevice_of_params_def FindUdevDeviceByBlockName_def bindp_def hangp_def Let_def)

theorem device_by_name_hangs_witness:
  "fst (UsbUdevDevice_of_params ((sample_os JNull)
      \<lparr>os_udev_scan := \<lambda>w. (Some [Some ''/sys/gone''], w), os_udev_from_syspath := \<lambda>p w. (None, w)\<rparr>)
      ''/dev/sdb1'' ''add'' empty_world) = Fail Hangs"
  by (rule device_by_name_hangs [where path = "''/sys/gone''" and rest = "[]" and wa = empty_world]) simp_all

end
