(* ===== verification/Acl_Model.thy ===== *)
theory Acl_Model
  imports Udev_Device
begin

text \<open>
  The access control list of a mount directory: the helpers of \<^verbatim>\<open>utils::acl\<close> in
  \<^verbatim>\<open>daemon/utils.cpp\<close> and \<^verbatim>\<open>CustomMount::SetAcl\<close>. The library \<^verbatim>\<open>libacl\<close> is the
  record \<open>libacl\<close> of its calls over an abstract type of lists; what its manual promises is the
  predicate \<open>libacl_laws\<close>, a hypothesis of the properties.
\<close>

datatype acl_tag = ACL_USER_OBJ | ACL_USER | ACL_GROUP_OBJ | ACL_GROUP | ACL_MASK | ACL_OTHER

text \<open>
  Entries and permission sets are handles. A call that reports an error gives \<open>None\<close>;
  \<open>acl_get_entry\<close> takes true for \<^verbatim>\<open>ACL_FIRST_ENTRY\<close> and gives \<open>None\<close> when there is no
  further entry.
\<close>

record ('w, 'a) libacl =
  acl_get_file :: "string \<Rightarrow> 'w \<Rightarrow> 'a option \<times> 'w"
  acl_set_file :: "string \<Rightarrow> 'a \<Rightarrow> 'w \<Rightarrow> bool \<times> 'w"
  acl_get_entry :: "bool \<Rightarrow> 'a \<Rightarrow> nat option \<times> 'a"
  acl_get_tag_type :: "'a \<Rightarrow> nat \<Rightarrow> acl_tag option"
  acl_delete_entry :: "'a \<Rightarrow> nat \<Rightarrow> 'a option"
  acl_create_entry :: "'a \<Rightarrow> ('a \<times> nat) option"
  acl_get_permset :: "'a \<Rightarrow> nat \<Rightarrow> nat option"
  acl_add_perm :: "'a \<Rightarrow> nat \<Rightarrow> u32 \<Rightarrow> 'a option"
  acl_set_tag_type :: "'a \<Rightarrow> nat \<Rightarrow> acl_tag \<Rightarrow> 'a option"
  acl_set_qualifier :: "'a \<Rightarrow> nat \<Rightarrow> u32 \<Rightarrow> 'a option"
  acl_set_permset :: "'a \<Rightarrow> nat \<Rightarrow> nat \<Rightarrow> 'a option"
  acl_cmp :: "'a \<Rightarrow> 'a option \<Rightarrow> int"

text \<open>\<^verbatim>\<open>if (call(...) != 0) throw std::runtime_error(...);\<close>\<close>

definition need :: "'a option \<Rightarrow> 'a outcome" where
  "need r = (case r of None \<Rightarrow> throws Runtime_error | Some a \<Rightarrow> Ok a)"

text \<open>\<^verbatim>\<open>ACL_READ | ACL_EXECUTE\<close>\<close>

definition acl_rx :: u32 where
  "acl_rx = 5"

section \<open>Operations\<close>

text \<open>The loop of \<^verbatim>\<open>DeleteACLUserGroupMask\<close>, with the number of iterations left.\<close>

fun delete_loop :: "('w, 'a) libacl \<Rightarrow> nat \<Rightarrow> bool \<Rightarrow> 'a \<Rightarrow> 'a outcome" where
  "delete_loop lib 0 first acl = throws Logic_error"
| "delete_loop lib (Suc n) first acl =
     (case acl_get_entry lib first acl of
        (None, acl1) \<Rightarrow> Ok acl1
      | (Some entry, acl1) \<Rightarrow>
          (case acl_get_tag_type lib acl1 entry of
             None \<Rightarrow> throws Logic_error
           | Some tag \<Rightarrow>
               if tag = ACL_USER \<or> tag = ACL_GROUP \<or> tag = ACL_MASK
               then obind (need (acl_delete_entry lib acl1 entry)) (\<lambda>acl2. delete_loop lib n False acl2)
               else delete_loop lib n False acl1))"

definition DeleteACLUserGroupMask :: "('w, 'a) libacl \<Rightarrow> 'a \<Rightarrow> 'a outcome" where
  "DeleteACLUserGroupMask lib acl = delete_loop lib 100 True acl"

definition CreateUserAclEntry :: "('w, 'a) libacl \<Rightarrow> u32 \<Rightarrow> 'a \<Rightarrow> 'a outcome" where
  "CreateUserAclEntry lib uid acl =
     obind (need (acl_create_entry lib acl)) (\<lambda>(acl1, entry).
     obind (need (acl_get_permset lib acl1 entry)) (\<lambda>permset.
     obind (need (acl_add_perm lib acl1 permset acl_rx)) (\<lambda>acl2.
     obind (need (acl_set_tag_type lib acl2 entry ACL_USER)) (\<lambda>acl3.
     obind (need (acl_set_qualifier lib acl3 entry uid)) (\<lambda>acl4.
     need (acl_set_permset lib acl4 entry permset))))))"

definition CreateGroupAclEntry :: "('w, 'a) libacl \<Rightarrow> u32 \<Rightarrow> 'a \<Rightarrow> 'a outcome" where
  "CreateGroupAclEntry lib gid acl =
     obind (need (acl_create_entry lib acl)) (\<lambda>(acl1, entry).
     obind (need (acl_get_permset lib acl1 entry)) (\<lambda>permset.
     obind (need (acl_add_perm lib acl1 permset acl_rx)) (\<lambda>acl2.
     obind (need (acl_set_tag_type lib acl2 entry ACL_GROUP)) (\<lambda>acl3.
     obind (need (acl_set_qualifier lib acl3 entry gid)) (\<lambda>acl4.
     need (acl_set_permset lib acl4 entry permset))))))"

text \<open>The mask entry, made in \<^verbatim>\<open>SetAcl\<close> itself.\<close>

definition CreateMaskAclEntry :: "('w, 'a) libacl \<Rightarrow> 'a \<Rightarrow> 'a outcome" where
  "CreateMaskAclEntry lib acl =
     obind (need (acl_create_entry lib acl)) (\<lambda>(acl1, entry).
     obind (need (acl_get_permset lib acl1 entry)) (\<lambda>permset.
     obind (need (acl_add_perm lib acl1 permset acl_rx)) (\<lambda>acl2.
     obind (need (acl_set_tag_type lib acl2 entry ACL_MASK)) (\<lambda>acl3.
     need (acl_set_permset lib acl3 entry permset)))))"

definition build_acl :: "('w, 'a) libacl \<Rightarrow> u32 \<Rightarrow> u32 \<Rightarrow> 'a \<Rightarrow> 'a outcome" where
  "build_acl lib uid gid acl =
     obind (DeleteACLUserGroupMask lib acl) (\<lambda>acl1.
     obind (CreateUserAclEntry lib uid acl1) (\<lambda>acl2.
     obind (CreateGroupAclEntry lib gid acl2) (\<lambda>acl3.
     CreateMaskAclEntry lib acl3)))"

text \<open>
  \<^verbatim>\<open>SetAcl\<close>: the list is read, rebuilt for the user and the group, and written only when it
  differs from the list that was read.
\<close>

definition SetAcl :: "('w, 'a) libacl \<Rightarrow> u32 \<Rightarrow> u32 \<Rightarrow> string \<Rightarrow> ('w, unit) dprog" where
  "SetAcl lib uid gid mount_point =
     bindp (os_call (acl_get_file lib mount_point)) (\<lambda>acl.
     bindp (os_call (acl_get_file lib mount_point)) (\<lambda>acl_old.
     case acl of
       None \<Rightarrow> fail (Exc Runtime_error)
     | Some acl0 \<Rightarrow>
         bindp (liftO (build_acl lib uid gid acl0)) (\<lambda>acl1.
         if acl_cmp lib acl1 acl_old \<noteq> 1 then ret ()
         else bindp (emit (EvSetAcl mount_point uid gid)) (\<lambda>_.
              bindp (os_call (acl_set_file lib mount_point acl1)) (\<lambda>okay.
              if okay then ret () else fail (Exc Runtime_error))))))"

section \<open>What the library promises\<close>

record acl_entry =
  ae_tag :: "acl_tag option"
  ae_qualifier :: "u32 option"
  ae_perm :: u32

definition blank_entry :: acl_entry where
  "blank_entry = \<lparr>ae_tag = None, ae_qualifier = None, ae_perm = 0\<rparr>"

definition change_entry ::
  "nat \<Rightarrow> (acl_entry \<Rightarrow> acl_entry) \<Rightarrow> (nat \<times> acl_entry) list \<Rightarrow> (nat \<times> acl_entry) list" where
  "change_entry h f es = map (\<lambda>(h', e). (h', if h' = h then f e else e)) es"

text \<open>
  The view of a list: its entries with their handles, and the position of the iterator. The
  permission set of an entry is part of the entry: its handle is that of the entry.
\<close>

type_synonym 'a acl_view = "'a \<Rightarrow> (nat \<times> acl_entry) list \<times> nat"

definition iteration_laws :: "('w, 'a) libacl \<Rightarrow> 'a acl_view \<Rightarrow> bool" where
  "iteration_laws lib v \<longleftrightarrow>
     (\<forall>first acl es p. v acl = (es, p) \<longrightarrow>
        (let q = (if first then 0 else p) in
         if q < length es
         then fst (acl_get_entry lib first acl) = Some (fst (es ! q)) \<and>
              v (snd (acl_get_entry lib first acl)) = (es, q + 1)
         else fst (acl_get_entry lib first acl) = None \<and>
              fst (v (snd (acl_get_entry lib first acl))) = es)) \<and>
     (\<forall>acl es p i. v acl = (es, p) \<longrightarrow> distinct (map fst es) \<longrightarrow> i < length es \<longrightarrow>
        acl_get_tag_type lib acl (fst (es ! i)) = ae_tag (snd (es ! i))) \<and>
     (\<forall>acl es p. v acl = (es, p) \<longrightarrow> 0 < p \<longrightarrow> p \<le> length es \<longrightarrow>
        (\<exists>acl'. acl_delete_entry lib acl (fst (es ! (p - 1))) = Some acl' \<and>
           v acl' = (take (p - 1) es @ drop p es, p - 1)))"

definition creation_laws :: "('w, 'a) libacl \<Rightarrow> 'a acl_view \<Rightarrow> bool" where
  "creation_laws lib v \<longleftrightarrow>
     (\<forall>acl acl' h. acl_create_entry lib acl = Some (acl', h) \<longrightarrow>
        fst (v acl') = fst (v acl) @ [(h, blank_entry)] \<and> h \<notin> fst ` set (fst (v acl))) \<and>
     (\<forall>acl h ps. acl_get_permset lib acl h = Some ps \<longrightarrow> ps = h) \<and>
     (\<forall>acl acl' h m. acl_add_perm lib acl h m = Some acl' \<longrightarrow>
        fst (v acl') = change_entry h (\<lambda>e. e\<lparr>ae_perm := or (ae_perm e) m\<rparr>) (fst (v acl))) \<and>
     (\<forall>acl acl' h t. acl_set_tag_type lib acl h t = Some acl' \<longrightarrow>
        fst (v acl') = change_entry h (\<lambda>e. e\<lparr>ae_tag := Some t\<rparr>) (fst (v acl))) \<and>
     (\<forall>acl acl' h q. acl_set_qualifier lib acl h q = Some acl' \<longrightarrow>
        fst (v acl') = change_entry h (\<lambda>e. e\<lparr>ae_qualifier := Some q\<rparr>) (fst (v acl))) \<and>
     (\<forall>acl acl' h. acl_set_permset lib acl h h = Some acl' \<longrightarrow> fst (v acl') = fst (v acl))"

definition libacl_laws :: "('w, 'a) libacl \<Rightarrow> 'a acl_view \<Rightarrow> bool" where
  "libacl_laws lib v \<longleftrightarrow> iteration_laws lib v \<and> creation_laws lib v"

section \<open>Facts\<close>

definition own_entry :: "nat \<times> acl_entry \<Rightarrow> bool" where
  "own_entry x \<longleftrightarrow> ae_tag (snd x) \<notin> {Some ACL_USER, Some ACL_GROUP, Some ACL_MASK}"

lemma iteration_step:
  assumes "iteration_laws lib v" and "v acl = (es, p)"
  shows "let q = (if first then 0 else p) in
    if q < length es
    then fst (acl_get_entry lib first acl) = Some (fst (es ! q)) \<and>
         v (snd (acl_get_entry lib first acl)) = (es, q + 1)
    else fst (acl_get_entry lib first acl) = None \<and>
         fst (v (snd (acl_get_entry lib first acl))) = es"
  using conjunct1 [OF assms(1) [unfolded iteration_laws_def], rule_format, OF assms(2)] .

lemma iteration_tag:
  assumes "iteration_laws lib v" and "v acl = (es, p)" and "distinct (map fst es)" and "i < length es"
  shows "acl_get_tag_type lib acl (fst (es ! i)) = ae_tag (snd (es ! i))"
  using conjunct1 [OF conjunct2 [OF assms(1) [unfolded iteration_laws_def]], rule_format, OF assms(2-4)] .

lemma iteration_delete:
  assumes "iteration_laws lib v" and "v acl = (es, Suc q)" and "q < length es"
  shows "\<exists>acl'. acl_delete_entry lib acl (fst (es ! q)) = Some acl' \<and>
    v acl' = (take q es @ drop (Suc q) es, q)"
  using conjunct2 [OF conjunct2 [OF assms(1) [unfolded iteration_laws_def]], rule_format, OF assms(2)]
    assms(3) by simp

lemma distinct_take_drop: "distinct ys \<Longrightarrow> distinct (take q ys @ drop (Suc q) ys)"
proof (induction ys arbitrary: q)
  case (Cons y ys)
  then show ?case by (cases q) (auto dest: in_set_takeD in_set_dropD)
qed simp

lemma distinct_del: "distinct (map f xs) \<Longrightarrow> distinct (map f (take q xs @ drop (Suc q) xs))"
  using distinct_take_drop [of "map f xs" q] by (simp only: map_append take_map drop_map)

text \<open>Entries \<open>p\<close> onwards are filtered, those before are kept; \<open>n\<close> iterations are enough when
  more are left than entries.\<close>

lemma delete_loop_filters:
  assumes "iteration_laws lib v" and "v acl = (es, p)" and "q = (if first then 0 else p)"
    and "q \<le> length es" and "length es - q < n" and "\<And>x. x \<in> set es \<Longrightarrow> ae_tag (snd x) \<noteq> None"
    and "distinct (map fst es)"
  shows "\<exists>acl'. delete_loop lib n first acl = Ok acl' \<and>
    fst (v acl') = take q es @ filter own_entry (drop q es)"
  using assms(2-7)
proof (induction n arbitrary: acl es p q first)
  case (Suc n)
  obtain r acl1 where g: "acl_get_entry lib first acl = (r, acl1)"
    by (cases "acl_get_entry lib first acl")
  show ?case
  proof (cases "q < length es")
    case False
    then have "r = None" "fst (v acl1) = es"
      using iteration_step [OF assms(1) Suc.prems(1), of first] Suc.prems(2) g by (simp_all add: Let_def)
    with False Suc.prems(3) g show ?thesis by simp
  next
    case True
    then have r: "r = Some (fst (es ! q))" and v1: "v acl1 = (es, q + 1)"
      using iteration_step [OF assms(1) Suc.prems(1), of first] Suc.prems(2) g by (simp_all add: Let_def)
    have tag: "acl_get_tag_type lib acl1 (fst (es ! q)) = ae_tag (snd (es ! q))"
      by (rule iteration_tag [OF assms(1) v1 Suc.prems(6) True])
    obtain t where t: "ae_tag (snd (es ! q)) = Some t" using Suc.prems(5) [OF nth_mem [OF True]] by auto
    have drp: "drop q es = es ! q # drop (q + 1) es" using True by (simp add: Cons_nth_drop_Suc)
    show ?thesis
    proof (cases "own_entry (es ! q)")
      case own: True
      then have "delete_loop lib (Suc n) first acl = delete_loop lib n False acl1"
        by (simp add: g r tag t own_entry_def)
      moreover have "take (q + 1) es = take q es @ [es ! q]" using True by (simp add: take_Suc_conv_app_nth)
      moreover have "\<exists>acl'. delete_loop lib n False acl1 = Ok acl' \<and>
          fst (v acl') = take (q + 1) es @ filter own_entry (drop (q + 1) es)"
        by (rule Suc.IH [OF v1]) (use True Suc.prems(4-6) in auto)
      ultimately show ?thesis using own drp by simp
    next
      case del: False
      obtain acl2 where d: "acl_delete_entry lib acl1 (fst (es ! q)) = Some acl2"
        and v2: "v acl2 = (take q es @ drop (q + 1) es, q)"
        using iteration_delete [OF assms(1) _ True, of acl1] v1 by auto
      have "delete_loop lib (Suc n) first acl = delete_loop lib n False acl2"
        using del by (auto simp: g r tag t own_entry_def d need_def)
      moreover have "\<exists>acl'. delete_loop lib n False acl2 = Ok acl' \<and>
          fst (v acl') = take q (take q es @ drop (q + 1) es) @
            filter own_entry (drop q (take q es @ drop (q + 1) es))"
        by (rule Suc.IH [OF v2])
          (use True Suc.prems(4,5) distinct_del [OF Suc.prems(6), of q] in
            \<open>auto dest: in_set_takeD in_set_dropD\<close>)
      ultimately show ?thesis using del drp True by (simp add: min_def)
    qed
  qed
qed simp

lemma change_entry_last:
  "h \<notin> fst ` set es \<Longrightarrow> change_entry h f (es @ [(h, e)]) = es @ [(h, f e)]"
  by (induction es) (auto simp: change_entry_def)

lemma need_Ok [simp]: "need r = Ok a \<longleftrightarrow> r = Some a"
  by (simp add: need_def split: option.splits)

lemma creation_create:
  "creation_laws lib v \<Longrightarrow> acl_create_entry lib acl = Some (acl', h) \<Longrightarrow>
   fst (v acl') = fst (v acl) @ [(h, blank_entry)] \<and> h \<notin> fst ` set (fst (v acl))"
  by (drule creation_laws_def [THEN iffD1, THEN conjunct1, rule_format]) simp

lemma creation_changes:
  assumes "creation_laws lib v"
  shows "acl_get_permset lib acl h = Some ps \<Longrightarrow> ps = h"
    "acl_add_perm lib acl h m = Some acl' \<Longrightarrow>
       fst (v acl') = change_entry h (\<lambda>e. e\<lparr>ae_perm := or (ae_perm e) m\<rparr>) (fst (v acl))"
    "acl_set_tag_type lib acl h t = Some acl' \<Longrightarrow>
       fst (v acl') = change_entry h (\<lambda>e. e\<lparr>ae_tag := Some t\<rparr>) (fst (v acl))"
    "acl_set_qualifier lib acl h q = Some acl' \<Longrightarrow>
       fst (v acl') = change_entry h (\<lambda>e. e\<lparr>ae_qualifier := Some q\<rparr>) (fst (v acl))"
    "acl_set_permset lib acl h h = Some acl' \<Longrightarrow> fst (v acl') = fst (v acl)"
  using assms unfolding creation_laws_def by blast+

text \<open>The calls that the three helpers share: a new entry with its permissions and tag.\<close>

lemma entry_made:
  assumes "creation_laws lib v" and "acl_create_entry lib acl = Some (a1, h)"
    and "acl_get_permset lib a1 h = Some ps" and "acl_add_perm lib a1 ps m = Some a2"
    and "acl_set_tag_type lib a2 h t = Some a3"
  shows "ps = h" "h \<notin> fst ` set (fst (v acl))"
    "fst (v a3) = fst (v acl) @ [(h, \<lparr>ae_tag = Some t, ae_qualifier = None, ae_perm = m\<rparr>)]"
proof -
  note ch = creation_changes [OF assms(1)]
  show ps: "ps = h" using ch(1) [OF assms(3)] .
  note new = creation_create [OF assms(1,2)]
  then show "h \<notin> fst ` set (fst (v acl))" by blast
  with new ch(2) [OF assms(4) [unfolded ps]] ch(3) [OF assms(5)]
  show "fst (v a3) = fst (v acl) @ [(h, \<lparr>ae_tag = Some t, ae_qualifier = None, ae_perm = m\<rparr>)]"
    by (simp add: change_entry_last blank_entry_def)
qed

text \<open>\<open>adds v acl e acl'\<close>: one entry was appended, with a handle of its own.\<close>

definition adds :: "'a acl_view \<Rightarrow> 'a \<Rightarrow> acl_entry \<Rightarrow> 'a \<Rightarrow> bool" where
  "adds v acl e acl' \<longleftrightarrow>
     (\<exists>h. h \<notin> fst ` set (fst (v acl)) \<and> fst (v acl') = fst (v acl) @ [(h, e)])"

lemma adds_entries: "adds v acl e acl' \<Longrightarrow> map snd (fst (v acl')) = map snd (fst (v acl)) @ [e]"
  and adds_distinct: "adds v acl e acl' \<Longrightarrow> distinct (map fst (fst (v acl))) \<Longrightarrow> distinct (map fst (fst (v acl')))"
  by (auto simp: adds_def)

lemma CreateMaskAclEntry_adds:
  assumes "creation_laws lib v" and "CreateMaskAclEntry lib acl = Ok acl'"
  shows "adds v acl \<lparr>ae_tag = Some ACL_MASK, ae_qualifier = None, ae_perm = acl_rx\<rparr> acl'"
proof -
  obtain a1 h ps a2 a3 where c: "acl_create_entry lib acl = Some (a1, h)"
    "acl_get_permset lib a1 h = Some ps" "acl_add_perm lib a1 ps acl_rx = Some a2"
    "acl_set_tag_type lib a2 h ACL_MASK = Some a3" "acl_set_permset lib a3 h ps = Some acl'"
    using assms(2) by (auto simp: CreateMaskAclEntry_def obind_eq_Ok)
  note m = entry_made [OF assms(1) c(1-4)]
  show ?thesis using m(2,3) creation_changes(5) [OF assms(1) c(5) [unfolded m(1)]]
    by (auto simp: adds_def)
qed

lemma qualified_entry_made:
  assumes "creation_laws lib v" and "acl_create_entry lib acl = Some (a1, h)"
    and "acl_get_permset lib a1 h = Some ps" and "acl_add_perm lib a1 ps m = Some a2"
    and "acl_set_tag_type lib a2 h t = Some a3" and "acl_set_qualifier lib a3 h q = Some a4"
    and "acl_set_permset lib a4 h ps = Some acl'"
  shows "adds v acl \<lparr>ae_tag = Some t, ae_qualifier = Some q, ae_perm = m\<rparr> acl'"
proof -
  note made = entry_made [OF assms(1-5)]
  show ?thesis
    using creation_changes(5) [OF assms(1) assms(7) [unfolded made(1)]]
      creation_changes(4) [OF assms(1,6)] made(2,3)
    by (auto simp: change_entry_last adds_def)
qed

lemma CreateUserAclEntry_adds:
  assumes "creation_laws lib v" and "CreateUserAclEntry lib uid acl = Ok acl'"
  shows "adds v acl \<lparr>ae_tag = Some ACL_USER, ae_qualifier = Some uid, ae_perm = acl_rx\<rparr> acl'"
  using assms(2) qualified_entry_made [OF assms(1)]
  by (auto simp: CreateUserAclEntry_def obind_eq_Ok)

lemma CreateGroupAclEntry_adds:
  assumes "creation_laws lib v" and "CreateGroupAclEntry lib gid acl = Ok acl'"
  shows "adds v acl \<lparr>ae_tag = Some ACL_GROUP, ae_qualifier = Some gid, ae_perm = acl_rx\<rparr> acl'"
  using assms(2) qualified_entry_made [OF assms(1)]
  by (auto simp: CreateGroupAclEntry_def obind_eq_Ok)

lemma SetAcl_keeps [keeps_rules]:
  "keeps (perms_are tp) (SetAcl lib uid gid mp)" "keeps (mounts_are tm) (SetAcl lib uid gid mp)"
  "keeps daemon_inv (SetAcl lib uid gid mp)"
  "(\<And>p. Q (EvSetAcl p uid gid)) \<Longrightarrow> keeps (trace_all Q) (SetAcl lib uid gid mp)"
  unfolding SetAcl_def by (intro keeps_rules; simp)+

text \<open>The entries that \<open>SetAcl\<close> adds.\<close>

definition granted :: "u32 \<Rightarrow> u32 \<Rightarrow> acl_entry list" where
  "granted uid gid =
    [\<lparr>ae_tag = Some ACL_USER, ae_qualifier = Some uid, ae_perm = acl_rx\<rparr>,
     \<lparr>ae_tag = Some ACL_GROUP, ae_qualifier = Some gid, ae_perm = acl_rx\<rparr>,
     \<lparr>ae_tag = Some ACL_MASK, ae_qualifier = None, ae_perm = acl_rx\<rparr>]"

lemma build_acl_entries:
  assumes "libacl_laws lib v" and "length (fst (v acl)) < 100"
    and "\<And>x. x \<in> set (fst (v acl)) \<Longrightarrow> ae_tag (snd x) \<noteq> None"
    and "distinct (map fst (fst (v acl)))" and "build_acl lib uid gid acl = Ok acl'"
  shows "map snd (fst (v acl')) = map snd (filter own_entry (fst (v acl))) @ granted uid gid"
    and "distinct (map fst (fst (v acl')))"
proof -
  have iter: "iteration_laws lib v" and make: "creation_laws lib v"
    using assms(1) by (simp_all add: libacl_laws_def)
  have "\<exists>acl1. delete_loop lib 100 True acl = Ok acl1 \<and>
      fst (v acl1) = take 0 (fst (v acl)) @ filter own_entry (drop 0 (fst (v acl)))"
    by (rule delete_loop_filters [OF iter, where p = "snd (v acl)"]) (use assms(2-4) in simp_all)
  then obtain acl1 where d: "DeleteACLUserGroupMask lib acl = Ok acl1"
    "fst (v acl1) = filter own_entry (fst (v acl))"
    by (auto simp: DeleteACLUserGroupMask_def)
  from assms(5) d(1) obtain acl2 acl3 where c: "CreateUserAclEntry lib uid acl1 = Ok acl2"
    "CreateGroupAclEntry lib gid acl2 = Ok acl3" "CreateMaskAclEntry lib acl3 = Ok acl'"
    by (auto simp: build_acl_def obind_eq_Ok)
  note a = CreateUserAclEntry_adds [OF make c(1)] CreateGroupAclEntry_adds [OF make c(2)]
    CreateMaskAclEntry_adds [OF make c(3)]
  from a [THEN adds_entries] d(2)
  show "map snd (fst (v acl')) = map snd (filter own_entry (fst (v acl))) @ granted uid gid"
    by (simp add: granted_def)
  have "distinct (map fst (fst (v acl1)))" using assms(4) by (simp add: d(2) distinct_map_filter)
  with a [THEN adds_distinct] show "distinct (map fst (fst (v acl')))" by blast
qed

section \<open>Properties\<close>


text \<open>A library that keeps a list as its entries, the iterator and the next handle.\<close>

type_synonym list_acl = "((nat \<times> acl_entry) list \<times> nat) \<times> nat"

definition list_libacl :: "(sample_world, list_acl) libacl" where
  "list_libacl = \<lparr>
     acl_get_file = \<lambda>p w. (Some (([(0, blank_entry\<lparr>ae_tag := Some ACL_USER_OBJ\<rparr>)], 0), 1), w),
     acl_set_file = \<lambda>p a w. (True, w),
     acl_get_entry = \<lambda>first ((es, p), n).
       let q = (if first then 0 else p) in
       if q < length es then (Some (fst (es ! q)), ((es, q + 1), n)) else (None, ((es, q), n)),
     acl_get_tag_type = \<lambda>((es, p), n) h. Option.bind (map_of es h) ae_tag,
     acl_delete_entry = \<lambda>((es, p), n) h. Some ((take (p - 1) es @ drop p es, p - 1), n),
     acl_create_entry = \<lambda>((es, p), n).
       let h = Suc (fold max (map fst es) n) in Some (((es @ [(h, blank_entry)], p), h), h),
     acl_get_permset = \<lambda>a h. Some h,
     acl_add_perm = \<lambda>((es, p), n) h m.
       Some ((change_entry h (\<lambda>e. e\<lparr>ae_perm := or (ae_perm e) m\<rparr>) es, p), n),
     acl_set_tag_type = \<lambda>((es, p), n) h t.
       Some ((change_entry h (\<lambda>e. e\<lparr>ae_tag := Some t\<rparr>) es, p), n),
     acl_set_qualifier = \<lambda>((es, p), n) h q.
       Some ((change_entry h (\<lambda>e. e\<lparr>ae_qualifier := Some q\<rparr>) es, p), n),
     acl_set_permset = \<lambda>a h ps. Some a,
     acl_cmp = \<lambda>a b. if b = Some a then 0 else 1\<rparr>"

lemma map_of_nth_distinct:
  "distinct (map fst es) \<Longrightarrow> i < length es \<Longrightarrow> map_of es (fst (es ! i)) = Some (snd (es ! i))"
  by (simp add: map_of_eq_Some_iff)

lemma list_libacl_laws: "libacl_laws list_libacl fst"
proof -
  have "iteration_laws list_libacl fst"
    by (auto simp: iteration_laws_def list_libacl_def Let_def map_of_nth_distinct)
  moreover have "creation_laws list_libacl fst"
  proof -
    have "h \<le> fold max hs n" if "h \<in> set hs" for h :: nat and hs n
    proof -
      have "fold max hs n = Max (set (n # hs))" by (simp only: Max.set_eq_fold)
      then show ?thesis using that by (simp add: max.coboundedI2)
    qed
    then have "Suc (fold max (map fst es) n) \<notin> fst ` set es" for es :: "(nat \<times> acl_entry) list" and n
      by (metis Suc_n_not_le_n list.set_map)
    then show ?thesis
      by (auto simp: creation_laws_def list_libacl_def Let_def)
  qed
  ultimately show ?thesis by (simp add: libacl_laws_def)
qed

definition sample_acl :: list_acl where
  "sample_acl = (([(0, \<lparr>ae_tag = Some ACL_USER_OBJ, ae_qualifier = None, ae_perm = 7\<rparr>),
     (1, \<lparr>ae_tag = Some ACL_USER, ae_qualifier = Some 1005, ae_perm = 7\<rparr>),
     (2, \<lparr>ae_tag = Some ACL_OTHER, ae_qualifier = None, ae_perm = 0\<rparr>)], 0), 3)"


end
