(* ===== verification/Custom_Mount.thy ===== *)
theory Custom_Mount
  imports Acl_Model
begin

text \<open>
  \<^verbatim>\<open>daemon/custom_mount.hpp\<close> and \<^verbatim>\<open>custom_mount.cpp\<close>: mounting a device for the user
  and group of its rule, and unmounting it, with \<^verbatim>\<open>utils::MountDevice\<close>. The object is the
  record \<open>custom_mount\<close>, which the methods return updated. The loop that looks for a free
  directory name is a partial function; that it ends is a property.
\<close>

record custom_mount =
  cm_device :: UsbUdevDevice
  cm_uid :: "u32 option"
  cm_gid :: "u32 option"
  cm_base :: "string option"
  cm_end :: "string option"

record MountOptions =
  mo_flags :: u64
  mo_fs :: string
  mo_data :: string
  mo_read_only :: bool

definition CustomMount :: "UsbUdevDevice \<Rightarrow> custom_mount" where
  "CustomMount d = \<lparr>cm_device = d, cm_uid = None, cm_gid = None, cm_base = None, cm_end = None\<rparr>"

definition value_or :: "'a \<Rightarrow> 'a option \<Rightarrow> 'a" where
  "value_or a x = (case x of None \<Rightarrow> a | Some v \<Rightarrow> v)"

definition cm_uid_or_0 :: "custom_mount \<Rightarrow> u32" where
  "cm_uid_or_0 cm = value_or 0 (cm_uid cm)"

definition cm_gid_or_0 :: "custom_mount \<Rightarrow> u32" where
  "cm_gid_or_0 cm = value_or 0 (cm_gid cm)"

section \<open>Mount options\<close>

text \<open>The flags of \<^verbatim>\<open>sys/mount.h\<close>.\<close>

definition MS_RDONLY :: u64 where "MS_RDONLY = 1"
definition MS_NOSUID :: u64 where "MS_NOSUID = 2"
definition MS_NODEV :: u64 where "MS_NODEV = 4"
definition MS_RELATIME :: u64 where "MS_RELATIME = 0x200000"

lemmas ms_defs = MS_RDONLY_def MS_NOSUID_def MS_NODEV_def MS_RELATIME_def

definition SetMountOptions :: "custom_mount \<Rightarrow> MountOptions \<Rightarrow> MountOptions" where
  "SetMountOptions cm opts =
     (if mo_fs opts = [] then opts
      else
        let opts = opts\<lparr>mo_flags := or (or MS_NOSUID MS_NODEV) MS_RELATIME\<rparr>;
            uid_gid = ''uid='' @ to_string (cm_uid_or_0 cm) @ '',gid='' @ to_string (cm_gid_or_0 cm);
            fs = ud_filesystem (cm_device cm)
        in if fs = ''iso9660'' then
             opts\<lparr>mo_flags := or (mo_flags opts) MS_RDONLY,
                  mo_data := mo_data opts @ uid_gid @ '',iocharset=utf8'', mo_read_only := True\<rparr>
           else if fs = ''vfat'' then
             opts\<lparr>mo_data := mo_data opts @ uid_gid @
               '',fmask=0007,dmask=0007,allow_utime=0020,codepage=866,shortname=mixed,utf8,flush,errors=remount-ro''\<rparr>
           else if fs = ''exfat'' then
             opts\<lparr>mo_data := mo_data opts @ uid_gid @ '',fmask=0007,dmask=0007''\<rparr>
           else if fs = ''ntfs'' then
             opts\<lparr>mo_fs := mo_fs opts @ ''3'', mo_data := mo_data opts @ uid_gid @ '',iocharset=utf8''\<rparr>
           else if fs = ''udf'' then
             opts\<lparr>mo_flags := or (mo_flags opts) MS_RDONLY,
                  mo_data := mo_data opts @ uid_gid @ '',mode=440,dmode=550,iocharset=utf8'',
                  mo_read_only := True\<rparr>
           else opts)"

section \<open>Directories\<close>

text \<open>\<open>0750\<close> is 488.\<close>

definition CreateAclMountPoint ::
  "'w os \<Rightarrow> ('w, 'a) libacl \<Rightarrow> custom_mount \<Rightarrow> ('w, bool \<times> custom_mount) dprog" where
  "CreateAclMountPoint os lib cm =
     bindp (os_call (os_getpwuid os (cm_uid_or_0 cm))) (\<lambda>user_name.
     bindp (os_call (os_getgrgid os (cm_gid_or_0 cm))) (\<lambda>group_name.
     let mount_point = mount_root @ value_or (to_string (cm_uid_or_0 cm)) user_name @ ''_'' @
           value_or (to_string (cm_gid_or_0 cm)) group_name
     in tryp
       (bindp (emit (EvMkdir mount_point)) (\<lambda>_.
        bindp (on_world (fio_create_directories os mount_point)) (\<lambda>_.
        bindp (emit (EvChmod mount_point 488)) (\<lambda>_.
        bindp (os_call (os_chmod os mount_point 488)) (\<lambda>okay.
        if \<not> okay then fail (Exc Runtime_error)
        else bindp (SetAcl lib (cm_uid_or_0 cm) (cm_gid_or_0 cm) mount_point) (\<lambda>_.
          ret (True, cm\<lparr>cm_base := Some mount_point\<rparr>)))))))
       (ret (False, cm))))"

text \<open>\<^verbatim>\<open>fs::exists(endpoint) && !fs::is_empty(endpoint)\<close>\<close>

definition occupied :: "'w os \<Rightarrow> string \<Rightarrow> ('w, bool) prog" where
  "occupied os p = bindp (fio_exists os p) (\<lambda>found.
     if \<not> found then ret False else bindp (os_is_empty os p) (\<lambda>e. ret (\<not> e)))"

text \<open>The search for a free name; the index is a 32-bit unsigned number.\<close>

partial_function (option) endpoint_loop ::
  "'w os \<Rightarrow> u32 \<Rightarrow> string \<Rightarrow> 'w \<Rightarrow> (string outcome \<times> 'w) option" where
  "endpoint_loop os index endpoint w =
     (case occupied os endpoint w of
        (res, w') \<Rightarrow>
          (case res of
             Fail f \<Rightarrow> Some (Fail f, w')
           | Ok busy \<Rightarrow>
               if \<not> busy then Some (Ok endpoint, w')
               else if index = 0 then endpoint_loop os 1 (endpoint @ ''_0'') w'
               else endpoint_loop os (index + 1) (butlast endpoint @ to_string (index + 1)) w'))"

definition endpoint_name :: "'w os \<Rightarrow> string \<Rightarrow> UsbUdevDevice \<Rightarrow> ('w, string) prog" where
  "endpoint_name os folder d =
     bindp (if ud_fs_label d = [] then ret False
            else bindp (fio_exists os (folder @ ud_fs_label d)) (\<lambda>found. ret (\<not> found))) (\<lambda>use_label.
       ret (if use_label then folder @ SanitizeMount (ud_fs_label d)
            else if ud_fs_uid d \<noteq> [] then folder @ SanitizeMount (ud_fs_uid d)
            else folder @ ''usb''))"

definition CreateMountEndpoint ::
  "'w os \<Rightarrow> custom_mount \<Rightarrow> ('w, bool \<times> custom_mount) dprog" where
  "CreateMountEndpoint os cm =
     (if value_or [] (cm_base cm) = [] then ret (False, cm)
      else tryp
        (bindp (on_world (endpoint_name os (value_or [] (cm_base cm) @ ''/'') (cm_device cm))) (\<lambda>name.
         bindp (on_world (hangp (endpoint_loop os 0 name))) (\<lambda>endpoint.
         bindp (on_world (fio_exists os endpoint)) (\<lambda>found.
         bindp (if found then ret True
                else bindp (emit (EvMkdir endpoint)) (\<lambda>_. on_world (os_create_directory os endpoint))) (\<lambda>made.
         if \<not> made then ret (False, cm)
         else bindp (emit (EvChown endpoint (cm_uid_or_0 cm) (cm_gid_or_0 cm))) (\<lambda>_.
         bindp (os_call (os_chown os endpoint (cm_uid_or_0 cm) (cm_gid_or_0 cm))) (\<lambda>owned.
         if \<not> owned then ret (False, cm)
         else bindp (emit (EvChmod endpoint 488)) (\<lambda>_.
         bindp (os_call (os_chmod os endpoint 488)) (\<lambda>okay.
         if \<not> okay then ret (False, cm)
         else ret (True, cm\<lparr>cm_end := Some endpoint\<rparr>))))))))))
        (ret (False, cm)))"

definition RemoveMountPoint :: "'w os \<Rightarrow> string \<Rightarrow> ('w, unit) dprog" where
  "RemoveMountPoint os path = noexceptp (tryp
     (bindp (on_world (os_is_empty os path)) (\<lambda>e.
        if e then bindp (emit (EvRemove path)) (\<lambda>_. bindp (on_world (os_remove os path)) (\<lambda>_. ret ()))
        else ret ()))
     (ret ()))"

section \<open>Mounting\<close>

definition mount_call ::
  "'w os \<Rightarrow> string \<Rightarrow> string \<Rightarrow> string \<Rightarrow> u64 \<Rightarrow> string \<Rightarrow> ('w, int) dprog" where
  "mount_call os dev target fs flags data =
     bindp (os_call (os_mount os dev target fs flags data)) (\<lambda>res.
     bindp (emit (EvMount dev target fs flags data res)) (\<lambda>_. ret res))"

definition PerfomMount :: "'w os \<Rightarrow> custom_mount \<Rightarrow> ('w, bool) dprog" where
  "PerfomMount os cm = noexceptp
     (case cm_end cm of
        None \<Rightarrow> ret False
      | Some target \<Rightarrow>
          bindp (on_world (fio_exists os target)) (\<lambda>found.
          if \<not> found then ret False
          else
            let d = cm_device cm;
                opts = SetMountOptions cm
                  \<lparr>mo_flags = 0, mo_fs = ud_filesystem d, mo_data = [], mo_read_only = False\<rparr>
            in bindp (mount_call os (ud_block_name d) target (mo_fs opts) (mo_flags opts) (mo_data opts)) (\<lambda>res.
               if res = 0 then ret True
               else bindp (mount_call os (ud_block_name d) target (mo_fs opts)
                             (or (mo_flags opts) MS_RDONLY) (mo_data opts)) (\<lambda>res2.
                 if res2 = - 1 then bindp (RemoveMountPoint os target) (\<lambda>_. ret False)
                 else ret True))))"

text \<open>The \<^verbatim>\<open>try\<close> block at the end of \<^verbatim>\<open>Mount\<close>: the new mount is stored.\<close>

definition save_mount :: "'w os \<Rightarrow> custom_mount \<Rightarrow> ('w, unit) dprog" where
  "save_mount os cm = tryp
     (bindp (liftO (MountEntry_of_params (ud_block_name (cm_device cm))
               (value_or [] (cm_end cm)) (ud_filesystem (cm_device cm)))) (\<lambda>entry.
      on_mounts (Mountpoints_Create os entry)))
     (ret ())"

text \<open>The steps of \<^verbatim>\<open>Mount\<close> once the user and the group are known.\<close>

definition mount_for :: "'w os \<Rightarrow> ('w, 'a) libacl \<Rightarrow> custom_mount \<Rightarrow> ('w, bool) dprog" where
  "mount_for os lib cm =
     (if ud_dev_type (cm_device cm) = ''disk'' \<and> ud_filesystem (cm_device cm) \<noteq> ''ntfs'' then ret True
      else bindp (CreateAclMountPoint os lib cm) (\<lambda>(made, cm1).
        if \<not> made then ret False
        else bindp (CreateMountEndpoint os cm1) (\<lambda>(ready, cm2).
          if \<not> ready then ret False
          else bindp (PerfomMount os cm2) (\<lambda>mounted.
            if \<not> mounted then ret True
            else bindp (save_mount os cm2) (\<lambda>_. ret True)))))"

definition Mount :: "'w os \<Rightarrow> ('w, 'a) libacl \<Rightarrow> custom_mount \<Rightarrow> ('w, bool) dprog" where
  "Mount os lib cm = noexceptp
     (bindp (liftO (Device_of_params (ud_vid (cm_device cm)) (ud_pid (cm_device cm))
               (ud_serial (cm_device cm)))) (\<lambda>dto_device.
      bindp (on_perms (DevicePermissions_Find dto_device)) (\<lambda>db_index. case db_index of
        None \<Rightarrow> ret False
      | Some i \<Rightarrow>
          bindp (on_perms (DevicePermissions_Read i)) (\<lambda>perms.
          case (pe_users perms, pe_groups perms) of
            (u # us, g # gs) \<Rightarrow>
              mount_for os lib (cm\<lparr>cm_uid := Some (user_uid u), cm_gid := Some (group_gid g)\<rparr>)
          | _ \<Rightarrow> ret False))))"

section \<open>Unmounting\<close>

text \<open>\<^verbatim>\<open>ntfs3\<close> is stored as \<^verbatim>\<open>ntfs\<close>.\<close>

definition stored_type :: "string \<Rightarrow> string" where
  "stored_type fs_type = (if fs_type = ''ntfs3'' then butlast fs_type else fs_type)"

definition forget_mount :: "'w os \<Rightarrow> string \<Rightarrow> string \<Rightarrow> string \<Rightarrow> ('w, unit) dprog" where
  "forget_mount os dev mount_point fs_type =
     bindp (if mount_point \<noteq> []
            then bindp (liftO (MountEntry_of_params dev mount_point fs_type)) (\<lambda>entry.
                   on_mounts (Mountpoints_Find_entry entry))
            else on_mounts (Mountpoints_Find_dev dev)) (\<lambda>index. case index of
       None \<Rightarrow> ret ()
     | Some i \<Rightarrow>
         bindp (RemoveMountPoint os mount_point) (\<lambda>_. on_mounts (Mountpoints_Delete os i)))"

definition UnMount :: "'w os \<Rightarrow> UsbUdevDevice \<Rightarrow> ('w, bool) dprog" where
  "UnMount os d = noexceptp
     (bindp (os_call (os_mtab os)) (\<lambda>entries. case entries of
        None \<Rightarrow> ret False
      | Some es \<Rightarrow>
          let dev = ud_block_name d;
              found = find (\<lambda>e. mnt_fsname e = dev) es;
              mount_point = (case found of None \<Rightarrow> [] | Some e \<Rightarrow> mnt_dir e);
              fs_type = stored_type (case found of None \<Rightarrow> [] | Some e \<Rightarrow> mnt_type e)
          in bindp (if mount_point \<noteq> []
                    then bindp (os_call (os_umount2 os mount_point)) (\<lambda>res.
                         bindp (emit (EvUmount mount_point res)) (\<lambda>_. ret (res = 0)))
                    else ret True) (\<lambda>going_on.
             if \<not> going_on then ret False
             else bindp (tryp (forget_mount os dev mount_point fs_type) (ret ())) (\<lambda>_. ret True))))"

definition MountDevice :: "'w os \<Rightarrow> ('w, 'a) libacl \<Rightarrow> UsbUdevDevice \<Rightarrow> ('w, unit) dprog" where
  "MountDevice os lib d = noexceptp (tryp
     (if ud_subsystem d \<noteq> ''block'' then ret ()
      else if ud_action d = KAdd then bindp (Mount os lib (CustomMount d)) (\<lambda>_. ret ())
      else if ud_action d = KRemove then bindp (UnMount os d) (\<lambda>_. ret ())
      else ret ())
     (ret ()))"

section \<open>The search for a free directory ends\<close>

text \<open>
  The system refuses paths above a length (\<^verbatim>\<open>ENAMETOOLONG\<close>): \<^verbatim>\<open>fs::exists\<close> throws, or
  says no.
\<close>

definition path_limit :: "'w os \<Rightarrow> nat \<Rightarrow> bool" where
  "path_limit os n \<longleftrightarrow> (\<forall>p w. n < length p \<longrightarrow> fst (fio_exists os p w) \<noteq> Ok True)"

lemma occupied_short:
  "path_limit os n \<Longrightarrow> occupied os p w = (Ok True, w') \<Longrightarrow> length p \<le> n"
  by (rule ccontr) (auto simp: occupied_def path_limit_def bindp_eq_Ok split: if_splits, metis fst_conv not_le)

lemma length_nat_to_string: "10 \<le> n \<Longrightarrow> 2 \<le> length (nat_to_string n)"
  by (simp add: nat_to_string.simps [of n] Suc_le_eq)

lemma length_to_string_pos: "1 \<le> length (to_string (i :: 'a::len word))"
  by (simp add: to_string_def Suc_le_eq)

lemma endpoint_loop_step:
  "endpoint_loop os index endpoint w =
     (case occupied os endpoint w of
        (Fail f, w') \<Rightarrow> Some (Fail f, w')
      | (Ok busy, w') \<Rightarrow>
          if \<not> busy then Some (Ok endpoint, w')
          else if index = 0 then endpoint_loop os 1 (endpoint @ ''_0'') w'
          else endpoint_loop os (index + 1) (butlast endpoint @ to_string (index + 1)) w')"
  by (subst endpoint_loop.simps) (simp split: prod.splits outcome.splits)

lemma unat_succ_u32: "unat (i :: u32) + 1 < 2 ^ 32 \<Longrightarrow> unat (i + 1) = unat i + 1"
  by (simp add: unat_word_ariths)

lemma endpoint_loop_indexed_ends:
  assumes "path_limit os n" and "0 < unat index"
    and "unat index + ((10 - unat index) + (n + 1 - length endpoint)) < 2 ^ 32"
  shows "\<exists>r. endpoint_loop os index endpoint w = Some r"
  using assms(2,3)
proof (induction "(10 - unat index) + (n + 1 - length endpoint)" arbitrary: index endpoint w
    rule: less_induct)
  case less
  obtain res w' where o: "occupied os endpoint w = (res, w')" by (cases "occupied os endpoint w")
  show ?case
  proof (cases res)
    case (Ok busy)
    show ?thesis
    proof (cases busy)
      case True
      with Ok o assms(1) have len: "length endpoint \<le> n" by (auto dest: occupied_short)
      let ?e = "butlast endpoint @ to_string (index + 1)"
      have succ: "unat (index + 1) = unat index + 1"
        by (rule unat_succ_u32) (use less.prems len in simp)
      have "10 \<le> unat index \<Longrightarrow> 2 \<le> length (to_string (index + 1))"
        by (simp add: to_string_def succ length_nat_to_string)
      then have smaller: "(10 - unat (index + 1)) + (n + 1 - length ?e)
          < (10 - unat index) + (n + 1 - length endpoint)"
        using len length_to_string_pos [of "index + 1"] unfolding succ
        by (cases "10 \<le> unat index") auto
      have "\<exists>r. endpoint_loop os (index + 1) ?e w' = Some r"
        by (rule less.hyps [OF smaller]) (use less.prems succ smaller in auto)
      with Ok True o less.prems(1) show ?thesis
        by (auto simp: endpoint_loop_step [of os index])
    qed (use Ok o in \<open>simp add: endpoint_loop_step [of os index]\<close>)
  qed (use o in \<open>simp add: endpoint_loop_step [of os index]\<close>)
qed

lemma endpoint_loop_ends:
  assumes "path_limit os n" and "n < 2 ^ 31"
  shows "\<exists>r. endpoint_loop os 0 endpoint w = Some r"
proof -
  obtain res w' where o: "occupied os endpoint w = (res, w')" by (cases "occupied os endpoint w")
  have "\<exists>r. endpoint_loop os 1 (endpoint @ ''_0'') w' = Some r"
    by (rule endpoint_loop_indexed_ends [OF assms(1)]) (use assms(2) in simp_all)
  then show ?thesis
    by (cases res) (simp_all add: endpoint_loop_step [of os 0] o)
qed

text \<open>Every name tried is the first one followed by underscores and digits.\<close>

definition suffix_char :: "char \<Rightarrow> bool" where
  "suffix_char c \<longleftrightarrow> c = CHR ''_'' \<or> is_digit 10 c"

definition numbered :: "string \<Rightarrow> u32 \<Rightarrow> string \<Rightarrow> bool" where
  "numbered name index endpoint \<longleftrightarrow>
     (\<exists>suf. endpoint = name @ suf \<and> list_all suffix_char suf \<and> (index = 0 \<or> suf \<noteq> []))"

lemma numbered_first: "numbered name index endpoint \<Longrightarrow> numbered name 1 (endpoint @ ''_0'')"
  by (auto simp: numbered_def suffix_char_def is_digit_def digit_value_def)

lemma numbered_next:
  assumes "numbered name index endpoint" and "index \<noteq> 0"
  shows "numbered name (index + 1) (butlast endpoint @ to_string (index + 1))"
proof -
  obtain suf where suf: "endpoint = name @ suf" "list_all suffix_char suf" "suf \<noteq> []"
    using assms by (auto simp: numbered_def)
  have "list_all suffix_char (to_string (index + 1))"
    by (simp add: to_string_def list_all_iff suffix_char_def nat_to_string_digits)
  moreover have "list_all suffix_char (butlast suf)"
    using suf(2) by (auto simp: list_all_iff dest: in_set_butlastD)
  moreover have "butlast suf @ to_string (index + 1) \<noteq> []"
    by (simp add: to_string_def)
  ultimately show ?thesis
    using suf by (auto simp: numbered_def butlast_append intro!: exI [of _ "butlast suf @ to_string (index + 1)"])
qed

lemma endpoint_loop_numbered:
  assumes "endpoint_loop os index endpoint w = Some (Ok e, w')" and "numbered name index endpoint"
  shows "numbered name 0 e"
proof -
  have "\<forall>e w'. y = (Ok e, w') \<longrightarrow> numbered name index endpoint \<longrightarrow> numbered name 0 e"
    if "endpoint_loop os index endpoint w = Some y" for os :: "'a os" and index endpoint w y
    using that
  proof (rule endpoint_loop.raw_induct [rotated])
    fix loop :: "'a os \<Rightarrow> u32 \<Rightarrow> string \<Rightarrow> 'a \<Rightarrow> (string outcome \<times> 'a) option"
      and os index endpoint w y
    assume IH: "\<And>os index endpoint w y. loop os index endpoint w = Some y \<Longrightarrow>
        \<forall>e w'. y = (Ok e, w') \<longrightarrow> numbered name index endpoint \<longrightarrow> numbered name 0 e"
      and run: "(case occupied os endpoint w of
          (Ok busy, w') \<Rightarrow>
            if \<not> busy then Some (Ok endpoint, w')
            else if index = 0 then loop os 1 (endpoint @ ''_0'') w'
            else loop os (index + 1) (butlast endpoint @ to_string (index + 1)) w'
        | (Fail f, w') \<Rightarrow> Some (Fail f, w')) = Some y"
    show "\<forall>e w'. y = (Ok e, w') \<longrightarrow> numbered name index endpoint \<longrightarrow> numbered name 0 e"
    proof (intro allI impI)
      fix e w'
      assume y: "y = (Ok e, w')" and num: "numbered name index endpoint"
      then consider "e = endpoint"
        | w'' where "index = 0" "loop os 1 (endpoint @ ''_0'') w'' = Some y"
        | w'' where "index \<noteq> 0" "loop os (index + 1) (butlast endpoint @ to_string (index + 1)) w'' = Some y"
        using run by (auto split: prod.splits outcome.splits if_splits)
      then show "numbered name 0 e"
      proof cases
        case 1
        with num show ?thesis by (auto simp: numbered_def)
      next
        case 2
        with IH y num numbered_first show ?thesis by blast
      next
        case 3
        with IH y num numbered_next show ?thesis by blast
      qed
    qed
  qed
  with assms show ?thesis by blast
qed

section \<open>What the steps return and do\<close>

lemma yields_on_world: "yields R m \<Longrightarrow> yields R (on_world m)"
  unfolding yields_def on_world_def by (auto split: prod.splits)

text \<open>The events of a mount are those of one device, below the root, without suid and devices.\<close>

fun mount_event_ok :: "string \<Rightarrow> sysevent \<Rightarrow> bool" where
  "mount_event_ok dev (EvMount d t fs fl data r) \<longleftrightarrow>
     d = dev \<and> and fl (or MS_NOSUID MS_NODEV) = or MS_NOSUID MS_NODEV \<and> starts_with t mount_root"
| "mount_event_ok dev (EvUmount t r) \<longleftrightarrow> False"
| "mount_event_ok dev _ \<longleftrightarrow> True"

lemma SetMountOptions_flags:
  "mo_fs opts \<noteq> [] \<Longrightarrow> mo_flags (SetMountOptions cm opts) =
     (if ud_filesystem (cm_device cm) \<in> {''iso9660'', ''udf''} then 0x200007 else 0x200006)"
  by (simp add: SetMountOptions_def Let_def ms_defs)

text \<open>The rules hold for every predicate on events that these events satisfy.\<close>

lemma CreateAclMountPoint_trace:
  assumes Q: "\<And>ev. mount_event_ok dev ev \<Longrightarrow> Q ev"
  shows "keeps (trace_all Q) (CreateAclMountPoint os lib cm)"
  unfolding CreateAclMountPoint_def by (intro keeps_rules Q; simp)

lemma CreateAclMountPoint_yields:
  "yields (\<lambda>(ok, cm'). cm_device cm' = cm_device cm \<and>
     (ok \<longrightarrow> (\<exists>r. cm_base cm' = Some (mount_root @ r)))) (CreateAclMountPoint os lib cm)"
  unfolding CreateAclMountPoint_def Let_def by (intro yields_rules; simp)

lemma CreateMountEndpoint_trace:
  assumes Q: "\<And>ev. mount_event_ok dev ev \<Longrightarrow> Q ev"
  shows "keeps (trace_all Q) (CreateMountEndpoint os cm)"
  unfolding CreateMountEndpoint_def by (intro keeps_rules Q; simp)

lemma SanitizeMount_no_slash: "CHR ''/'' \<notin> set (SanitizeMount s)"
  by (auto simp: SanitizeMount_map)

lemma endpoint_name_yields:
  "yields (\<lambda>n. \<exists>x. n = folder @ x \<and> x \<noteq> [] \<and> CHR ''/'' \<notin> set x) (endpoint_name os folder d)"
proof -
  have lab: "yields (\<lambda>b. b \<longrightarrow> ud_fs_label d \<noteq> [])
      (if ud_fs_label d = [] then ret False
       else bindp (fio_exists os (folder @ ud_fs_label d)) (\<lambda>found. ret (\<not> found)))"
    by (cases "ud_fs_label d = []") (auto intro!: yields_rules)
  have len: "SanitizeMount x = [] \<longleftrightarrow> x = []" for x by (simp add: SanitizeMount_map)
  show ?thesis
    unfolding endpoint_name_def
  proof (rule yields_bindp_with [OF lab], rule yields_ret)
    fix b
    assume b: "b \<longrightarrow> ud_fs_label d \<noteq> []"
    let ?x = "if b then SanitizeMount (ud_fs_label d)
      else if ud_fs_uid d \<noteq> [] then SanitizeMount (ud_fs_uid d) else ''usb''"
    have "(if b then folder @ SanitizeMount (ud_fs_label d)
        else if ud_fs_uid d \<noteq> [] then folder @ SanitizeMount (ud_fs_uid d) else folder @ ''usb'') =
      folder @ ?x"
      by (simp only: if_distrib [of "\<lambda>x. folder @ x"])
    moreover have "?x \<noteq> []" using b by (cases b; cases "ud_fs_uid d = []") (simp_all add: len)
    moreover have "CHR ''/'' \<notin> set ?x"
      by (cases b; cases "ud_fs_uid d = []") (simp_all add: SanitizeMount_no_slash)
    ultimately show "\<exists>x. (if b then folder @ SanitizeMount (ud_fs_label d)
        else if ud_fs_uid d \<noteq> [] then folder @ SanitizeMount (ud_fs_uid d) else folder @ ''usb'') =
          folder @ x \<and> x \<noteq> [] \<and> CHR ''/'' \<notin> set x"
      by blast
  qed
qed

lemma suffix_char_no_slash: "list_all suffix_char suf \<Longrightarrow> CHR ''/'' \<notin> set suf"
  by (induction suf) (auto simp: suffix_char_def is_digit_def digit_value_def)

lemma CreateMountEndpoint_yields:
  "yields (\<lambda>(ok, cm'). cm_device cm' = cm_device cm \<and> cm_base cm' = cm_base cm \<and>
     (ok \<longrightarrow> (\<exists>x. cm_end cm' = Some (value_or [] (cm_base cm) @ ''/'' @ x) \<and> x \<noteq> [] \<and>
       CHR ''/'' \<notin> set x))) (CreateMountEndpoint os cm)"
proof -
  let ?f = "value_or [] (cm_base cm) @ ''/''"
  let ?child = "\<lambda>n. \<exists>x. n = ?f @ x \<and> x \<noteq> [] \<and> CHR ''/'' \<notin> set x"
  have loop: "yields ?child (on_world (hangp (endpoint_loop os 0 name)))" if n: "?child name" for name
  proof (intro yields_on_world yields_hangp)
    fix w e w'
    assume "endpoint_loop os 0 name w = Some (Ok e, w')"
    then have "numbered name 0 e"
      by (rule endpoint_loop_numbered) (auto simp: numbered_def)
    then obtain suf where "e = name @ suf" "list_all suffix_char suf" by (auto simp: numbered_def)
    with n suffix_char_no_slash show "?child e" by fastforce
  qed
  show ?thesis
    unfolding CreateMountEndpoint_def
    apply (intro yields_if yields_ret yields_tryp)
      apply simp
     apply (rule yields_bindp_with [OF yields_on_world [OF endpoint_name_yields]])
     apply (rule yields_bindp_with [OF loop], assumption)
     apply (intro yields_bindp yields_if yields_ret; simp)
    apply simp
    done
qed

lemma RemoveMountPoint_trace:
  assumes Q: "\<And>ev. mount_event_ok dev ev \<Longrightarrow> Q ev"
  shows "keeps (trace_all Q) (RemoveMountPoint os p)"
  unfolding RemoveMountPoint_def by (intro keeps_rules Q; simp)

lemma mount_call_trace:
  assumes Q: "\<And>ev. mount_event_ok dev ev \<Longrightarrow> Q ev" and "d = dev"
    and "and fl (or MS_NOSUID MS_NODEV) = or MS_NOSUID MS_NODEV" and "starts_with t mount_root"
  shows "keeps (trace_all Q) (mount_call os d t fs fl data)"
  using assms(2-4) unfolding mount_call_def by (intro keeps_rules Q; simp)

lemma PerfomMount_trace:
  assumes Q: "\<And>ev. mount_event_ok dev ev \<Longrightarrow> Q ev" and "ud_block_name (cm_device cm) = dev" and "ud_filesystem (cm_device cm) \<noteq> []"
    and "\<And>t. cm_end cm = Some t \<Longrightarrow> starts_with t mount_root"
  shows "keeps (trace_all Q) (PerfomMount os cm)"
proof -
  let ?o = "SetMountOptions cm \<lparr>mo_flags = 0, mo_fs = ud_filesystem (cm_device cm), mo_data = [], mo_read_only = False\<rparr>"
  have fl: "mo_flags ?o = 0x200007 \<or> mo_flags ?o = 0x200006"
    using assms(3) by (simp add: SetMountOptions_flags)
  have "and (mo_flags ?o) (or MS_NOSUID MS_NODEV) = or MS_NOSUID MS_NODEV"
    "and (or (mo_flags ?o) MS_RDONLY) (or MS_NOSUID MS_NODEV) = or MS_NOSUID MS_NODEV"
    using fl by (auto simp: ms_defs)
  with assms(2-4) show ?thesis
    unfolding PerfomMount_def Let_def
    by (cases "cm_end cm") (auto intro!: keeps_rules mount_call_trace [of dev] RemoveMountPoint_trace [of dev] Q)
qed

lemma mount_for_trace:
  assumes "ud_filesystem (cm_device cm) \<noteq> []"
    and Q: "\<And>ev. mount_event_ok (ud_block_name (cm_device cm)) ev \<Longrightarrow> Q ev"
  shows "keeps (trace_all Q) (mount_for os lib cm)"
proof -
  have pm: "keeps (trace_all Q) (PerfomMount os cm2)"
    if "cm_device cm2 = cm_device cm" "cm_base cm2 = Some (mount_root @ r)"
      "cm_end cm2 = Some (value_or [] (cm_base cm2) @ ''/'' @ x)" for cm2 r x
    by (rule PerfomMount_trace [of "ud_block_name (cm_device cm)"]) (use that assms in \<open>auto simp: value_or_def\<close>)
  show ?thesis
    unfolding mount_for_def
  proof (intro keeps_if keeps_ret keeps_bindp_pair [OF CreateAclMountPoint_trace [OF Q] CreateAclMountPoint_yields]
      keeps_bindp_pair [OF CreateMountEndpoint_trace [OF Q] CreateMountEndpoint_yields])
    fix ok1 ok2 and cm1 cm2 :: custom_mount
    assume "cm_device cm1 = cm_device cm \<and> (ok1 \<longrightarrow> (\<exists>r. cm_base cm1 = Some (mount_root @ r)))"
      and "\<not> \<not> ok1" and "\<not> \<not> ok2"
      and "cm_device cm2 = cm_device cm1 \<and> cm_base cm2 = cm_base cm1 \<and>
        (ok2 \<longrightarrow> (\<exists>x. cm_end cm2 = Some (value_or [] (cm_base cm1) @ ''/'' @ x) \<and> x \<noteq> [] \<and>
          CHR ''/'' \<notin> set x))"
    then have "keeps (trace_all Q) (PerfomMount os cm2)"
      using pm by auto
    then show "keeps (trace_all Q)
       (bindp (PerfomMount os cm2) (\<lambda>mounted.
            if \<not> mounted then ret True
            else bindp (save_mount os cm2) (\<lambda>_. ret True)))"
      unfolding save_mount_def by (intro keeps_rules)
  qed
qed

lemma Mount_trace:
  assumes "ud_filesystem (cm_device cm) \<noteq> []"
    and Q: "\<And>ev. mount_event_ok (ud_block_name (cm_device cm)) ev \<Longrightarrow> Q ev"
  shows "keeps (trace_all Q) (Mount os lib cm)"
proof -
  have "keeps (trace_all Q)
      (mount_for os lib (cm\<lparr>cm_uid := u, cm_gid := g\<rparr>))" for u g
    using mount_for_trace [of "cm\<lparr>cm_uid := u, cm_gid := g\<rparr>" Q os lib] assms by simp
  then show ?thesis
    unfolding Mount_def by (intro keeps_rules) (auto split: list.splits intro: keeps_rules)
qed

section \<open>A mount is recorded\<close>

fun succeeded :: "sysevent \<Rightarrow> bool" where
  "succeeded (EvMount d t fs fl data r) \<longleftrightarrow> r = 0"
| "succeeded _ \<longleftrightarrow> False"

definition none_mounted :: "'w daemon \<Rightarrow> bool" where
  "none_mounted = trace_all (\<lambda>ev. \<not> succeeded ev)"

fun event_recorded :: "MountEntry table \<Rightarrow> sysevent \<Rightarrow> bool" where
  "event_recorded tbl (EvMount d t fs fl data r) \<longleftrightarrow>
     r = 0 \<longrightarrow> (\<exists>k e. map_of (tbl_data tbl) k = Some e \<and> me_dev_name e = d \<and> me_mount_point e = t)"
| "event_recorded tbl _ \<longleftrightarrow> True"

definition mounts_recorded :: "'w daemon \<Rightarrow> bool" where
  "mounts_recorded s \<longleftrightarrow> trace_all (event_recorded (st_mounts s)) s"

lemma none_mounted_recorded: "none_mounted s \<Longrightarrow> mounts_recorded s"
proof -
  have "\<not> succeeded ev \<Longrightarrow> event_recorded tbl ev" for ev tbl by (cases ev) auto
  then show "none_mounted s \<Longrightarrow> mounts_recorded s"
    by (simp add: none_mounted_def mounts_recorded_def trace_all_def)
qed

lemma mount_steps_quiet:
  "keeps none_mounted (CreateAclMountPoint os lib cm)" "keeps none_mounted (CreateMountEndpoint os cm)"
  "keeps none_mounted (RemoveMountPoint os p)"
  unfolding none_mounted_def CreateAclMountPoint_def CreateMountEndpoint_def RemoveMountPoint_def
  by (intro keeps_rules; simp)+

lemma mount_steps_tables:
  "keeps (mounts_are t) (CreateAclMountPoint os lib cm)" "keeps (mounts_are t) (CreateMountEndpoint os cm)"
  "keeps (mounts_are t) (RemoveMountPoint os p)" "keeps (mounts_are t) (PerfomMount os cm)"
  unfolding CreateAclMountPoint_def CreateMountEndpoint_def RemoveMountPoint_def PerfomMount_def
    mount_call_def
  by (intro keeps_rules)+

lemma mount_call_run:
  "mount_call os d t fs fl data s =
     (let (r, w) = os_mount os d t fs fl data (st_world s) in
      (Ok r, s\<lparr>st_world := w, st_trace := EvMount d t fs fl data r # st_trace s\<rparr>))"
  by (simp add: mount_call_def split_beta)

text \<open>After the mount call, either nothing was mounted, or the call returns true and what was
  mounted is the device at the endpoint.\<close>

definition only_mounted :: "string \<Rightarrow> string \<Rightarrow> 'w daemon \<Rightarrow> bool" where
  "only_mounted d t = trace_all (\<lambda>ev. succeeded ev \<longrightarrow> (\<exists>fs fl data. ev = EvMount d t fs fl data 0))"

lemma none_only_mounted: "none_mounted s \<Longrightarrow> only_mounted d t s"
  by (auto simp: none_mounted_def only_mounted_def trace_all_def)

lemma PerfomMount_mounts:
  assumes "none_mounted s" and "PerfomMount os cm s = (r, s')"
  shows "none_mounted s' \<or>
    r = Ok True \<and> (\<exists>t. cm_end cm = Some t \<and> only_mounted (ud_block_name (cm_device cm)) t s')"
proof (cases "cm_end cm")
  case None
  with assms show ?thesis by (simp add: PerfomMount_def noexceptp_def)
next
  case (Some t)
  let ?d = "cm_device cm"
  let ?o = "SetMountOptions cm \<lparr>mo_flags = 0, mo_fs = ud_filesystem ?d, mo_data = [], mo_read_only = False\<rparr>"
  obtain x w1 where ex: "fio_exists os t (st_world s) = (x, w1)" by fastforce
  let ?s1 = "s\<lparr>st_world := w1\<rparr>"
  have n1: "none_mounted ?s1" using assms(1) by (simp add: none_mounted_def trace_all_def)
  show ?thesis
  proof (cases "x = Ok True")
    case False
    then have "snd (PerfomMount os cm s) = ?s1"
      using Some ex by (cases x) (auto simp: PerfomMount_def snd_noexceptp bindp_def on_world_def)
    with assms(2) n1 show ?thesis by simp
  next
    case True
    obtain r1 w2 where m1: "os_mount os (ud_block_name ?d) t (mo_fs ?o) (mo_flags ?o) (mo_data ?o) w1 = (r1, w2)"
      by fastforce
    let ?s2 = "?s1\<lparr>st_world := w2,
      st_trace := EvMount (ud_block_name ?d) t (mo_fs ?o) (mo_flags ?o) (mo_data ?o) r1 # st_trace s\<rparr>"
    obtain r2 w3 where m2: "os_mount os (ud_block_name ?d) t (mo_fs ?o)
        (or (mo_flags ?o) MS_RDONLY) (mo_data ?o) w2 = (r2, w3)" by fastforce
    let ?s3 = "?s2\<lparr>st_world := w3, st_trace := EvMount (ud_block_name ?d) t (mo_fs ?o)
        (or (mo_flags ?o) MS_RDONLY) (mo_data ?o) r2 # st_trace ?s2\<rparr>"
    have run: "PerfomMount os cm s = noexceptp (\<lambda>_.
        if r1 = 0 then (Ok True, ?s2)
        else if r2 = - 1 then bindp (RemoveMountPoint os t) (\<lambda>_. ret False) ?s3 else (Ok True, ?s3)) s"
      using Some ex True
      by (simp add: PerfomMount_def noexceptp_def bindp_def on_world_def mount_call_run Let_def m1 m2)
    show ?thesis
    proof (cases "r1 = 0")
      case True
      then have "r = Ok True" "s' = ?s2" using run assms(2) by (simp_all add: noexceptp_def)
      moreover have "only_mounted (ud_block_name ?d) t ?s2"
        using none_only_mounted [OF n1] True by (simp add: only_mounted_def trace_all_def)
      ultimately show ?thesis using Some by blast
    next
      case first: False
      show ?thesis
      proof (cases "r2 = - 1")
        case True
        then have "none_mounted ?s3"
          using n1 first by (simp add: none_mounted_def trace_all_def)
        moreover have "snd (PerfomMount os cm s) = snd (RemoveMountPoint os t ?s3)"
          using run first True
          by (auto simp: snd_noexceptp noexceptp_def bindp_def split: prod.splits outcome.splits failure.splits)
        ultimately have "none_mounted (snd (PerfomMount os cm s))"
          using keepsD [OF mount_steps_quiet(3)] by metis
        with assms(2) show ?thesis by simp
      next
        case False
        then have "r = Ok True" "s' = ?s3" using run first assms(2) by (simp_all add: noexceptp_def)
        moreover have "only_mounted (ud_block_name ?d) t ?s3"
          using none_only_mounted [OF n1] first by (auto simp: only_mounted_def trace_all_def)
        ultimately show ?thesis using Some by blast
      qed
    qed
  qed
qed

lemma Create_records:
  assumes "table_inv t" and "no_top_key (tbl_data t)"
  shows "\<exists>k. map_of (tbl_data (fst (snd (Mountpoints_Create io e (t, w))))) k = Some e"
proof (cases "e \<in> snd ` set (tbl_data t)")
  case True
  then obtain k where "(k, e) \<in> set (tbl_data t)" by auto
  then have "map_of (tbl_data t) k = Some e"
    using std_map.lookup_iff [OF table_invD(1) [OF assms(1)]] by simp
  with True show ?thesis using assms(1) by (auto simp: Mountpoints_Create_run)
next
  case False
  have key: "k' \<noteq> - 1" if "k' \<in> fst ` set (tbl_data t)" for k'
    using assms(2) that by (metis no_top_key_def)
  have "map_of (append_row e (tbl_data t)) (next_index (tbl_data t)) = Some e"
    using append_row_fresh [OF table_invD(1) [OF assms(1)] key] by (auto simp: map_add_def)
  with False show ?thesis
    using assms(1) by (auto simp: Mountpoints_Create_run commit_snd append_row_inv table_invD)
qed

lemma save_mount_records:
  assumes "table_inv (st_mounts s)" and "no_top_key (tbl_data (st_mounts s))"
    and "ud_block_name (cm_device cm) \<noteq> []" and "cm_end cm = Some t" and "t \<noteq> []"
    and "only_mounted (ud_block_name (cm_device cm)) t s"
  shows "mounts_recorded (snd (save_mount os cm s))"
proof -
  let ?e = "\<lparr>me_dev_name = ud_block_name (cm_device cm), me_mount_point = t,
    me_fs_type = ud_filesystem (cm_device cm)\<rparr>"
  let ?s = "snd (on_mounts (Mountpoints_Create os ?e) s)"
  have "MountEntry_of_params (ud_block_name (cm_device cm)) (value_or [] (cm_end cm))
      (ud_filesystem (cm_device cm)) = Ok ?e"
    using assms(3-5) by (simp add: MountEntry_of_params_def value_or_def)
  then have fin: "snd (save_mount os cm s) = ?s"
    by (auto simp: save_mount_def tryp_def split: prod.splits outcome.splits failure.splits)
  have tr: "st_trace ?s = st_trace s" by (simp add: on_mounts_def split_beta)
  obtain k where k: "map_of (tbl_data (st_mounts ?s)) k = Some ?e"
    using Create_records [OF assms(1,2), of os ?e "st_world s"]
    by (auto simp: on_mounts_def split_beta)
  have "event_recorded (st_mounts ?s) ev"
    if "succeeded ev \<longrightarrow> (\<exists>fs fl data. ev = EvMount (ud_block_name (cm_device cm)) t fs fl data 0)" for ev
    using that k by (cases ev) (auto intro!: exI [of _ k] exI [of _ ?e])
  then show ?thesis
    using assms(6) by (simp add: mounts_recorded_def trace_all_def only_mounted_def fin tr)
qed

lemma mount_tail_records:
  assumes "none_mounted s" and "table_inv (st_mounts s)" and "no_top_key (tbl_data (st_mounts s))"
    and "ud_block_name (cm_device cm) \<noteq> []" and "cm_end cm = Some t" and "t \<noteq> []"
  shows "mounts_recorded (snd (bindp (PerfomMount os cm) (\<lambda>mounted.
      if \<not> mounted then ret True else bindp (save_mount os cm) (\<lambda>_. ret True)) s))"
    (is "mounts_recorded (snd ?run)")
proof -
  obtain r s1 where c: "PerfomMount os cm s = (r, s1)" by fastforce
  have t: "st_mounts s1 = st_mounts s"
    using keepsE [OF mount_steps_tables(4) _ c, of "st_mounts s"] by (simp add: mounts_are_def)
  show ?thesis
  proof (cases "r = Ok True")
    case True
    then have "snd ?run = snd (save_mount os cm s1)"
      using c by (auto simp: bindp_def split: prod.splits outcome.splits)
    moreover have "only_mounted (ud_block_name (cm_device cm)) t s1"
      using PerfomMount_mounts [OF assms(1) c] none_only_mounted assms(5) by auto
    ultimately show ?thesis using save_mount_records [of s1 cm t os] assms t by simp
  next
    case False
    then have "snd ?run = s1" using c by (cases r) (auto simp: bindp_def)
    then show ?thesis
      using PerfomMount_mounts [OF assms(1) c] False none_mounted_recorded by auto
  qed
qed

lemma mount_for_records:
  assumes "none_mounted s" and "table_inv (st_mounts s)" and "no_top_key (tbl_data (st_mounts s))"
    and "ud_block_name (cm_device cm) \<noteq> []"
  shows "mounts_recorded (snd (mount_for os lib cm s))"
proof -
  obtain r1 s1 where c1: "CreateAclMountPoint os lib cm s = (r1, s1)" by fastforce
  have n1: "none_mounted s1" and t1: "mounts_are (st_mounts s) s1"
    using keepsE [OF mount_steps_quiet(1) assms(1) c1] keepsE [OF mount_steps_tables(1) _ c1]
    by (simp_all add: mounts_are_def)
  have endpoint: "mounts_recorded (snd (bindp (CreateMountEndpoint os cm1) (\<lambda>(ready, cm2).
      if \<not> ready then ret False
      else bindp (PerfomMount os cm2) (\<lambda>mounted.
        if \<not> mounted then ret True else bindp (save_mount os cm2) (\<lambda>_. ret True))) s1))"
    (is "mounts_recorded (snd ?run)") if d1: "cm_device cm1 = cm_device cm" for cm1
  proof -
    obtain r2 s2 where c2: "CreateMountEndpoint os cm1 s1 = (r2, s2)" by fastforce
    have n2: "none_mounted s2" and t2: "mounts_are (st_mounts s) s2"
      using keepsE [OF mount_steps_quiet(2) n1 c2] keepsE [OF mount_steps_tables(2) t1 c2] by blast+
    show ?thesis
    proof (cases "\<exists>cm2. r2 = Ok (True, cm2)")
      case True
      then obtain cm2 where r2: "r2 = Ok (True, cm2)" by blast
      obtain x where "cm_device cm2 = cm_device cm1" "cm_end cm2 = Some (value_or [] (cm_base cm1) @ ''/'' @ x)"
        using yieldsD [OF CreateMountEndpoint_yields c2 [unfolded r2]] by auto
      then show ?thesis
        using mount_tail_records [OF n2] t2 assms(2-4) d1 c2 r2 by (simp add: mounts_are_def)
    next
      case False
      then have "snd ?run = s2" using c2 by (cases r2) (auto simp: bindp_def split: prod.splits)
      then show ?thesis using none_mounted_recorded [OF n2] by simp
    qed
  qed
  show ?thesis
  proof (cases r1)
    case (Ok p)
    obtain made cm1 where p: "p = (made, cm1)" by fastforce
    have "cm_device cm1 = cm_device cm"
      using yieldsD [OF CreateAclMountPoint_yields c1 [unfolded Ok]] p by simp
    from endpoint [OF this] show ?thesis
      using none_mounted_recorded [OF n1] none_mounted_recorded [OF assms(1)] c1 Ok p
      by (auto simp: mount_for_def)
  next
    case (Fail f)
    then show ?thesis
      using none_mounted_recorded [OF n1] none_mounted_recorded [OF assms(1)] c1
      by (auto simp: mount_for_def)
  qed
qed

lemma mounts_inv_no_write: "perms_are p s \<Longrightarrow> mounts_are t s \<Longrightarrow> st_perms s = p \<and> st_mounts s = t"
  by (simp add: perms_are_def mounts_are_def)

lemma Find_Read_run:
  assumes "table_inv (st_perms s)"
  shows "on_perms (DevicePermissions_Find dev) s =
      (Ok (smap_find_key (\<lambda>p. pe_device p = dev) (tbl_data (st_perms s))), s)"
    "on_perms (DevicePermissions_Read k) s =
      (case map_of (tbl_data (st_perms s)) k of None \<Rightarrow> throws Invalid_argument | Some e \<Rightarrow> Ok e, s)"
  using assms
  by (simp_all add: on_perms_def DevicePermissions_Find_def DevicePermissions_Read_def Read_run
      Device_eq_iff)

text \<open>The ids that the changing calls of a mount are made with.\<close>

fun ids_of_rule :: "u32 \<Rightarrow> u32 \<Rightarrow> sysevent \<Rightarrow> bool" where
  "ids_of_rule u g (EvChown p u' g') \<longleftrightarrow> u' = u \<and> g' = g"
| "ids_of_rule u g (EvSetAcl p u' g') \<longleftrightarrow> u' = u \<and> g' = g"
| "ids_of_rule u g _ \<longleftrightarrow> True"

lemma CreateAclMountPoint_ids:
  "yields (\<lambda>(ok, cm'). cm_uid cm' = cm_uid cm \<and> cm_gid cm' = cm_gid cm) (CreateAclMountPoint os lib cm)"
  unfolding CreateAclMountPoint_def Let_def by (intro yields_rules; simp)

lemma mount_for_ids:
  assumes "cm_uid cm = Some u" and "cm_gid cm = Some g"
  shows "keeps (trace_all (ids_of_rule u g)) (mount_for os lib cm)"
proof -
  have a: "keeps (trace_all (ids_of_rule u g)) (CreateAclMountPoint os lib cm)"
    unfolding CreateAclMountPoint_def using assms
    by (intro keeps_rules; simp add: cm_uid_or_0_def cm_gid_or_0_def value_or_def)
  have e: "keeps (trace_all (ids_of_rule u g)) (CreateMountEndpoint os cm1)"
    if "cm_uid cm1 = cm_uid cm \<and> cm_gid cm1 = cm_gid cm" for cm1
    unfolding CreateMountEndpoint_def using assms that
    by (intro keeps_rules; simp add: cm_uid_or_0_def cm_gid_or_0_def value_or_def)
  have m: "keeps (trace_all (ids_of_rule u g)) (PerfomMount os cm2)" for cm2
    unfolding PerfomMount_def mount_call_def RemoveMountPoint_def by (intro keeps_rules; simp)
  have v: "keeps (trace_all (ids_of_rule u g)) (save_mount os cm2)" for cm2
    unfolding save_mount_def by (intro keeps_rules)
  show ?thesis
    unfolding mount_for_def
    by (intro keeps_if keeps_ret keeps_bindp_pair [OF a CreateAclMountPoint_ids]
        keeps_bindp [OF e] keeps_bindp [OF m] keeps_bindp [OF v] keeps_case_pair)
qed

section \<open>Properties\<close>

text \<open>
  C38: The search for a free directory always ends when the system refuses paths above some
  length (below \<open>2 ^ 31\<close>; \<^verbatim>\<open>PATH_MAX\<close> is 4096): from the tenth try on, every name is longer
  than the one before.
\<close>

theorem endpoint_search_ends:
  assumes "path_limit os n" and "n < 2 ^ 31"
  shows "\<exists>r. endpoint_loop os 0 endpoint w = Some r"
  using assms by (rule endpoint_loop_ends)

theorem endpoint_search_ends_witness:
  "\<exists>r. endpoint_loop ((sample_os JNull)\<lparr>fio_exists := \<lambda>p w. (Ok (length p \<le> 4096), w)\<rparr>) 0
     ''/media/alt-usb-mount/test_usb/STICK'' empty_world = Some r"
  by (rule endpoint_search_ends [where n = 4096]) (simp_all add: path_limit_def)

text \<open>
  The directory a device is mounted on is a direct child of the directory that the access
  control list protects: whatever the label of the file system says, the name appended to it is
  not empty and has no slash.
\<close>

theorem endpoint_is_child:
  assumes "CreateMountEndpoint os cm s = (Ok (True, cm'), s')"
  shows "\<exists>name. cm_end cm' = Some (value_or [] (cm_base cm) @ ''/'' @ name) \<and> name \<noteq> [] \<and>
    CHR ''/'' \<notin> set name"
  using yieldsD [OF CreateMountEndpoint_yields assms] by simp

definition sample_cm :: custom_mount where
  "sample_cm = (CustomMount sample_usb)\<lparr>cm_base := Some ''/media/alt-usb-mount/test_usb''\<rparr>"

lemma sample_endpoint:
  "\<exists>s'. CreateMountEndpoint (sample_os JNull) sample_cm (sample_daemon empty_world) =
     (Ok (True, sample_cm\<lparr>cm_end := Some ''/media/alt-usb-mount/test_usb/STICK''\<rparr>), s')"
  by (simp add: CreateMountEndpoint_def sample_cm_def CustomMount_def value_or_def endpoint_name_def
      sample_usb_def bindp_def on_world_def empty_world_def hangp_def
      endpoint_loop_step occupied_def tryp_def os_call_run)

theorem endpoint_is_child_witness:
  "\<exists>name. Some ''/media/alt-usb-mount/test_usb/STICK'' =
     Some (value_or [] (cm_base sample_cm) @ ''/'' @ name) \<and> name \<noteq> [] \<and> CHR ''/'' \<notin> set name"
proof -
  obtain s' where "CreateMountEndpoint (sample_os JNull) sample_cm (sample_daemon empty_world) =
     (Ok (True, sample_cm\<lparr>cm_end := Some ''/media/alt-usb-mount/test_usb/STICK''\<rparr>), s')"
    using sample_endpoint by blast
  from endpoint_is_child [OF this] show ?thesis by simp
qed



text \<open>
  A device that no rule of the table names is not mounted: the call gives false and makes
  no system call.
\<close>

theorem mount_needs_rule:
  assumes "table_inv (st_perms s)" and "Device_of_params (ud_vid d) (ud_pid d) (ud_serial d) = Ok dto"
    and "\<And>k e. map_of (tbl_data (st_perms s)) k = Some e \<Longrightarrow> pe_device e \<noteq> dto"
  shows "Mount os lib (CustomMount d) s = (Ok False, s)"
proof -
  have "smap_find_key (\<lambda>p. pe_device p = dto) (tbl_data (st_perms s)) = None"
    using std_map.find_key_None [OF table_invD(1) [OF assms(1)]] assms(3) by simp
  then show ?thesis
    by (simp add: Mount_def noexceptp_def bindp_def CustomMount_def assms(2)
        Find_Read_run(1) [OF assms(1)])
qed

theorem mount_needs_rule_witness:
  "Mount (sample_os JNull) list_libacl (CustomMount (sample_usb\<lparr>ud_serial := ''other''\<rparr>))
     (sample_daemon empty_world) = (Ok False, sample_daemon empty_world)"
proof (rule mount_needs_rule)
  show "table_inv (st_perms (sample_daemon empty_world))" by (simp add: sample_permissions_inv)
  show "Device_of_params (ud_vid (sample_usb\<lparr>ud_serial := ''other''\<rparr>))
      (ud_pid (sample_usb\<lparr>ud_serial := ''other''\<rparr>)) (ud_serial (sample_usb\<lparr>ud_serial := ''other''\<rparr>)) =
      Ok \<lparr>dev_vid = ''346d'', dev_pid = ''5678'', dev_serial = ''other''\<rparr>"
    by (simp add: sample_usb_def Device_of_params_def stoi_def scan_int_def is_space_def skip_sign_def
        skip_0x_def is_digit_def digit_value_def digits_value_def)
  fix k e
  assume "map_of (tbl_data (st_perms (sample_daemon empty_world))) k = Some e"
  then show "pe_device e \<noteq> \<lparr>dev_vid = ''346d'', dev_pid = ''5678'', dev_serial = ''other''\<rparr>"
    by (auto simp: sample_permissions_def sample_permission_def split: if_splits)
qed

text \<open>
  A device whose identifiers are not hexadecimal numbers ends the whole daemon, because the
  exception of the device's constructor leaves the \<^verbatim>\<open>noexcept\<close> function \<^verbatim>\<open>Mount\<close>.
\<close>

theorem mount_bad_identifier_terminates:
  assumes "Device_of_params (ud_vid d) (ud_pid d) (ud_serial d) = throws e"
  shows "Mount os lib (CustomMount d) s = (Fail Terminated, s)"
  using assms by (simp add: Mount_def noexceptp_def bindp_def CustomMount_def)

theorem mount_bad_identifier_terminates_witness:
  "Mount (sample_os JNull) list_libacl (CustomMount (sample_usb\<lparr>ud_vid := []\<rparr>)) (sample_daemon empty_world)
   = (Fail Terminated, sample_daemon empty_world)"
  by (rule mount_bad_identifier_terminates [where e = Invalid_argument])
    (simp add: Device_of_params_def)


lemma sample_usb_device:
  "Device_of_params (ud_vid sample_usb) (ud_pid sample_usb) (ud_serial sample_usb) =
     Ok (pe_device sample_permission)"
  by (simp add: sample_usb_def sample_permission_def Device_of_params_def stoi_def scan_int_def
      is_space_def skip_sign_def skip_0x_def is_digit_def digit_value_def digits_value_def)


text \<open>
  C13: Whatever is mounted is remembered: after \<^verbatim>\<open>Mount\<close>, every mount call that succeeded has
  a row with its device and its directory in the table of mount points, also when writing the
  file of the table failed.
\<close>

theorem mount_is_recorded:
  assumes "daemon_inv s" and "no_top_key (tbl_data (st_mounts s))" and "st_trace s = []"
    and "ud_block_name d \<noteq> []"
  shows "mounts_recorded (snd (Mount os lib (CustomMount d) s))"
proof -
  have none: "none_mounted s" by (simp add: none_mounted_def trace_all_def assms(3))
  have inv: "table_inv (st_perms s)" "table_inv (st_mounts s)"
    using assms(1) by (simp_all add: daemon_inv_def mounts_inv_def)
  have mf: "mounts_recorded (snd (mount_for os lib ((CustomMount d)\<lparr>cm_uid := u, cm_gid := g\<rparr>) s))" for u g
    by (rule mount_for_records [OF none inv(2) assms(2)]) (simp add: CustomMount_def assms(4))
  show ?thesis
    using mf none_mounted_recorded [OF none]
    by (auto simp: Mount_def snd_noexceptp bindp_def Find_Read_run [OF inv(1)]
        split: outcome.splits option.splits list.splits)
qed

theorem mount_is_recorded_witness:
  "mounts_recorded (snd (Mount (sample_os JNull) list_libacl (CustomMount sample_usb)
     (sample_daemon empty_world)))"
  by (rule mount_is_recorded)
    (simp_all add: no_top_key_def sample_mounts_data sample_usb_def)

section \<open>Unmounting\<close>

text \<open>Calls that return or throw, and never hang or end the process.\<close>

definition returns :: "('s, 'a) prog \<Rightarrow> bool" where
  "returns m \<longleftrightarrow> (\<forall>s. case fst (m s) of Ok _ \<Rightarrow> True | Fail (Exc _) \<Rightarrow> True | Fail _ \<Rightarrow> False)"

lemma returnsE:
  assumes "returns m"
  obtains a t where "m s = (Ok a, t)" | e t where "m s = (throws e, t)"
proof -
  obtain r t where rt: "m s = (r, t)" by fastforce
  have ok: "case r of Ok _ \<Rightarrow> True | Fail (Exc _) \<Rightarrow> True | Fail _ \<Rightarrow> False"
    using assms rt unfolding returns_def by (metis fst_conv)
  show thesis
  proof (cases r)
    case (Ok a)
    with rt that(1) show ?thesis by simp
  next
    case (Fail f)
    with ok obtain e where "f = Exc e" by (cases f) auto
    with rt Fail that(2) show ?thesis by simp
  qed
qed

definition fs_returns :: "'w os \<Rightarrow> bool" where
  "fs_returns os \<longleftrightarrow> (\<forall>p. returns (os_is_empty os p) \<and> returns (os_remove os p))"

lemma returns_on_world: "returns m \<Longrightarrow> returns (on_world m)"
  by (simp add: returns_def on_world_run)

lemma RemoveMountPoint_ok:
  assumes "fs_returns os"
  shows "\<exists>s'. RemoveMountPoint os p s = (Ok (), s') \<and> st_mounts s' = st_mounts s"
proof -
  have r: "returns (os_is_empty os p)" "returns (os_remove os p)"
    using assms by (simp_all add: fs_returns_def)
  have "\<exists>s'. RemoveMountPoint os p s = (Ok (), s')"
  proof (rule returnsE [OF r(1), of "st_world s"])
    fix e w
    assume e: "os_is_empty os p (st_world s) = (Ok e, w)"
    show ?thesis
      by (rule returnsE [OF r(2), of w]; cases e)
        (use e in \<open>simp_all add: RemoveMountPoint_def noexceptp_def tryp_def bindp_def on_world_def\<close>)
  next
    fix e w
    assume "os_is_empty os p (st_world s) = (throws e, w)"
    then show ?thesis
      by (simp add: RemoveMountPoint_def noexceptp_def tryp_def bindp_def on_world_def)
  qed
  then obtain s' where run: "RemoveMountPoint os p s = (Ok (), s')" by blast
  have "mounts_are (st_mounts s) s'"
    by (rule keepsE [OF mount_steps_tables(3) _ run]) (simp add: mounts_are_def)
  with run show ?thesis by (simp add: mounts_are_def)
qed

lemma forget_mount_rows:
  assumes "mounts_inv (st_mounts s)" and "fs_returns os" and "dev \<noteq> []" and "mp \<noteq> []"
    and "e = \<lparr>me_dev_name = dev, me_mount_point = mp, me_fs_type = fs\<rparr>"
  shows "\<exists>s'. tryp (forget_mount os dev mp fs) (ret ()) s = (Ok (), s') \<and>
    (\<forall>k x. map_of (tbl_data (st_mounts s')) k = Some x \<longleftrightarrow>
       map_of (tbl_data (st_mounts s)) k = Some x \<and> x \<noteq> e)"
proof -
  let ?m = "tbl_data (st_mounts s)"
  have inv: "table_inv (st_mounts s)" and dist: "distinct (map snd ?m)"
    using assms(1) by (simp_all add: mounts_inv_def)
  note sm = table_invD(1) [OF inv]
  have entry: "MountEntry_of_params dev mp fs = Ok e"
    using assms(3-5) by (simp add: MountEntry_of_params_def)
  have find: "on_mounts (Mountpoints_Find_entry e) s = (Ok (smap_find_key (\<lambda>x. x = e) ?m), s)"
    by (rule on_mounts_pure) (simp add: Mountpoints_Find_entry_run [OF inv])
  show ?thesis
  proof (cases "smap_find_key (\<lambda>x. x = e) ?m")
    case None
    then have "map_of ?m k = Some x \<longrightarrow> x \<noteq> e" for k x
      using std_map.find_key_None [OF sm, of "\<lambda>x. x = e"] by blast
    then show ?thesis
      using None assms(4) by (auto simp: forget_mount_def tryp_def bindp_def entry find)
  next
    case (Some i)
    have i: "map_of ?m i = Some e" using std_map.find_key_least [OF sm Some] by blast
    have only: "k = i" if "map_of ?m k = Some e" for k
    proof -
      have "(k, e) \<in> set ?m" "(i, e) \<in> set ?m"
        using that i std_map.lookup_iff [OF sm] by blast+
      with dist show ?thesis by (metis distinct_map inj_onD prod.inject snd_conv)
    qed
    obtain s1 where rm: "RemoveMountPoint os mp s = (Ok (), s1)" "st_mounts s1 = st_mounts s"
      using RemoveMountPoint_ok [OF assms(2)] by blast
    let ?t = "(st_mounts s)\<lparr>tbl_data := smap_erase i ?m\<rparr>"
    have it: "table_inv ?t" using inv by (simp add: smap_inv_erase sm)
    obtain r w where c: "commit os MountEntry_to_json (?t, st_world s1) = (r, (?t, w))"
      "r = Ok () \<or> r = throws Runtime_error"
      using commit_table [OF it] by (metis prod.collapse)
    then have "on_mounts (Mountpoints_Delete os i) s1 = (r, s1\<lparr>st_mounts := ?t, st_world := w\<rparr>)"
      by (simp add: on_mounts_def rm(2) Mountpoints_Delete_def Delete_run [OF inv])
    then have "tryp (forget_mount os dev mp fs) (ret ()) s = (Ok (), s1\<lparr>st_mounts := ?t, st_world := w\<rparr>)"
      using assms(4) c(2) by (auto simp: forget_mount_def tryp_def bindp_def entry find Some rm(1))
    moreover have "map_of (tbl_data ?t) k = Some x \<longleftrightarrow> map_of ?m k = Some x \<and> x \<noteq> e" for k x
    proof (cases "k = i")
      case False
      then have "map_of ?m k = Some x \<Longrightarrow> x \<noteq> e" using only by blast
      with False show ?thesis by (auto simp: map_of_smap_erase)
    qed (simp add: map_of_smap_erase i)
    ultimately show ?thesis by auto
  qed
qed

text \<open>
  Unmounting a device that the system lists as mounted unmounts it where the first line of
  the list says. When the system refuses, the call gives false and the table keeps every row;
  when it agrees, the call gives true and exactly the row of this mount is gone.
\<close>

theorem unmount_forgets_row:
  assumes "mounts_inv (st_mounts s)" and "fs_returns os" and "ud_block_name d \<noteq> []"
    and "os_mtab os (st_world s) = (Some es, w1)"
    and "find (\<lambda>e. mnt_fsname e = ud_block_name d) es = Some ent" and "mnt_dir ent \<noteq> []"
    and "os_umount2 os (mnt_dir ent) w1 = (res, w2)"
  shows "\<exists>s'. UnMount os d s = (Ok (res = 0), s') \<and>
    (\<forall>k x. map_of (tbl_data (st_mounts s')) k = Some x \<longleftrightarrow>
       map_of (tbl_data (st_mounts s)) k = Some x \<and>
       (res = 0 \<longrightarrow> x \<noteq> \<lparr>me_dev_name = ud_block_name d, me_mount_point = mnt_dir ent,
                       me_fs_type = stored_type (mnt_type ent)\<rparr>))"
proof -
  let ?s = "s\<lparr>st_world := w2, st_trace := EvUmount (mnt_dir ent) res # st_trace s\<rparr>"
  have run: "UnMount os d s = noexceptp (\<lambda>_. if res = 0
      then bindp (tryp (forget_mount os (ud_block_name d) (mnt_dir ent) (stored_type (mnt_type ent)))
             (ret ())) (\<lambda>_. ret True) ?s
      else (Ok False, ?s)) s"
    using assms(4-7) by (simp add: UnMount_def noexceptp_def Let_def bindp_def os_call_run)
  show ?thesis
  proof (cases "res = 0")
    case True
    obtain s' where f: "tryp (forget_mount os (ud_block_name d) (mnt_dir ent) (stored_type (mnt_type ent)))
          (ret ()) ?s = (Ok (), s')"
      "\<forall>k x. map_of (tbl_data (st_mounts s')) k = Some x \<longleftrightarrow>
         map_of (tbl_data (st_mounts ?s)) k = Some x \<and>
         x \<noteq> \<lparr>me_dev_name = ud_block_name d, me_mount_point = mnt_dir ent,
               me_fs_type = stored_type (mnt_type ent)\<rparr>"
      using forget_mount_rows [where s = ?s and fs = "stored_type (mnt_type ent)",
          OF _ assms(2,3,6) refl] assms(1) by auto
    then have "UnMount os d s = (Ok True, s')"
      using run True by (simp add: noexceptp_def bindp_def)
    with f(2) True show ?thesis by simp
  next
    case False
    then show ?thesis using run by (simp add: noexceptp_def)
  qed
qed

definition mounted_world :: sample_world where
  "mounted_world = empty_world\<lparr>sw_mtab :=
     Some [\<lparr>mnt_fsname = ''/dev/sda1'', mnt_dir = ''/mount1'', mnt_type = ''ntfs3''\<rparr>]\<rparr>"

lemma sample_fs_returns: "fs_returns (sample_os j)"
  by (simp add: fs_returns_def returns_def)

theorem unmount_forgets_row_witness:
  "\<exists>s'. UnMount (sample_os JNull) (blank_device\<lparr>ud_block_name := ''/dev/sda1''\<rparr>)
      (sample_daemon mounted_world) = (Ok True, s') \<and>
    map_of (tbl_data (st_mounts s')) 3 = None"
proof -
  obtain s' where "UnMount (sample_os JNull) (blank_device\<lparr>ud_block_name := ''/dev/sda1''\<rparr>)
      (sample_daemon mounted_world) = (Ok ((0::int) = 0), s')"
    and rows: "\<forall>k x. map_of (tbl_data (st_mounts s')) k = Some x \<longleftrightarrow>
       map_of (tbl_data sample_mounts) k = Some x \<and>
       ((0::int) = 0 \<longrightarrow> x \<noteq> \<lparr>me_dev_name = ''/dev/sda1'', me_mount_point = ''/mount1'',
                       me_fs_type = stored_type ''ntfs3''\<rparr>)"
    using unmount_forgets_row [where s = "sample_daemon mounted_world" and os = "sample_os JNull"
        and d = "blank_device\<lparr>ud_block_name := ''/dev/sda1''\<rparr>"
        and es = "[\<lparr>mnt_fsname = ''/dev/sda1'', mnt_dir = ''/mount1'', mnt_type = ''ntfs3''\<rparr>]"
        and ent = "\<lparr>mnt_fsname = ''/dev/sda1'', mnt_dir = ''/mount1'', mnt_type = ''ntfs3''\<rparr>"
        and res = 0 and ?w1.0 = mounted_world and ?w2.0 = "mounted_world\<lparr>sw_mtab := Some []\<rparr>"]
    by (auto simp: sample_mounts_inv sample_fs_returns mounted_world_def)
  have "map_of (tbl_data (st_mounts s')) 3 \<noteq> Some x" for x
    using rows by (auto simp: sample_mounts_data sample_mount_def stored_type_def)
  then have "map_of (tbl_data (st_mounts s')) 3 = None"
    by (cases "map_of (tbl_data (st_mounts s')) 3") auto
  with \<open>UnMount _ _ _ = _\<close> show ?thesis by auto
qed

end
