(* ===== verification/Udev_Monitor.thy ===== *)
theory Udev_Monitor
  imports Custom_Mount
begin

text \<open>
  \<^verbatim>\<open>daemon/udev_monitor.hpp\<close> and \<^verbatim>\<open>udev_monitor.cpp\<close>: the thread that follows the events
  of udev, mounts and unmounts devices and reviews the tables. The answers of \<^verbatim>\<open>select\<close> until
  a stop is requested are a list, the input of the loop. The review that the loop starts with
  \<^verbatim>\<open>std::async\<close> is run to its end where it is started.
\<close>

section \<open>Operations\<close>

text \<open>As in the search by node, an entry that cannot be opened is retried; so is a device whose
  constructor throws.\<close>

partial_function (option) connected_loop ::
  "'w os \<Rightarrow> string option list \<Rightarrow> UsbUdevDevice list \<Rightarrow> 'w \<Rightarrow> (UsbUdevDevice list outcome \<times> 'w) option"
where
  "connected_loop os entries res w =
     (case entries of
        [] \<Rightarrow> Some (Ok res, w)
      | e # rest \<Rightarrow>
          (case e of
             None \<Rightarrow> connected_loop os entries res w
           | Some path \<Rightarrow>
               (case os_udev_from_syspath os path w of
                  (dev, w') \<Rightarrow>
                    (case dev of
                       None \<Rightarrow> connected_loop os entries res w'
                     | Some d \<Rightarrow>
                         (case UsbUdevDevice_of_udev d of
                            Fail f \<Rightarrow> connected_loop os entries res w'
                          | Ok x \<Rightarrow> connected_loop os rest (res @ [x]) w')))))"

definition GetConnectedDevices :: "'w os \<Rightarrow> ('w, UsbUdevDevice list) prog" where
  "GetConnectedDevices os = (\<lambda>w.
     case os_udev_scan os w of
       (None, w') \<Rightarrow> (Ok [], w')
     | (Some entries, w') \<Rightarrow> hangp (connected_loop os entries []) w')"

text \<open>One row of the table: its device is unmounted when it is not present.\<close>

definition review_row :: "'w os \<Rightarrow> string list \<Rightarrow> MountEntry \<Rightarrow> ('w, unit) dprog" where
  "review_row os present mountpoint =
     (if me_dev_name mountpoint \<in> set present then ret ()
      else tryp
        (bindp (on_world (UsbUdevDevice_of_params os (me_dev_name mountpoint) ''remove'')) (\<lambda>device.
         bindp (UnMount os device) (\<lambda>_. ret ())))
        (ret ()))"

definition ReviewConnectedDevices :: "'w os \<Rightarrow> ('w, unit) dprog" where
  "ReviewConnectedDevices os = noexceptp
     (bindp (ReviewMountPoints os) (\<lambda>_.
      bindp (on_world (GetConnectedDevices os)) (\<lambda>device_objects.
      bindp (on_mounts Mountpoints_GetAll) (\<lambda>mountpoints.
      foreach (review_row os (map ud_block_name device_objects)) mountpoints))))"

definition fs_is_unsupported :: "UsbUdevDevice \<Rightarrow> bool" where
  "fs_is_unsupported d \<longleftrightarrow> ud_filesystem d = [] \<or> ud_filesystem d = ''jfs'' \<or>
     ud_filesystem d = ''LVM2_member''"

definition ProcessDevice ::
  "'w os \<Rightarrow> ('w, 'a) libacl \<Rightarrow> UsbUdevDevice option \<Rightarrow> ('w, unit) dprog" where
  "ProcessDevice os lib device = noexceptp
     (case device of
        None \<Rightarrow> ret ()
      | Some d \<Rightarrow>
          bindp (liftO (Device_of_params (ud_vid d) (ud_pid d) (ud_serial d))) (\<lambda>dto.
          bindp (on_perms (DevicePermissions_Find dto)) (\<lambda>rule.
          bindp (on_mounts (Mountpoints_Find_dev (ud_block_name d))) (\<lambda>row.
          let known_device_was_added = (rule \<noteq> None \<and> ud_action d = KAdd);
              device_was_mounted = (row \<noteq> None);
              device_removed_and_was_mounted = (device_was_mounted \<and> ud_action d = KRemove)
          in if (known_device_was_added \<or> device_removed_and_was_mounted) \<and> \<not> fs_is_unsupported d
             then MountDevice os lib d
             else if ud_action d = KChange \<and> device_was_mounted
             then bindp (ReviewMountPoints os) (\<lambda>_. ret ())
             else ret ()))))"

definition RecieveDevice :: "'w os \<Rightarrow> ('w, UsbUdevDevice option) dprog" where
  "RecieveDevice os =
     bindp (os_call (os_udev_receive os)) (\<lambda>dev. case dev of
       None \<Rightarrow> ret None
     | Some d \<Rightarrow> ret (case UsbUdevDevice_of_udev d of Ok x \<Rightarrow> Some x | Fail f \<Rightarrow> None))"

definition ProcessEvent :: "'w os \<Rightarrow> ('w, 'a) libacl \<Rightarrow> ('w, unit) dprog" where
  "ProcessEvent os lib = noexceptp (bindp (RecieveDevice os) (ProcessDevice os lib))"

definition apply_rule :: "'w os \<Rightarrow> ('w, 'a) libacl \<Rightarrow> UsbUdevDevice \<Rightarrow> ('w, unit) dprog" where
  "apply_rule os lib dev =
     (let device = SetAction (Some ''add'') dev in
      bindp (GetSystemMountedDevices os) (\<lambda>mounted.
        if ud_block_name device \<notin> set mounted then ProcessDevice os lib (Some device) else ret ()))"

definition ApplyMountRulesIfNotMounted :: "'w os \<Rightarrow> ('w, 'a) libacl \<Rightarrow> ('w, unit) dprog" where
  "ApplyMountRulesIfNotMounted os lib = noexceptp
     (bindp (on_world (GetConnectedDevices os)) (foreach (apply_rule os lib)))"

text \<open>The answers of \<^verbatim>\<open>select\<close>: an error, a second without an event, or a ready descriptor
  (true when it is the one of the monitor).\<close>

datatype select_result = Select_error | Select_timeout | Select_ready bool

fun monitor_loop ::
  "'w os \<Rightarrow> ('w, 'a) libacl \<Rightarrow> select_result list \<Rightarrow> u64 \<Rightarrow> ('w, unit) dprog" where
  "monitor_loop os lib [] counter = ret ()"
| "monitor_loop os lib (Select_error # rest) counter = monitor_loop os lib rest counter"
| "monitor_loop os lib (Select_timeout # rest) counter =
     (if 600 \<le> counter + 1
      then bindp (ReviewConnectedDevices os) (\<lambda>_. monitor_loop os lib rest 0)
      else monitor_loop os lib rest (counter + 1))"
| "monitor_loop os lib (Select_ready mine # rest) counter =
     (if mine then bindp (ProcessEvent os lib) (\<lambda>_. monitor_loop os lib rest counter)
      else monitor_loop os lib rest counter)"

definition Run :: "'w os \<Rightarrow> ('w, 'a) libacl \<Rightarrow> select_result list \<Rightarrow> ('w, unit) dprog" where
  "Run os lib answers = noexceptp
     (bindp (ReviewConnectedDevices os) (\<lambda>_.
      bindp (ApplyMountRulesIfNotMounted os lib) (\<lambda>_.
      monitor_loop os lib answers 0)))"

section \<open>The tables stay consistent\<close>

lemma daemon_inv_RemoveMountPoint [keeps_rules]: "keeps daemon_inv (RemoveMountPoint os p)"
  unfolding RemoveMountPoint_def by (intro keeps_rules)

lemma daemon_inv_Mount [keeps_rules]: "keeps daemon_inv (Mount os lib cm)"
proof -
  have "keeps daemon_inv (mount_for os lib cm')" for cm'
    unfolding mount_for_def CreateAclMountPoint_def CreateMountEndpoint_def PerfomMount_def
      mount_call_def save_mount_def by (intro keeps_rules)
  then show ?thesis
    unfolding Mount_def by (intro keeps_rules) (auto split: list.splits intro: keeps_rules)
qed

lemma daemon_inv_UnMount [keeps_rules]: "keeps daemon_inv (UnMount os d)"
  unfolding UnMount_def forget_mount_def by (intro keeps_rules)

lemma daemon_inv_MountDevice [keeps_rules]: "keeps daemon_inv (MountDevice os lib d)"
  unfolding MountDevice_def by (intro keeps_rules)

lemma daemon_inv_ReviewMountPoints [keeps_rules]: "keeps daemon_inv (ReviewMountPoints os)"
  unfolding ReviewMountPoints_def GetSystemMountPoints_def review_folder_def review_sub_def
  by (intro keeps_rules)

lemma daemon_inv_ReviewConnectedDevices [keeps_rules]: "keeps daemon_inv (ReviewConnectedDevices os)"
  unfolding ReviewConnectedDevices_def review_row_def by (intro keeps_rules)

lemma daemon_inv_ProcessDevice [keeps_rules]: "keeps daemon_inv (ProcessDevice os lib d)"
  unfolding ProcessDevice_def by (intro keeps_rules)

lemma daemon_inv_ProcessEvent [keeps_rules]: "keeps daemon_inv (ProcessEvent os lib)"
  unfolding ProcessEvent_def RecieveDevice_def by (intro keeps_rules)

lemma daemon_inv_ApplyMountRules [keeps_rules]: "keeps daemon_inv (ApplyMountRulesIfNotMounted os lib)"
  unfolding ApplyMountRulesIfNotMounted_def apply_rule_def GetSystemMountedDevices_def
  by (intro keeps_rules)

lemma keeps_monitor_loop:
  assumes "keeps P (ReviewConnectedDevices os)" and "keeps P (ProcessEvent os lib)"
  shows "keeps P (monitor_loop os lib answers counter)"
proof (induction answers arbitrary: counter)
  case Nil
  then show ?case unfolding monitor_loop.simps by (intro keeps_rules)
next
  case (Cons a answers)
  then show ?case using assms
    by (cases a) (simp_all only: monitor_loop.simps keeps_if keeps_bindp)
qed

lemmas daemon_inv_monitor_loop [keeps_rules] =
  keeps_monitor_loop [OF daemon_inv_ReviewConnectedDevices daemon_inv_ProcessEvent]

lemma daemon_inv_Run: "keeps daemon_inv (Run os lib answers)"
  unfolding Run_def by (intro keeps_rules)

section \<open>The list of connected devices\<close>

lemma connected_loop_stuck:
  assumes "os_udev_from_syspath os path = (\<lambda>w. (Some d, w))" and "UsbUdevDevice_of_udev d = Fail f"
  shows "connected_loop os (Some path # rest) res w = None"
proof -
  have "os_udev_from_syspath os path = (\<lambda>w. (Some d, w)) \<longrightarrow> entries \<noteq> Some path # rest"
    if "connected_loop os entries res w = Some r" for os :: "'a os" and entries res w r
    using that
    by (rule connected_loop.raw_induct [rotated])
      (auto simp: assms(2) split: list.splits option.splits prod.splits outcome.splits, blast)
  with assms(1) show ?thesis
    by (cases "connected_loop os (Some path # rest) res w") blast+
qed

text \<open>Every device of the enumeration opens and has a successful constructor.\<close>

definition constructible :: "'w os \<Rightarrow> (string \<times> UsbUdevDevice) list \<Rightarrow> bool" where
  "constructible os devs \<longleftrightarrow> (\<forall>(path, x) \<in> set devs. \<forall>w. \<exists>d.
     fst (os_udev_from_syspath os path w) = Some d \<and> UsbUdevDevice_of_udev d = Ok x)"

lemma connected_loop_prefix:
  assumes "constructible os devs"
  shows "\<exists>w'. connected_loop os (map (\<lambda>(p, x). Some p) devs @ rest) res w =
    connected_loop os rest (res @ map snd devs) w'"
  using assms
proof (induction devs arbitrary: res w)
  case (Cons y devs)
  obtain p x where y: "y = (p, x)" by (cases y)
  have "\<forall>w. \<exists>d. fst (os_udev_from_syspath os p w) = Some d \<and> UsbUdevDevice_of_udev d = Ok x"
    using Cons.prems y by (simp add: constructible_def)
  then obtain d where d: "fst (os_udev_from_syspath os p w) = Some d" "UsbUdevDevice_of_udev d = Ok x"
    by blast
  then obtain w' where o: "os_udev_from_syspath os p w = (Some d, w')"
    by (cases "os_udev_from_syspath os p w") auto
  have "constructible os devs" using Cons.prems by (simp add: constructible_def)
  from Cons.IH [OF this, of "res @ [x]" w'] show ?case
    by (subst connected_loop.simps) (auto simp: y o d(2))
qed auto

lemma connected_loop_ends:
  assumes "constructible os devs"
  shows "\<exists>w'. connected_loop os (map (\<lambda>(p, x). Some p) devs) res w = Some (Ok (res @ map snd devs), w')"
  using connected_loop_prefix [OF assms, of "[]" res w] by (simp add: connected_loop.simps [of os "[]"])

section \<open>Properties\<close>

text \<open>
  Nothing the monitor does breaks the tables: for every sequence of answers of the system
  and every sequence of events, the keys of both tables stay in order, the locks stay consistent
  with the transaction flag and no mount point is stored twice, whether the thread goes on, ends
  or hangs.
\<close>

theorem monitor_keeps_tables:
  assumes "daemon_inv s"
  shows "daemon_inv (snd (Run os lib answers s))"
  using daemon_inv_Run assms by (rule keepsD)

theorem monitor_keeps_tables_witness:
  "daemon_inv (snd (Run (sample_os JNull) list_libacl [Select_timeout, Select_ready True]
     (sample_daemon sample_dev_world)))"
  by (rule monitor_keeps_tables) simp

text \<open>No mount is made.\<close>

fun no_mount :: "sysevent \<Rightarrow> bool" where
  "no_mount (EvMount d t fs fl data r) \<longleftrightarrow> False"
| "no_mount _ \<longleftrightarrow> True"

lemma no_mount_UnMount [keeps_rules]: "keeps (trace_all no_mount) (UnMount os d)"
  unfolding UnMount_def forget_mount_def RemoveMountPoint_def by (intro keeps_rules; simp)

lemma no_mount_ReviewMountPoints [keeps_rules]: "keeps (trace_all no_mount) (ReviewMountPoints os)"
  unfolding ReviewMountPoints_def GetSystemMountPoints_def review_folder_def review_sub_def
  by (intro keeps_rules; simp)

lemma no_mount_ReviewConnectedDevices [keeps_rules]:
  "keeps (trace_all no_mount) (ReviewConnectedDevices os)"
  unfolding ReviewConnectedDevices_def review_row_def by (intro keeps_rules)

definition has_rule :: "UsbUdevDevice \<Rightarrow> PermissionEntry table \<Rightarrow> bool" where
  "has_rule d t \<longleftrightarrow> (\<exists>dto k e. Device_of_params (ud_vid d) (ud_pid d) (ud_serial d) = Ok dto \<and>
     map_of (tbl_data t) k = Some e \<and> pe_device e = dto)"

text \<open>
  C30: An event makes the daemon mount nothing unless it adds a device that a rule of the table
  names and whose file system is known and supported.
\<close>

theorem event_mounts_only_known_device:
  assumes "table_inv (st_perms s)" and "table_inv (st_mounts s)" and quiet: "trace_all no_mount s"
    and no: "\<not> (ud_action d = KAdd \<and> has_rule d (st_perms s) \<and> \<not> fs_is_unsupported d)"
  shows "trace_all no_mount (snd (ProcessDevice os lib (Some d) s))"
proof (rule ccontr)
  assume mounted: "\<not> trace_all no_mount (snd (ProcessDevice os lib (Some d) s))"
  show False
  proof (cases "Device_of_params (ud_vid d) (ud_pid d) (ud_serial d)")
    case (Fail f)
    then show False
      using mounted quiet by (auto simp: ProcessDevice_def snd_noexceptp)
  next
    case (Ok dto)
    let ?rule = "smap_find_key (\<lambda>p. pe_device p = dto) (tbl_data (st_perms s))"
    let ?row = "smap_find_key (\<lambda>e. me_dev_name e = ud_block_name d) (tbl_data (st_mounts s))"
    have find_row: "on_mounts (Mountpoints_Find_dev (ud_block_name d)) s = (Ok ?row, s)"
      by (rule on_mounts_pure) (simp add: Mountpoints_Find_dev_run [OF assms(2)])
    have known: "has_rule d (st_perms s)" if "?rule = Some k" for k
      using std_map.find_key_least [OF table_invD(1) [OF assms(1)] that] Ok
      by (auto simp: has_rule_def)
    define act where "act = (if (?rule \<noteq> None \<and> ud_action d = KAdd \<or> ?row \<noteq> None \<and> ud_action d = KRemove)
        \<and> \<not> fs_is_unsupported d then MountDevice os lib d
      else if ud_action d = KChange \<and> ?row \<noteq> None then bindp (ReviewMountPoints os) (\<lambda>_. ret ())
      else ret ())"
    have run: "snd (ProcessDevice os lib (Some d) s) = snd (act s)"
      using Ok find_row by (simp add: ProcessDevice_def snd_noexceptp bindp_def
          Find_Read_run(1) [OF assms(1)] Let_def act_def del: not_None_eq)
    have "keeps (trace_all no_mount) (MountDevice os lib d)" if "ud_action d \<noteq> KAdd"
      using that unfolding MountDevice_def by (auto intro!: keeps_rules)
    then have "keeps (trace_all no_mount) act"
      using no known unfolding act_def by (auto intro!: keeps_rules)
    then have "trace_all no_mount (snd (act s))" using quiet by (rule keepsD)
    then show False using run mounted by simp
  qed
qed

theorem event_mounts_only_known_device_witness:
  "trace_all no_mount (snd (ProcessDevice (sample_os JNull) list_libacl
     (Some (sample_usb\<lparr>ud_filesystem := ''jfs''\<rparr>)) (sample_daemon empty_world)))"
  by (rule event_mounts_only_known_device)
    (simp_all add: sample_permissions_inv fs_is_unsupported_def trace_all_def sample_mounts_inv [unfolded mounts_inv_def])

text \<open>
  A connected device that udev lists but whose constructor throws (a partition number that
  is no number, for instance) makes the daemon hang at its start: the loop over the devices
  retries it for ever.
\<close>

theorem connected_devices_hang:
  assumes "os_udev_scan os w = (Some (map (\<lambda>(p, x). Some p) devs @ Some path # rest), w')"
    and "constructible os devs" and "os_udev_from_syspath os path = (\<lambda>w. (Some d, w))"
    and "UsbUdevDevice_of_udev d = Fail f"
  shows "fst (GetConnectedDevices os w) = Fail Hangs"
proof -
  have "connected_loop os (map (\<lambda>(p, x). Some p) devs @ Some path # rest) [] w' = None"
    using connected_loop_prefix [OF assms(2), of "Some path # rest" "[]" w']
      connected_loop_stuck [OF assms(3,4)] by auto
  with assms(1) show ?thesis by (simp add: GetConnectedDevices_def hangp_def)
qed

definition bad_udev :: udev_device where
  "bad_udev = UdevDevice [(''SUBSYSTEM'', ''block''), (''ID_BUS'', ''usb'')] [] None None"

lemma bad_udev_throws: "UsbUdevDevice_of_udev bad_udev = throws Logic_error"
  by (simp add: UsbUdevDevice_of_udev_def getUdevDeviceInfo_def from_property_def udev_property_def
      bad_udev_def SetAction_def blank_device_def)

theorem connected_devices_hang_witness:
  "fst (GetConnectedDevices ((sample_os JNull)
      \<lparr>os_udev_scan := \<lambda>w. (Some [Some ''/sys/bad''], w), os_udev_from_syspath := \<lambda>p w. (Some bad_udev, w)\<rparr>)
      empty_world) = Fail Hangs"
  by (rule connected_devices_hang [where devs = "[]" and path = "''/sys/bad''" and rest = "[]"
        and d = bad_udev and w' = empty_world, OF _ _ _ bad_udev_throws])
    (simp_all add: constructible_def)

text \<open>
  When every listed device can be opened and constructed, the list is complete and in the
  order of the enumeration.
\<close>

theorem connected_devices_complete:
  assumes "os_udev_scan os w = (Some (map (\<lambda>(p, x). Some p) devs), w1)" and "constructible os devs"
  shows "fst (GetConnectedDevices os w) = Ok (map snd devs)"
  using connected_loop_ends [OF assms(2), of "[]" w1] assms(1)
  by (auto simp: GetConnectedDevices_def hangp_def)

theorem connected_devices_complete_witness:
  "fst (GetConnectedDevices ((sample_os JNull)\<lparr>os_udev_from_syspath := \<lambda>p w. (Some sample_udev, w),
      os_udev_scan := \<lambda>w. (Some [Some ''/sys/sdb1''], w)\<rparr>) empty_world) = Ok [sample_usb]"
  using connected_devices_complete [of "(sample_os JNull)\<lparr>os_udev_from_syspath := \<lambda>p w. (Some sample_udev, w),
      os_udev_scan := \<lambda>w. (Some [Some ''/sys/sdb1''], w)\<rparr>" empty_world "[(''/sys/sdb1'', sample_usb)]" empty_world]
  by (simp add: constructible_def sample_usb_made)

definition timeouts :: "select_result list \<Rightarrow> nat" where
  "timeouts answers = length (filter (\<lambda>a. a = Select_timeout) answers)"

lemma bindp_foreach_Cons: "bindp (f x) (\<lambda>_. foreach f xs) = foreach f (x # xs)"
  by simp

lemma monitor_loop_reviews:
  assumes "Select_ready True \<notin> set answers" and "unat counter < 600"
  shows "monitor_loop os lib answers counter =
    foreach (\<lambda>_. ReviewConnectedDevices os) (replicate ((unat counter + timeouts answers) div 600) ())"
  using assms
proof (induction os lib answers counter rule: monitor_loop.induct)
  case (3 os lib rest counter)
  have "unat (counter + 1) = unat counter + 1"
    using "3.prems"(2) by (simp add: unat_word_ariths)
  moreover have "600 \<le> counter + 1 \<longleftrightarrow> 600 \<le> unat (counter + 1)"
    by (simp add: word_le_nat_alt)
  ultimately have due: "600 \<le> counter + 1 \<longleftrightarrow> unat counter + 1 = 600"
    "unat (counter + 1) = unat counter + 1"
    using "3.prems"(2) by linarith+
  have more: "timeouts (Select_timeout # rest) = timeouts rest + 1" by (simp add: timeouts_def)
  show ?case
  proof (cases "600 \<le> counter + 1")
    case True
    then have "unat counter + timeouts (Select_timeout # rest) = timeouts rest + 600"
      using due more by simp
    then show ?thesis using 3 True by simp
  next
    case False
    then show ?thesis using 3 due more by (simp add: add.assoc)
  qed
qed (auto simp: timeouts_def)

text \<open>
  As long as no event arrives, the monitor reviews the connected devices once for every six
  hundred timeouts, errors of \<^verbatim>\<open>select\<close> not counted, and does nothing else.
\<close>

theorem monitor_review_period:
  assumes "Select_ready True \<notin> set answers"
  shows "monitor_loop os lib answers 0 =
    foreach (\<lambda>_. ReviewConnectedDevices os) (replicate (timeouts answers div 600) ())"
  using monitor_loop_reviews [OF assms, of 0] by simp

theorem monitor_review_period_witness:
  "monitor_loop (sample_os JNull) list_libacl (replicate 600 Select_timeout) 0 =
     foreach (\<lambda>_. ReviewConnectedDevices (sample_os JNull)) [()]"
proof -
  have "timeouts (replicate 600 Select_timeout) = 600" by (simp add: timeouts_def)
  then show ?thesis
    using monitor_review_period [of "replicate 600 Select_timeout" "sample_os JNull" list_libacl]
    by (simp del: foreach.simps)
qed

end
