(* ===== verification/Dbus_Methods.thy ===== *)
theory Dbus_Methods
  imports Udev_Monitor
begin

text \<open>
  \<^verbatim>\<open>daemon/dbus_methods.hpp\<close> and \<^verbatim>\<open>dbus_methods.cpp\<close>: the methods the daemon offers on
  the system bus. A method takes the string argument of the call and returns the strings it
  writes into the reply it sends; a failure is an exception that leaves the method. The
  properties say what the polkit rules are told, what a saved form does to the table of rules,
  and what is left behind when a form is refused.
\<close>

type_synonym reply = "string list"

section \<open>Questions of polkit\<close>

definition Health :: reply where
  "Health = [''OK'']"

definition CanAnotherUserUnmount :: "string \<Rightarrow> ('w, reply) dprog" where
  "CanAnotherUserUnmount dev = tryp
     (bindp (on_mounts (Mountpoints_Find_dev dev)) (\<lambda>index.
        if index \<noteq> None then ret [''YES''] else ret [''UNKNOWN_MOUNTPOINT'']))
     (ret [])"

definition CanUserMount :: "'w os \<Rightarrow> string \<Rightarrow> ('w, reply) dprog" where
  "CanUserMount os dev = tryp
     (bindp (on_world (UsbUdevDevice_of_params os dev ''add'')) (\<lambda>device.
      bindp (liftO (Device_of_params (ud_vid device) (ud_pid device) (ud_serial device))) (\<lambda>dto_device.
      bindp (on_perms (DevicePermissions_Find dto_device)) (\<lambda>index.
        if index \<noteq> None then ret [''NO''] else ret [''YES'']))))
     (ret [''YES''])"

section \<open>Lists for the user interface\<close>

definition device_json :: "UsbUdevDevice \<Rightarrow> string \<Rightarrow> bool \<Rightarrow> json" where
  "device_json dev mount owned = JObject
     [(''device'', JString (ud_block_name dev)), (''vid'', JString (ud_vid dev)),
      (''pid'', JString (ud_pid dev)), (''serial'', JString (ud_serial dev)),
      (''fs'', JString (ud_filesystem dev)), (''mount'', JString mount),
      (''status'', JString (if owned then ''owned'' else ''free''))]"

definition list_device :: "UsbUdevDevice \<Rightarrow> ('w, json) dprog" where
  "list_device dev =
     bindp (on_mounts (Mountpoints_Find_dev (ud_block_name dev))) (\<lambda>index_mount.
     bindp (case index_mount of
              None \<Rightarrow> ret []
            | Some i \<Rightarrow> bindp (on_mounts (Mountpoints_Read i)) (\<lambda>e. ret (me_mount_point e))) (\<lambda>mount.
     bindp (liftO (Device_of_params (ud_vid dev) (ud_pid dev) (ud_serial dev))) (\<lambda>dto.
     bindp (on_perms (DevicePermissions_Find dto)) (\<lambda>perm_index.
     ret (device_json dev mount (perm_index \<noteq> None))))))"

fun list_devices :: "UsbUdevDevice list \<Rightarrow> ('w, json list) dprog" where
  "list_devices [] = ret []"
| "list_devices (dev # devs) =
     bindp (list_device dev) (\<lambda>obj. bindp (list_devices devs) (\<lambda>objs. ret (obj # objs)))"

definition ListActiveDevices :: "'w os \<Rightarrow> ('w, reply) dprog" where
  "ListActiveDevices os =
     bindp (on_world (GetConnectedDevices os)) (\<lambda>devices.
     bindp (list_devices devices) (\<lambda>response_array.
     ret [json_serialize os (JArray response_array)]))"

definition ListActiveRules :: "'w os \<Rightarrow> ('w, reply) dprog" where
  "ListActiveRules os =
     bindp (on_perms DevicePermissions_getAll) (\<lambda>rules.
     ret [json_serialize os (JArray (map (\<lambda>(k, rule). JObject
       [(''id'', JString (to_string k)), (''perm'', JObject (PermissionEntry_to_json rule))]) rules))])"

definition GetSystemUsersAndGroups :: "'w os \<Rightarrow> ('w, reply) dprog" where
  "GetSystemUsersAndGroups os =
     bindp (on_world (GetSystemUidMinMax os)) (\<lambda>id_limits.
     bindp (case id_limits of
              None \<Rightarrow> ret []
            | Some ids \<Rightarrow>
                bindp (on_world (GetHumanUsers os ids)) (\<lambda>users.
                bindp (on_world (GetHumanGroups os ids)) (\<lambda>groups.
                ret ((if users = [] then [] else [(''users'', JArray (map (\<lambda>u. JObject (User_to_json u))
                        (users @ [\<lparr>user_uid = 0, user_name = ''--''\<rparr>])))]) @
                     (if groups = [] then [] else [(''groups'', JArray (map (\<lambda>g. JObject (Group_to_json g))
                        groups))]))))) (\<lambda>res.
     ret [json_serialize os (JObject res)]))"

section \<open>Saving the form of rules\<close>

text \<open>The users and groups a rule may name.\<close>

definition system_accounts :: "'w os \<Rightarrow> ('w, User list \<times> Group list) dprog" where
  "system_accounts os =
     bindp (on_world (GetSystemUidMinMax os)) (\<lambda>id_limits. case id_limits of
       None \<Rightarrow> ret ([], [])
     | Some ids \<Rightarrow>
         bindp (on_world (GetHumanUsers os ids)) (\<lambda>system_users.
         bindp (on_world (GetHumanGroups os ids)) (\<lambda>system_groups.
         ret (system_users @ [\<lparr>user_uid = 0, user_name = ''root''\<rparr>], system_groups))))"

definition form_user :: "string \<Rightarrow> string" where
  "form_user user = (if user = ''--'' then ''root'' else user)"

definition find_user :: "User list \<Rightarrow> string \<Rightarrow> User option" where
  "find_user system_users user = find (\<lambda>usr. user_name usr = user) system_users"

definition find_group :: "Group list \<Rightarrow> string \<Rightarrow> Group option" where
  "find_group system_groups grp = find (\<lambda>g. group_name g = grp) system_groups"

text \<open>The condition of \<^verbatim>\<open>CreateRules\<close> under which an element is refused, in the order of
  the source: \<^verbatim>\<open>ValidVid\<close> may throw.\<close>

definition invalid_rule ::
  "string \<Rightarrow> string \<Rightarrow> string \<Rightarrow> string \<Rightarrow> string \<Rightarrow> User option \<Rightarrow> Group option \<Rightarrow> bool outcome" where
  "invalid_rule vid pid serial user grp it_system_user it_system_group =
     obind (ValidVid vid) (\<lambda>valid_vid. if \<not> valid_vid then Ok True
     else obind (ValidVid pid) (\<lambda>valid_pid.
       Ok (\<not> valid_pid \<or> serial = [] \<or> user = [] \<or> grp = [] \<or>
           it_system_group = None \<or> it_system_user = None)))"

definition rule_of_form :: "User list \<Rightarrow> Group list \<Rightarrow> json \<Rightarrow> PermissionEntry outcome" where
  "rule_of_form system_users system_groups element =
     obind (as_object element) (\<lambda>obj.
     obind (jstr obj ''vid'') (\<lambda>vid.
     obind (jstr obj ''pid'') (\<lambda>pid.
     obind (jstr obj ''serial'') (\<lambda>serial.
     obind (jstr obj ''user'') (\<lambda>form_name.
     obind (jstr obj ''group'') (\<lambda>grp.
       let user = form_user form_name;
           it_system_user = find_user system_users user;
           it_system_group = find_group system_groups grp
       in obind (invalid_rule vid pid serial user grp it_system_user it_system_group) (\<lambda>bad.
            if bad then throws Invalid_argument
            else obind (Device_of_params vid pid serial) (\<lambda>dev.
              PermissionEntry_of dev (case it_system_user of None \<Rightarrow> [] | Some u \<Rightarrow> [u])
                (case it_system_group of None \<Rightarrow> [] | Some g \<Rightarrow> [g])))))))))"

definition create_rule :: "'w os \<Rightarrow> User list \<Rightarrow> Group list \<Rightarrow> json \<Rightarrow> ('w, unit) dprog" where
  "create_rule os system_users system_groups element =
     bindp (liftO (rule_of_form system_users system_groups element)) (\<lambda>new_entry.
     bindp (on_perms (DevicePermissions_Find (pe_device new_entry))) (\<lambda>index.
       if index = None then on_perms (DevicePermissions_Create os new_entry) else ret ()))"

definition CreateRules :: "'w os \<Rightarrow> json list \<Rightarrow> ('w, unit) dprog" where
  "CreateRules os arr_created =
     bindp (system_accounts os) (\<lambda>(system_users, system_groups).
       foreach (create_rule os system_users system_groups) arr_created)"

text \<open>
  An update works on the JSON form of the stored rule, in place:
  \<^verbatim>\<open>v.as_object().at(k) = ...\<close> and \<^verbatim>\<open>v.as_array()[0] = ...\<close>. The operator \<^verbatim>\<open>[]\<close> of an
  array does not check its index.
\<close>

definition json_at :: "string \<Rightarrow> (json \<Rightarrow> json outcome) \<Rightarrow> json \<Rightarrow> json outcome" where
  "json_at k f v = obind (as_object v) (\<lambda>obj.
     obind (jat obj k) (\<lambda>x. obind (f x) (\<lambda>y. Ok (JObject (jset k y obj)))))"

definition json_first :: "(json \<Rightarrow> json outcome) \<Rightarrow> json \<Rightarrow> json outcome" where
  "json_first f v = obind (as_array v) (\<lambda>xs. case xs of
     [] \<Rightarrow> Fail Undefined
   | x # rest \<Rightarrow> obind (f x) (\<lambda>y. Ok (JArray (y # rest))))"

definition assign :: "json \<Rightarrow> json \<Rightarrow> json outcome" where
  "assign new old = Ok new"

definition update_device :: "string \<Rightarrow> string \<Rightarrow> json \<Rightarrow> json outcome" where
  "update_device k new original =
     (if new \<noteq> [] then json_at ''device'' (json_at k (assign (JString new))) original
      else Ok original)"

definition update_user :: "User list \<Rightarrow> string \<Rightarrow> json \<Rightarrow> json outcome" where
  "update_user system_users user original =
     (if user \<noteq> [] \<and> system_users \<noteq> [] then
        (case find_user system_users user of
           None \<Rightarrow> Ok original
         | Some u \<Rightarrow>
             obind (json_at ''users'' (json_first (json_at ''uid'' (assign (JUint64 (ucast (user_uid u)))))) original)
               (json_at ''users'' (json_first (json_at ''name'' (assign (JString (user_name u)))))))
      else Ok original)"

definition update_group :: "Group list \<Rightarrow> string \<Rightarrow> json \<Rightarrow> json outcome" where
  "update_group system_groups grp original =
     (if grp \<noteq> [] \<and> system_groups \<noteq> [] then
        (case find_group system_groups grp of
           None \<Rightarrow> Ok original
         | Some g \<Rightarrow>
             obind (json_at ''groups'' (json_first (json_at ''gid'' (assign (JUint64 (ucast (group_gid g)))))) original)
               (json_at ''groups'' (json_first (json_at ''name'' (assign (JString (group_name g)))))))
      else Ok original)"

definition updated_rule ::
  "User list \<Rightarrow> Group list \<Rightarrow> string \<Rightarrow> string \<Rightarrow> string \<Rightarrow> string \<Rightarrow> string \<Rightarrow> PermissionEntry \<Rightarrow>
   PermissionEntry outcome" where
  "updated_rule system_users system_groups vid pid serial user grp rule =
     obind (update_device ''vid'' vid (JObject (PermissionEntry_to_json rule))) (\<lambda>o1.
     obind (update_device ''pid'' pid o1) (\<lambda>o2.
     obind (update_device ''serial'' serial o2) (\<lambda>o3.
     obind (update_user system_users user o3) (\<lambda>o4.
     obind (update_group system_groups grp o4) (\<lambda>o5.
     obind (as_object o5) PermissionEntry_of_json)))))"

definition update_rule :: "'w os \<Rightarrow> User list \<Rightarrow> Group list \<Rightarrow> json \<Rightarrow> ('w, unit) dprog" where
  "update_rule os system_users system_groups element =
     bindp (liftO (as_object element)) (\<lambda>obj.
     bindp (liftO (obind (jstr obj ''id'') StrToUint)) (\<lambda>id_to_update.
     bindp (liftO (jstr obj ''vid'')) (\<lambda>vid.
     bindp (liftO (jstr obj ''pid'')) (\<lambda>pid.
     bindp (liftO (jstr obj ''serial'')) (\<lambda>serial.
     bindp (liftO (jstr obj ''user'')) (\<lambda>user.
     bindp (liftO (jstr obj ''group'')) (\<lambda>grp.
     bindp (on_perms (DevicePermissions_Read id_to_update)) (\<lambda>rule.
     bindp (liftO (updated_rule system_users system_groups vid pid serial (form_user user) grp rule)) (\<lambda>new_rule.
     on_perms (DevicePermissions_Update os id_to_update new_rule))))))))))"

definition UpdateRules :: "'w os \<Rightarrow> json list \<Rightarrow> ('w, unit) dprog" where
  "UpdateRules os arr_updated =
     bindp (system_accounts os) (\<lambda>(system_users, system_groups).
       foreach (update_rule os system_users system_groups) arr_updated)"

definition delete_rule :: "'w os \<Rightarrow> json \<Rightarrow> ('w, unit) dprog" where
  "delete_rule os element =
     bindp (liftO (obind (as_string element) (\<lambda>s. StrToUint (c_str s)))) (\<lambda>id_to_delete.
     on_perms (DevicePermissions_Delete os id_to_delete))"

text \<open>One section of the form: skipped unless it is an array.\<close>

definition form_section :: "jobject \<Rightarrow> string \<Rightarrow> (json list \<Rightarrow> ('w, unit) dprog) \<Rightarrow> ('w, unit) dprog" where
  "form_section json_data k process =
     (if jhas json_data k is_array
      then bindp (liftO (obind (jat json_data k) as_array)) process
      else ret ())"

definition apply_form :: "'w os \<Rightarrow> jobject \<Rightarrow> ('w, unit) dprog" where
  "apply_form os json_data =
     bindp (form_section json_data ''deleted'' (foreach (delete_rule os))) (\<lambda>_.
     bindp (form_section json_data ''updated'' (UpdateRules os)) (\<lambda>_.
     form_section json_data ''created'' (CreateRules os)))"

definition parse_form :: "'w os \<Rightarrow> string \<Rightarrow> jobject outcome" where
  "parse_form os form_data = (case json_parse os form_data of
     None \<Rightarrow> throws System_error | Some val \<Rightarrow> as_object val)"

definition SaveRules :: "'w os \<Rightarrow> string \<Rightarrow> ('w, reply) dprog" where
  "SaveRules os form_data =
     bindp (tryp
       (bindp (liftO (parse_form os form_data)) (\<lambda>json_data.
        bindp (on_perms StartTransaction) (\<lambda>_.
        bindp (apply_form os json_data) (\<lambda>_.
        bindp (on_perms (DevicePermissions_ProcessTransaction os)) (\<lambda>_. ret ())))))
       (ret ())) (\<lambda>_.
     ret [json_serialize os (JObject [(''STATUS'', JString ''OK'')])])"

section \<open>The table of methods\<close>

text \<open>A call with an unknown name or with arguments of another signature is refused by the bus.\<close>

definition vtable :: "'w os \<Rightarrow> string \<Rightarrow> string list \<Rightarrow> ('w, reply) dprog" where
  "vtable os method args =
     (case args of
        [] \<Rightarrow>
          if method = ''health'' then ret Health
          else if method = ''ListDevices'' then ListActiveDevices os
          else if method = ''ListRules'' then ListActiveRules os
          else if method = ''GetUsersAndGroups'' then GetSystemUsersAndGroups os
          else fail (Exc Runtime_error)
      | [arg] \<Rightarrow>
          if method = ''CanAnotherUserUnmount'' then CanAnotherUserUnmount arg
          else if method = ''CanUserMount'' then CanUserMount os arg
          else if method = ''SaveRules'' then SaveRules os arg
          else fail (Exc Runtime_error)
      | _ \<Rightarrow> fail (Exc Runtime_error))"

text \<open>What the client gets: a failed call, and one that is not answered in time, ends with an
  exception of the client.\<close>

definition bus_call :: "'w os \<Rightarrow> string \<Rightarrow> string list \<Rightarrow> ('w, reply) dprog" where
  "bus_call os method args s =
     (case vtable os method args s of
        (Ok r, t) \<Rightarrow> (Ok r, t)
      | (Fail f, t) \<Rightarrow> (throws Runtime_error, t))"

section \<open>The tables stay consistent\<close>

lemma ProcessTransaction_table_inv:
  "table_inv t \<Longrightarrow> table_inv (fst (snd (ProcessTransaction io to_json (t, w))))"
proof -
  assume inv: "table_inv t"
  then have clone: "table_inv (t\<lparr>tbl_clone := tbl_data t\<rparr>)" by (simp add: table_inv_def)
  have empty: "smap_inv []" by (simp add: smap_inv_def)
  show ?thesis using inv clone empty
    by (auto simp: ProcessTransaction_def DeepDataClone_run WriteRaw_run end_transaction_def
        table_inv_def split: prod.splits)
qed

lemma crud_table_inv: "table_inv t \<Longrightarrow> table_inv (fst (snd (crud_prog io op (t, w))))"
  by (simp add: crud_prog_run commit_run crud_rows_inv table_invD split_beta del: crud_spec.simps)

lemma daemon_inv_rule_ops [keeps_rules]:
  "keeps daemon_inv (on_perms (DevicePermissions_Create io e))"
  "keeps daemon_inv (on_perms (DevicePermissions_Update io k e))"
  "keeps daemon_inv (on_perms (DevicePermissions_Delete io k))"
  "keeps daemon_inv (on_perms (DevicePermissions_ProcessTransaction io))"
  "keeps daemon_inv (on_perms StartTransaction)"
  "keeps daemon_inv (on_perms DevicePermissions_getAll)"
  "keeps daemon_inv (on_mounts (Mountpoints_Read k))"
proof -
  show "keeps daemon_inv (on_perms (DevicePermissions_Create io e))"
    using crud_table_inv [of _ io "CreateRow e"] by (intro daemon_inv_on_perms) simp
  show "keeps daemon_inv (on_perms (DevicePermissions_Update io k e))"
    using crud_table_inv [of _ io "UpdateRow k e"] by (intro daemon_inv_on_perms) simp
  show "keeps daemon_inv (on_perms (DevicePermissions_Delete io k))"
    using crud_table_inv [of _ io "DeleteRow k"] by (intro daemon_inv_on_perms) simp
  show "keeps daemon_inv (on_perms (DevicePermissions_ProcessTransaction io))"
    unfolding DevicePermissions_ProcessTransaction_def
    by (intro daemon_inv_on_perms ProcessTransaction_table_inv)
  show "keeps daemon_inv (on_perms StartTransaction)"
    by (intro daemon_inv_on_perms) (metis StartTransaction_inv prod.collapse)
  show "keeps daemon_inv (on_perms DevicePermissions_getAll)"
    by (intro daemon_inv_on_perms) (simp add: DevicePermissions_getAll_def)
  show "keeps daemon_inv (on_mounts (Mountpoints_Read k))"
    by (intro daemon_inv_on_mounts) (simp add: Mountpoints_Read_def Read_run mounts_inv_table)
qed

lemma keeps_form_section [keeps_rules]:
  "(\<And>xs. keeps P (process xs)) \<Longrightarrow> keeps P (form_section obj k process)"
  unfolding form_section_def by (intro keeps_rules)

lemma daemon_inv_apply_form [keeps_rules]: "keeps daemon_inv (apply_form os obj)"
  unfolding apply_form_def delete_rule_def UpdateRules_def update_rule_def CreateRules_def
    create_rule_def system_accounts_def by (intro keeps_rules)

lemma daemon_inv_SaveRules: "keeps daemon_inv (SaveRules os form)"
  unfolding SaveRules_def by (intro keeps_rules)

lemma daemon_inv_questions:
  "keeps daemon_inv (CanAnotherUserUnmount dev)"
  "keeps daemon_inv (CanUserMount os dev)"
  "keeps daemon_inv (ListActiveRules os)"
  "keeps daemon_inv (GetSystemUsersAndGroups os)"
  unfolding CanAnotherUserUnmount_def CanUserMount_def ListActiveRules_def GetSystemUsersAndGroups_def
  by (intro keeps_rules)+

lemma daemon_inv_ListActiveDevices: "keeps daemon_inv (ListActiveDevices os)"
proof -
  have "keeps daemon_inv (list_devices devs)" for devs :: "UsbUdevDevice list"
    by (induction devs) (unfold list_devices.simps list_device_def, (intro keeps_rules; assumption)+)
  then show ?thesis unfolding ListActiveDevices_def by (intro keeps_rules)
qed

lemmas daemon_inv_methods = daemon_inv_questions daemon_inv_ListActiveDevices daemon_inv_SaveRules

section \<open>What polkit is told\<close>

lemma find_key_iff:
  "table_inv t \<Longrightarrow> smap_find_key P (tbl_data t) \<noteq> None \<longleftrightarrow> (\<exists>k e. map_of (tbl_data t) k = Some e \<and> P e)"
  by (simp add: std_map.find_key_None table_invD(1))

lemma Device_of_params_failure: "Device_of_params v p s = Fail f \<Longrightarrow> \<exists>e. f = Exc e"
  by (cases "stoi 16 v"; cases "stoi 16 p")
    (auto simp: Device_of_params_def split: if_splits dest!: stoi_failure)

definition has_mount :: "string \<Rightarrow> MountEntry table \<Rightarrow> bool" where
  "has_mount dev t \<longleftrightarrow> (\<exists>k e. map_of (tbl_data t) k = Some e \<and> me_dev_name e = dev)"

lemma CanAnotherUserUnmount_run:
  assumes "table_inv (st_mounts s)"
  shows "CanAnotherUserUnmount dev s =
    (Ok [if has_mount dev (st_mounts s) then ''YES'' else ''UNKNOWN_MOUNTPOINT''], s)"
proof -
  have "on_mounts (Mountpoints_Find_dev dev) s =
      (Ok (smap_find_key (\<lambda>e. me_dev_name e = dev) (tbl_data (st_mounts s))), s)"
    by (rule on_mounts_pure) (simp add: Mountpoints_Find_dev_run [OF assms])
  then show ?thesis
    by (simp add: CanAnotherUserUnmount_def tryp_def has_mount_def
        find_key_iff [OF assms, symmetric] del: not_None_eq)
qed

lemma CanUserMount_run:
  assumes "table_inv (st_perms s)" and "UsbUdevDevice_of_params os dev ''add'' (st_world s) = (r, w)"
  shows "CanUserMount os dev s =
    (case r of
       Ok d \<Rightarrow> Ok [if has_rule d (st_perms s) then ''NO'' else ''YES'']
     | Fail (Exc e) \<Rightarrow> Ok [''YES'']
     | Fail f \<Rightarrow> Fail f, s\<lparr>st_world := w\<rparr>)"
proof (cases r)
  case (Fail f)
  then show ?thesis using assms(2)
    by (cases f) (simp_all add: CanUserMount_def on_world_def tryp_def bindp_def)
next
  case (Ok d)
  let ?s = "s\<lparr>st_world := w\<rparr>"
  let ?dto = "Device_of_params (ud_vid d) (ud_pid d) (ud_serial d)"
  have start: "on_world (UsbUdevDevice_of_params os dev ''add'') s = (Ok d, ?s)"
    using assms(2) Ok by (simp add: on_world_def)
  have inv: "table_inv (st_perms ?s)" using assms(1) by simp
  show ?thesis
  proof (cases ?dto)
    case (Fail f)
    then obtain e where "f = Exc e" using Device_of_params_failure by blast
    then show ?thesis using start Fail Ok
      by (simp add: CanUserMount_def tryp_def has_rule_def bindp_def)
  next
    case dto: (Ok dto)
    then show ?thesis
      using start Ok find_key_iff [OF inv, of "\<lambda>p. pe_device p = dto"]
      by (simp add: CanUserMount_def tryp_def bindp_def Find_Read_run(1) [OF inv] has_rule_def
          del: not_None_eq)
  qed
qed

definition stick_os :: "json \<Rightarrow> sample_world os" where
  "stick_os j = (sample_os j)\<lparr>os_udev_scan := \<lambda>w. (Some [Some ''/sys/sdb1''], w),
     os_udev_from_syspath := \<lambda>p w. (Some sample_udev, w)\<rparr>"

lemma stick_found:
  "UsbUdevDevice_of_params (stick_os j) ''/dev/sdb1'' ''add'' w = (Ok sample_usb, w)"
proof -
  have "find_udev_loop (stick_os j) ''/dev/sdb1'' [Some ''/sys/sdb1''] w = Some (Ok (Some sample_udev), w)"
    by (subst find_udev_loop.simps) (simp add: stick_os_def sample_udev_def)
  then have "FindUdevDeviceByBlockName (stick_os j) ''/dev/sdb1'' w = (Ok (Some sample_udev), w)"
    by (simp add: FindUdevDeviceByBlockName_def hangp_def stick_os_def)
  moreover have "getUdevDeviceInfo sample_udev (blank_device\<lparr>ud_block_name := ''/dev/sdb1'', ud_action := KAdd\<rparr>) =
      Ok sample_usb"
    by (simp add: getUdevDeviceInfo_def read_details_def from_property_def udev_property_def
        sample_udev_def sample_usb_def blank_device_def FindSerial_def)
  ultimately show ?thesis by (simp add: UsbUdevDevice_of_params_def Let_def bindp_def)
qed

lemma sample_usb_rule: "has_rule sample_usb sample_permissions"
  using sample_usb_device by (auto simp: has_rule_def sample_permissions_def)

section \<open>What the user interface is shown\<close>

text \<open>The mount point stored for a device: the row with the least key.\<close>

definition stored_mount :: "string \<Rightarrow> MountEntry table \<Rightarrow> string" where
  "stored_mount dev t = (case smap_find_key (\<lambda>e. me_dev_name e = dev) (tbl_data t) of
     None \<Rightarrow> []
   | Some k \<Rightarrow> (case map_of (tbl_data t) k of None \<Rightarrow> [] | Some e \<Rightarrow> me_mount_point e))"

lemma on_mounts_Read:
  "table_inv (st_mounts s) \<Longrightarrow> on_mounts (Mountpoints_Read k) s =
     (case map_of (tbl_data (st_mounts s)) k of None \<Rightarrow> throws Invalid_argument | Some e \<Rightarrow> Ok e, s)"
  by (simp add: on_mounts_def Mountpoints_Read_def Read_run)

lemma list_device_run:
  assumes "table_inv (st_perms s)" and "table_inv (st_mounts s)"
    and "Device_of_params (ud_vid d) (ud_pid d) (ud_serial d) = Ok dto"
  shows "list_device d s = (Ok (device_json d (stored_mount (ud_block_name d) (st_mounts s))
    (has_rule d (st_perms s))), s)"
proof -
  let ?row = "smap_find_key (\<lambda>e. me_dev_name e = ud_block_name d) (tbl_data (st_mounts s))"
  let ?mount = "case ?row of None \<Rightarrow> ret []
    | Some i \<Rightarrow> bindp (on_mounts (Mountpoints_Read i)) (\<lambda>e. ret (me_mount_point e))"
  have find: "on_mounts (Mountpoints_Find_dev (ud_block_name d)) s = (Ok ?row, s)"
    by (rule on_mounts_pure) (simp add: Mountpoints_Find_dev_run [OF assms(2)])
  have mount: "?mount s = (Ok (stored_mount (ud_block_name d) (st_mounts s)), s)"
  proof (cases ?row)
    case (Some k)
    then obtain e where "map_of (tbl_data (st_mounts s)) k = Some e"
      using std_map.find_key_least [OF table_invD(1) [OF assms(2)] Some] by blast
    then show ?thesis by (simp add: Some stored_mount_def bindp_def on_mounts_Read [OF assms(2)])
  qed (simp add: stored_mount_def)
  have owned: "smap_find_key (\<lambda>p. pe_device p = dto) (tbl_data (st_perms s)) \<noteq> None \<longleftrightarrow>
      has_rule d (st_perms s)"
    using find_key_iff [OF assms(1)] assms(3) by (simp add: has_rule_def del: not_None_eq)
  show ?thesis
    unfolding list_device_def
    by (simp add: find bindp_Ok [where m = ?mount, OF mount] assms(3) bindp_def [of "on_perms x" for x]
        Find_Read_run(1) [OF assms(1)] owned del: not_None_eq)
qed

lemma list_devices_run:
  assumes "table_inv (st_perms s)" and "table_inv (st_mounts s)"
    and "\<And>d. d \<in> set devs \<Longrightarrow> \<exists>dto. Device_of_params (ud_vid d) (ud_pid d) (ud_serial d) = Ok dto"
  shows "list_devices devs s = (Ok (map (\<lambda>d. device_json d (stored_mount (ud_block_name d) (st_mounts s))
    (has_rule d (st_perms s))) devs), s)"
  using assms(3)
proof (induction devs)
  case (Cons d devs)
  then obtain dto where "Device_of_params (ud_vid d) (ud_pid d) (ud_serial d) = Ok dto" by auto
  with Cons show ?case by (simp add: bindp_def list_device_run [OF assms(1,2)])
qed simp

lemma ListActiveDevices_run:
  assumes "table_inv (st_perms s)" and "table_inv (st_mounts s)"
    and "GetConnectedDevices os (st_world s) = (Ok devs, w)"
    and "\<And>d. d \<in> set devs \<Longrightarrow> \<exists>dto. Device_of_params (ud_vid d) (ud_pid d) (ud_serial d) = Ok dto"
  shows "ListActiveDevices os s = (Ok [json_serialize os (JArray (map (\<lambda>d.
    device_json d (stored_mount (ud_block_name d) (st_mounts s)) (has_rule d (st_perms s))) devs))],
    s\<lparr>st_world := w\<rparr>)"
  using list_devices_run [of "s\<lparr>st_world := w\<rparr>" devs] assms
  by (simp add: ListActiveDevices_def bindp_def on_world_run)

text \<open>
  The list of devices shows every connected device once, in the order of udev, with the
  mount point the daemon has stored for it and with the status \<^verbatim>\<open>owned\<close> exactly when a rule
  names it; listing changes nothing.
\<close>

theorem list_devices_reply:
  assumes "table_inv (st_perms s)" and "table_inv (st_mounts s)"
    and "GetConnectedDevices os (st_world s) = (Ok devs, w)"
    and "\<And>d. d \<in> set devs \<Longrightarrow> \<exists>dto. Device_of_params (ud_vid d) (ud_pid d) (ud_serial d) = Ok dto"
  shows "ListActiveDevices os s = (Ok [json_serialize os (JArray (map (\<lambda>d.
    device_json d (stored_mount (ud_block_name d) (st_mounts s)) (has_rule d (st_perms s))) devs))],
    s\<lparr>st_world := w\<rparr>)"
  using assms by (rule ListActiveDevices_run)

lemma stick_connected: "GetConnectedDevices (stick_os j) w = (Ok [sample_usb], w)"
proof -
  have "connected_loop (stick_os j) [Some ''/sys/sdb1''] [] w = Some (Ok [sample_usb], w)"
    by (subst connected_loop.simps, simp add: stick_os_def sample_usb_made)
      (subst connected_loop.simps, simp)
  then show ?thesis by (simp add: GetConnectedDevices_def hangp_def stick_os_def)
qed

theorem list_devices_reply_witness:
  "ListActiveDevices (stick_os (JArray [device_json sample_usb [] True])) (sample_daemon empty_world) =
     (Ok [''rows''], (sample_daemon empty_world)\<lparr>st_world := empty_world\<rparr>)"
proof -
  have "stored_mount (ud_block_name sample_usb) sample_mounts = []"
    by (simp add: stored_mount_def sample_mounts_data sample_usb_def sample_mount_def smap_find_key_def)
  moreover have "\<exists>dto. Device_of_params (ud_vid d) (ud_pid d) (ud_serial d) = Ok dto"
    if "d \<in> set [sample_usb]" for d using that sample_usb_device by auto
  ultimately show ?thesis
    using list_devices_reply [OF _ _ stick_connected, of "sample_daemon empty_world"
        "JArray [device_json sample_usb [] True]"]
    by (simp add: sample_permissions_inv sample_mounts_inv [unfolded mounts_inv_def] sample_usb_rule stick_os_def)
qed

section \<open>The saved form as a change of a map\<close>

text \<open>
  What a form means for the map from keys to rules: the sections in their order, the elements
  of a section in theirs, and the first element that is refused stops the form.
\<close>

type_synonym rules = "u64 \<Rightarrow> PermissionEntry option"

fun ofold :: "('a \<Rightarrow> 's \<Rightarrow> 's outcome) \<Rightarrow> 'a list \<Rightarrow> 's \<Rightarrow> 's outcome" where
  "ofold f [] m = Ok m"
| "ofold f (x # xs) m = obind (f x m) (ofold f xs)"

definition delete_spec :: "json \<Rightarrow> rules \<Rightarrow> rules outcome" where
  "delete_spec element m =
     obind (obind (as_string element) (\<lambda>s. StrToUint (c_str s))) (\<lambda>k. Ok (m(k := None)))"

definition replace_spec :: "u64 \<Rightarrow> (PermissionEntry \<Rightarrow> PermissionEntry outcome) \<Rightarrow> rules \<Rightarrow> rules outcome" where
  "replace_spec k f m = (case m k of
     None \<Rightarrow> throws Invalid_argument
   | Some rule \<Rightarrow> obind (f rule) (\<lambda>new_rule. Ok (m(k \<mapsto> new_rule))))"

definition update_spec :: "User list \<Rightarrow> Group list \<Rightarrow> json \<Rightarrow> rules \<Rightarrow> rules outcome" where
  "update_spec users groups element m =
     obind (as_object element) (\<lambda>obj.
     obind (obind (jstr obj ''id'') StrToUint) (\<lambda>k.
     obind (jstr obj ''vid'') (\<lambda>vid.
     obind (jstr obj ''pid'') (\<lambda>pid.
     obind (jstr obj ''serial'') (\<lambda>serial.
     obind (jstr obj ''user'') (\<lambda>user.
     obind (jstr obj ''group'') (\<lambda>grp.
     replace_spec k (updated_rule users groups vid pid serial (form_user user) grp) m)))))))"

definition add_spec :: "PermissionEntry \<Rightarrow> rules \<Rightarrow> rules" where
  "add_spec e m = (if \<exists>k e'. m k = Some e' \<and> pe_device e' = pe_device e then m
     else snd (crud_spec (CreateRow e) m))"

definition create_spec :: "User list \<Rightarrow> Group list \<Rightarrow> json \<Rightarrow> rules \<Rightarrow> rules outcome" where
  "create_spec users groups element m =
     obind (rule_of_form users groups element) (\<lambda>e. Ok (add_spec e m))"

definition section_spec ::
  "jobject \<Rightarrow> string \<Rightarrow> (json \<Rightarrow> rules \<Rightarrow> rules outcome) \<Rightarrow> rules \<Rightarrow> rules outcome" where
  "section_spec obj k f m = (if jhas obj k is_array
     then obind (obind (jat obj k) as_array) (\<lambda>xs. ofold f xs m) else Ok m)"

definition form_spec :: "User list \<Rightarrow> Group list \<Rightarrow> jobject \<Rightarrow> rules \<Rightarrow> rules outcome" where
  "form_spec users groups obj m =
     obind (section_spec obj ''deleted'' delete_spec m) (\<lambda>m1.
     obind (section_spec obj ''updated'' (update_spec users groups) m1)
       (section_spec obj ''created'' (create_spec users groups)))"

definition rules_of :: "'w daemon \<Rightarrow> rules" where
  "rules_of s = map_of (tbl_data (st_perms s))"

text \<open>Inside a transaction, a program does to the table what the abstract function does to the
  map, and fails when it fails; the transaction stays open.\<close>

definition implements :: "('w, unit) dprog \<Rightarrow> (rules \<Rightarrow> rules outcome) \<Rightarrow> bool" where
  "implements m f \<longleftrightarrow> (\<forall>s. table_inv (st_perms s) \<and> tbl_started (st_perms s) \<longrightarrow>
     table_inv (st_perms (snd (m s))) \<and> tbl_started (st_perms (snd (m s))) \<and>
     (case f (rules_of s) of
        Ok \<mu> \<Rightarrow> fst (m s) = Ok () \<and> rules_of (snd (m s)) = \<mu>
      | Fail e \<Rightarrow> fst (m s) = Fail e))"

named_theorems implements_rules

lemma implements_ret [implements_rules]: "implements (ret ()) Ok"
  by (simp add: implements_def)

lemma implementsD:
  "implements m f \<Longrightarrow> table_inv (st_perms s) \<Longrightarrow> tbl_started (st_perms s) \<Longrightarrow>
   table_inv (st_perms (snd (m s))) \<and> tbl_started (st_perms (snd (m s))) \<and>
   (case f (rules_of s) of
      Ok \<mu> \<Rightarrow> fst (m s) = Ok () \<and> rules_of (snd (m s)) = \<mu>
    | Fail e \<Rightarrow> fst (m s) = Fail e)"
  by (simp add: implements_def)

lemma implements_bind [implements_rules]:
  fixes m :: "('w, unit) dprog"
  assumes "implements m f" and "implements n g"
  shows "implements (bindp m (\<lambda>_. n)) (\<lambda>\<mu>. obind (f \<mu>) g)"
  unfolding implements_def
proof (intro allI impI)
  fix s :: "'w daemon" assume s: "table_inv (st_perms s) \<and> tbl_started (st_perms s)"
  obtain r t where m: "m s = (r, t)" by (cases "m s")
  have t: "table_inv (st_perms t) \<and> tbl_started (st_perms t)"
    "case f (rules_of s) of Ok \<mu> \<Rightarrow> r = Ok () \<and> rules_of t = \<mu> | Fail e \<Rightarrow> r = Fail e"
    using assms(1) s m unfolding implements_def by (metis fst_conv snd_conv)+
  then show "table_inv (st_perms (snd (bindp m (\<lambda>_. n) s))) \<and>
      tbl_started (st_perms (snd (bindp m (\<lambda>_. n) s))) \<and>
      (case obind (f (rules_of s)) g of
         Ok \<mu> \<Rightarrow> fst (bindp m (\<lambda>_. n) s) = Ok () \<and> rules_of (snd (bindp m (\<lambda>_. n) s)) = \<mu>
       | Fail e \<Rightarrow> fst (bindp m (\<lambda>_. n) s) = Fail e)"
    using implementsD [OF assms(2), of t] m
    by (cases "f (rules_of s)") (auto simp: bindp_def split: outcome.splits)
qed

lemma implements_lift [implements_rules]:
  assumes "\<And>a. implements (m a) (f a)"
  shows "implements (bindp (liftO r) m) (\<lambda>\<mu>. obind r (\<lambda>a. f a \<mu>))"
  using assms by (cases r) (simp_all add: implements_def)

lemma implements_foreach [implements_rules]:
  assumes "\<And>x. implements (m x) (f x)"
  shows "implements (foreach m xs) (ofold f xs)"
proof (induction xs)
  case (Cons x xs)
  show ?case using implements_bind [OF assms Cons.IH] by simp
qed (simp add: implements_def)

lemma implements_reads:
  assumes "\<And>s. fst (m s) = Ok a" and "\<And>t. keeps (perms_are t) m" and "implements (k a) f"
  shows "implements (bindp m k) f"
proof -
  have "bindp m k s = k a (snd (m s))" and "st_perms (snd (m s)) = st_perms s" for s
    using assms(1) [of s] keepsD [OF assms(2) [of "st_perms s"], of s]
    by (cases "m s"; simp add: bindp_def perms_are_def)+
  with assms(3) show ?thesis unfolding implements_def rules_of_def by metis
qed

lemma implements_crud:
  "implements (on_perms (crud_prog io op)) (\<lambda>\<mu>. if fst (crud_spec op \<mu>) then Ok (snd (crud_spec op \<mu>))
     else throws Invalid_argument)"
  unfolding implements_def
  by (auto simp: on_perms_def crud_prog_run commit_run crud_rows_inv crud_rows_spec table_invD
      rules_of_def simp del: crud_spec.simps)

lemma implements_section [implements_rules]:
  assumes "\<And>xs. implements (process xs) (ofold f xs)"
  shows "implements (form_section obj k process) (section_spec obj k f)"
  using implements_lift [OF assms, of "obind (jat obj k) as_array"] implements_ret
  by (simp add: form_section_def section_spec_def implements_def)

lemma implements_delete: "implements (delete_rule os element) (delete_spec element)"
  unfolding delete_rule_def delete_spec_def
  using implements_crud [of os "DeleteRow k" for k] by (intro implements_lift) simp

lemma implements_replace:
  fixes os :: "'w os"
  shows "implements (bindp (on_perms (DevicePermissions_Read k)) (\<lambda>rule. bindp (liftO (f rule))
     (\<lambda>new_rule. on_perms (DevicePermissions_Update os k new_rule)))) (replace_spec k f)"
  (is "implements ?m _")
  unfolding implements_def
proof (intro allI impI)
  fix s :: "'w daemon"
  assume s: "table_inv (st_perms s) \<and> tbl_started (st_perms s)"
  show "table_inv (st_perms (snd (?m s))) \<and> tbl_started (st_perms (snd (?m s))) \<and>
    (case replace_spec k f (rules_of s) of
       Ok \<mu> \<Rightarrow> fst (?m s) = Ok () \<and> rules_of (snd (?m s)) = \<mu> | Fail e \<Rightarrow> fst (?m s) = Fail e)"
  proof (cases "rules_of s k")
    case None
    then show ?thesis using s
      by (simp add: bindp_def Find_Read_run(2) replace_spec_def) (simp add: rules_of_def)
  next
    case (Some rule)
    show ?thesis
    proof (cases "f rule")
      case (Fail e)
      then show ?thesis using s Some
        by (simp add: bindp_def Find_Read_run(2) replace_spec_def rules_of_def)
    next
      case (Ok new_rule)
      have "?m s = on_perms (crud_prog os (UpdateRow k new_rule)) s"
        using s Some Ok by (simp add: bindp_def Find_Read_run(2) rules_of_def)
      then show ?thesis
        using implementsD [OF implements_crud, of s os "UpdateRow k new_rule"] s Some Ok
        by (simp add: replace_spec_def)
    qed
  qed
qed

lemma implements_update: "implements (update_rule os users groups element) (update_spec users groups element)"
  unfolding update_rule_def update_spec_def
  by (intro implements_lift implements_replace)

lemma implements_create:
  fixes os :: "'w os"
  shows "implements (create_rule os users groups element) (create_spec users groups element)"
  unfolding create_rule_def create_spec_def
proof (intro implements_lift)
  fix e
  let ?m = "bindp (on_perms (DevicePermissions_Find (pe_device e)))
    (\<lambda>index. if index = None then on_perms (DevicePermissions_Create os e) else ret ())"
  let ?known = "\<lambda>\<mu>. \<exists>k e'. \<mu> k = Some e' \<and> pe_device e' = pe_device e"
  have run: "?m s = (if ?known (rules_of s) then (Ok (), s) else on_perms (crud_prog os (CreateRow e)) s)"
    if "table_inv (st_perms s)" for s :: "'w daemon"
    using find_key_iff [OF that, of "\<lambda>p. pe_device p = pe_device e"]
    by (simp add: bindp_def Find_Read_run(1) [OF that] rules_of_def del: not_None_eq) auto
  show "implements ?m (\<lambda>\<mu>. Ok (add_spec e \<mu>))"
    unfolding implements_def
  proof (intro allI impI)
    fix s :: "'w daemon"
    assume s: "table_inv (st_perms s) \<and> tbl_started (st_perms s)"
    show "table_inv (st_perms (snd (?m s))) \<and> tbl_started (st_perms (snd (?m s))) \<and>
      (case Ok (add_spec e (rules_of s)) of
         Ok \<mu> \<Rightarrow> fst (?m s) = Ok () \<and> rules_of (snd (?m s)) = \<mu> | Fail f \<Rightarrow> fst (?m s) = Fail f)"
      using implementsD [OF implements_crud, of s os "CreateRow e"] s run [of s]
      by (cases "?known (rules_of s)") (auto simp: add_spec_def)
  qed
qed

text \<open>The account files are read to the same users and groups every time.\<close>

definition accounts_are :: "'w os \<Rightarrow> User list \<Rightarrow> Group list \<Rightarrow> bool" where
  "accounts_are os users groups \<longleftrightarrow> (\<forall>s. fst (system_accounts os s) = Ok (users, groups))"

lemma perms_are_system_accounts: "keeps (perms_are t) (system_accounts os)"
  unfolding system_accounts_def by (intro keeps_rules)

lemma implements_form:
  assumes "accounts_are os users groups"
  shows "implements (apply_form os obj) (form_spec users groups obj)"
proof -
  have accounts: "implements (bindp (system_accounts os) (\<lambda>(us, gs). foreach (m us gs) xs)) f"
    if "implements (foreach (m users groups) xs) f"
    for m :: "User list \<Rightarrow> Group list \<Rightarrow> json \<Rightarrow> ('a, unit) dprog" and xs f
    using assms that by (intro implements_reads [OF _ perms_are_system_accounts])
      (auto simp: accounts_are_def)
  show ?thesis
    unfolding apply_form_def form_spec_def UpdateRules_def CreateRules_def
    by (intro implements_bind implements_section accounts implements_foreach implements_delete
        implements_update implements_create)
qed

text \<open>What a call of \<^verbatim>\<open>SaveRules\<close> is, by the outcome of the abstract form.\<close>

definition status_ok :: "'w os \<Rightarrow> reply" where
  "status_ok os = [json_serialize os (JObject [(''STATUS'', JString ''OK'')])]"

definition opened :: "'e table \<Rightarrow> 'e table" where
  "opened t = t\<lparr>tbl_mutex := True, tbl_started := True, tbl_data_lock := True, tbl_file_lock := True\<rparr>"

lemma on_perms_Start:
  "table_inv (st_perms s) \<Longrightarrow> on_perms StartTransaction s =
     (if tbl_started (st_perms s) then (Fail Hangs, s)
      else (Ok (), s\<lparr>st_perms := opened (st_perms s)\<rparr>))"
  by (simp add: on_perms_def StartTransaction_run opened_def)

lemma opened_facts [simp]:
  "table_inv t \<Longrightarrow> table_inv (opened t)" "tbl_started (opened t)" "tbl_data (opened t) = tbl_data t"
  by (simp_all add: opened_def table_inv_def)

lemma on_perms_Process:
  assumes "table_inv (st_perms s)" and "tbl_started (st_perms s)"
  shows "\<exists>b s'. on_perms (DevicePermissions_ProcessTransaction os) s = (Ok b, s') \<and>
    table_inv (st_perms s') \<and> \<not> tbl_started (st_perms s') \<and> rules_of s' = rules_of s"
  using assms ProcessTransaction_table_inv [OF assms(1), of os PermissionEntry_to_json "st_world s"]
  by (auto simp: on_perms_def DevicePermissions_ProcessTransaction_def ProcessTransaction_run
      closed_def rules_of_def split: prod.splits)

lemma SaveRules_blocked:
  assumes "table_inv (st_perms s)" and "tbl_started (st_perms s)" and "parse_form os form = Ok obj"
  shows "SaveRules os form s = (Fail Hangs, s)"
  using assms by (simp add: SaveRules_def bindp_def tryp_def on_perms_Start)

lemma SaveRules_accepted:
  assumes "table_inv (st_perms s)" and "\<not> tbl_started (st_perms s)"
    and "accounts_are os users groups" and "parse_form os form = Ok obj"
    and "form_spec users groups obj (rules_of s) = Ok \<mu>"
  shows "\<exists>s'. SaveRules os form s = (Ok (status_ok os), s') \<and> rules_of s' = \<mu> \<and>
    table_inv (st_perms s') \<and> \<not> tbl_started (st_perms s')"
proof -
  let ?s = "s\<lparr>st_perms := opened (st_perms s)\<rparr>"
  have "rules_of ?s = rules_of s" by (simp add: rules_of_def)
  then have body: "table_inv (st_perms (snd (apply_form os obj ?s)))"
    "tbl_started (st_perms (snd (apply_form os obj ?s)))"
    "fst (apply_form os obj ?s) = Ok ()" "rules_of (snd (apply_form os obj ?s)) = \<mu>"
    using implementsD [OF implements_form [OF assms(3)], of ?s obj] assms(1,5) by simp_all
  then obtain s1 where s1: "apply_form os obj ?s = (Ok (), s1)" by (cases "apply_form os obj ?s") auto
  with on_perms_Process [OF body(1,2), of os] body(4)
  obtain b s' where s': "on_perms (DevicePermissions_ProcessTransaction os) s1 = (Ok b, s')"
    "table_inv (st_perms s')" "\<not> tbl_started (st_perms s')" "rules_of s' = \<mu>" by auto
  have "SaveRules os form s = (Ok (status_ok os), s')"
    using assms(1,2,4) s1 s'(1)
    by (simp add: SaveRules_def bindp_def tryp_def on_perms_Start status_ok_def)
  then show ?thesis using s'(2-4) by blast
qed

text \<open>
  C5: Saving a form of which every element is accepted does to the table exactly what the form
  means for the map from keys to rules, ends the transaction and replies OK.
\<close>

theorem save_rules_refines:
  assumes "table_inv (st_perms s)" and "\<not> tbl_started (st_perms s)"
    and "accounts_are os users groups" and "parse_form os form = Ok obj"
    and "form_spec users groups obj (rules_of s) = Ok \<mu>"
  shows "\<exists>s'. SaveRules os form s = (Ok (status_ok os), s') \<and> rules_of s' = \<mu> \<and>
    table_inv (st_perms s') \<and> \<not> tbl_started (st_perms s')"
  using assms by (rule SaveRules_accepted)

text \<open>A system with one user, one group and the form as its only JSON text.\<close>

definition account_files :: disk where
  "account_files =
     [''/etc/login.defs'' \<mapsto> print_lines [''UID_MIN 500'', ''UID_MAX 60000'', ''GID_MIN 500'', ''GID_MAX 70000''],
      ''/etc/shells'' \<mapsto> print_lines [''/bin/bash''],
      ''/etc/passwd'' \<mapsto> print_lines (map (\<lambda>p. join_fields (passwd_fields p)) sample_passwd),
      ''/etc/group'' \<mapsto> print_lines (map (\<lambda>g. join_fields (group_fields g)) sample_groups)]"

definition form_os :: "json \<Rightarrow> sample_world os" where
  "form_os f = (sample_os JNull)\<lparr>
     fio_exists := \<lambda>p w. (Ok (account_files p \<noteq> None \<or> p \<in> set (sw_dirs w)), w),
     fio_read := \<lambda>p w. (account_files p, w),
     json_parse := \<lambda>s. if s = ''form'' then Some f else None\<rparr>"

definition form_users :: "User list" where
  "form_users = [\<lparr>user_uid = 1000, user_name = ''test''\<rparr>, \<lparr>user_uid = 0, user_name = ''root''\<rparr>]"

definition form_groups :: "Group list" where
  "form_groups = [\<lparr>group_gid = 1001, group_name = ''usb''\<rparr>]"

lemma form_open_lines:
  "account_files p = Some (print_lines ls) \<Longrightarrow> list_all (\<lambda>l. CHR 0x0A \<notin> set l) ls \<Longrightarrow>
   open_lines (form_os f) p w = (Ok (Some ls), w)"
  using open_lines_run [of "form_os f" p w w "print_lines ls" w]
  by (simp add: form_os_def getlines_print_lines)

lemma form_limits: "GetSystemUidMinMax (form_os f) w = (Ok (Some sample_limits), w)"
proof -
  let ?ls = "[''UID_MIN 500'', ''UID_MAX 60000'', ''GID_MIN 500'', ''GID_MAX 70000'']"
  have num: "StrToUint ''500'' = Ok 500" "StrToUint ''60000'' = Ok 60000" "StrToUint ''70000'' = Ok 70000"
    by (simp_all add: StrToUint_def stoul_def scan_int_def is_space_def skip_sign_def skip_0x_def
        is_digit_def digit_value_def digits_value_def)
  have "split_space ''UID_MIN 500'' = [''UID_MIN'', ''500'']"
    "split_space ''UID_MAX 60000'' = [''UID_MAX'', ''60000'']"
    "split_space ''GID_MIN 500'' = [''GID_MIN'', ''500'']"
    "split_space ''GID_MAX 70000'' = [''GID_MAX'', ''70000'']"
    by (simp_all add: is_space_def split_space.simps)
  then have "login_defs_loop ?ls no_limits = Ok (Some sample_limits)"
    by (simp add: trim_def is_space_def num set_limit_def limits_set_def no_limits_def
        sample_limits_def starts_with_def Let_def)
  moreover have "open_lines (form_os f) ''/etc/login.defs'' w = (Ok (Some ?ls), w)"
    by (rule form_open_lines) (simp_all add: account_files_def)
  ultimately show ?thesis by (simp add: GetSystemUidMinMax_def bindp_def tryp_def)
qed

lemma form_human_users:
  "GetHumanUsers (form_os f) sample_limits w = (Ok [\<lparr>user_uid = 1000, user_name = ''test''\<rparr>], w)"
proof -
  let ?ls = "map (\<lambda>p. join_fields (passwd_fields p)) sample_passwd"
  have "open_lines (form_os f) ''/etc/shells'' w = (Ok (Some [''/bin/bash'']), w)"
    by (rule form_open_lines) (simp_all add: account_files_def)
  moreover have "shell_lines [''/bin/bash''] = [''/bin/bash'']"
    by (simp add: shell_lines_def trim_id is_space_def)
  ultimately have "GetPossibleShells (form_os f) w = (Ok [''/bin/bash''], w)"
    by (simp add: GetPossibleShells_def bindp_def)
  moreover have "open_lines (form_os f) ''/etc/passwd'' w = (Ok (Some ?ls), w)"
    using sample_accounts_ok(1) join_fields_newline [OF passwd_fields_ok]
    by (intro form_open_lines) (simp_all add: account_files_def list_all_iff)
  moreover have "List.map_filter (passwd_user sample_limits [''/bin/bash'']) ?ls =
      [\<lparr>user_uid = 1000, user_name = ''test''\<rparr>]"
    using sample_accounts_ok(1)
    by (simp add: map_filter_map passwd_user_printed sample_passwd_def List.map_filter_simps)
      (simp add: human_def sample_limits_def)
  ultimately show ?thesis by (simp add: GetHumanUsers_def bindp_def)
qed

lemma form_human_groups: "GetHumanGroups (form_os f) sample_limits w = (Ok form_groups, w)"
proof -
  let ?ls = "map (\<lambda>g. join_fields (group_fields g)) sample_groups"
  have "open_lines (form_os f) ''/etc/group'' w = (Ok (Some ?ls), w)"
    using sample_accounts_ok(2) join_fields_newline [OF group_fields_ok]
    by (intro form_open_lines) (simp_all add: account_files_def list_all_iff)
  moreover have "List.map_filter (group_entry sample_limits) ?ls = form_groups"
    using sample_accounts_ok(2)
    by (simp add: map_filter_map group_entry_printed sample_groups_def List.map_filter_simps)
      (simp add: sample_limits_def form_groups_def)
  ultimately show ?thesis by (simp add: GetHumanGroups_def bindp_def)
qed

lemma form_accounts: "accounts_are (form_os f) form_users form_groups"
  by (simp add: accounts_are_def system_accounts_def bindp_def on_world_run form_limits form_human_users
      form_human_groups form_users_def)

definition delete_form :: "string \<Rightarrow> jobject" where
  "delete_form k = [(''deleted'', JArray [JString k])]"

lemma parse_sample_form: "parse_form (form_os (JObject obj)) ''form'' = Ok obj"
  by (simp add: parse_form_def form_os_def)

lemma StrToUint_3: "StrToUint ''3'' = Ok 3"
  by (simp add: StrToUint_def stoul_def scan_int_def is_space_def skip_sign_def skip_0x_def
      is_digit_def digit_value_def digits_value_def)

lemma delete_form_spec:
  "form_spec us gs (delete_form k) m = obind (StrToUint (c_str k)) (\<lambda>i. Ok (m(i := None)))"
  by (cases "StrToUint (c_str k)")
    (simp_all add: form_spec_def section_spec_def delete_form_def jhas_def jat_def delete_spec_def)

text \<open>A form that replaces the rule with the key 3 by a new one for another device.\<close>

definition new_rule_json :: json where
  "new_rule_json = JObject [(''vid'', JString ''1a2b''), (''pid'', JString ''0001''), (''serial'', JString ''77''),
     (''user'', JString ''--''), (''group'', JString ''usb'')]"

definition new_rule :: PermissionEntry where
  "new_rule = \<lparr>pe_device = \<lparr>dev_vid = ''1a2b'', dev_pid = ''0001'', dev_serial = ''77''\<rparr>,
     pe_users = [\<lparr>user_uid = 0, user_name = ''root''\<rparr>], pe_groups = form_groups\<rparr>"

lemma new_rule_accepted: "rule_of_form form_users form_groups new_rule_json = Ok new_rule"
  by (simp add: rule_of_form_def new_rule_json_def jstr_def jat_def c_str_def form_user_def find_user_def
      find_group_def form_users_def form_groups_def invalid_rule_def ValidVid_def stoi_def scan_int_def
      is_space_def skip_sign_def skip_0x_def is_digit_def digit_value_def digits_value_def
      Device_of_params_def PermissionEntry_of_def new_rule_def)

definition replace_form :: jobject where
  "replace_form = [(''deleted'', JArray [JString ''3'']), (''created'', JArray [new_rule_json])]"

lemma replace_form_accepted:
  "form_spec form_users form_groups replace_form (rules_of (sample_daemon empty_world)) = Ok [0 \<mapsto> new_rule]"
  by (simp add: form_spec_def section_spec_def replace_form_def jhas_def jat_def delete_spec_def
      c_str_def StrToUint_3 create_spec_def new_rule_accepted add_spec_def spec_next_def rules_of_def
      sample_permissions_def)

lemma sample_unlocked: "table_inv (st_perms (sample_daemon w))" "\<not> tbl_started (st_perms (sample_daemon w))"
  by (simp_all add: sample_permissions_inv, simp add: sample_permissions_def new_table_def)

theorem save_rules_refines_witness:
  "\<exists>s'. SaveRules (form_os (JObject replace_form)) ''form'' (sample_daemon empty_world) =
      (Ok (status_ok (form_os (JObject replace_form))), s') \<and>
    rules_of s' = [0 \<mapsto> new_rule] \<and> table_inv (st_perms s') \<and> \<not> tbl_started (st_perms s')"
  by (rule save_rules_refines [OF sample_unlocked form_accounts parse_sample_form replace_form_accepted])

lemma SaveRules_rejected:
  assumes "table_inv (st_perms s)" and "\<not> tbl_started (st_perms s)"
    and "accounts_are os users groups" and "parse_form os form = Ok obj"
    and "form_spec users groups obj (rules_of s) = throws e"
  shows "\<exists>s'. SaveRules os form s = (Ok (status_ok os), s') \<and> tbl_started (st_perms s') \<and>
    (\<forall>form' obj'. parse_form os form' = Ok obj' \<longrightarrow> SaveRules os form' s' = (Fail Hangs, s'))"
proof -
  let ?s = "s\<lparr>st_perms := opened (st_perms s)\<rparr>"
  have "rules_of ?s = rules_of s" by (simp add: rules_of_def)
  then have body: "table_inv (st_perms (snd (apply_form os obj ?s)))"
    "tbl_started (st_perms (snd (apply_form os obj ?s)))" "fst (apply_form os obj ?s) = throws e"
    using implementsD [OF implements_form [OF assms(3)], of ?s obj] assms(1,5) by simp_all
  then obtain s1 where s1: "apply_form os obj ?s = (throws e, s1)" by (cases "apply_form os obj ?s") auto
  have "SaveRules os form s = (Ok (status_ok os), s1)"
    using assms(1,2,4) s1
    by (simp add: SaveRules_def bindp_def tryp_def on_perms_Start status_ok_def)
  then show ?thesis using body(1,2) s1 SaveRules_blocked by auto
qed

text \<open>
  A form with an element that is refused is answered with OK as well, but the transaction
  stays open with the changes of the elements before it: every later call that saves a form
  waits for ever.
\<close>

theorem save_rules_refused:
  assumes "table_inv (st_perms s)" and "\<not> tbl_started (st_perms s)"
    and "accounts_are os users groups" and "parse_form os form = Ok obj"
    and "form_spec users groups obj (rules_of s) = throws e"
  shows "\<exists>s'. SaveRules os form s = (Ok (status_ok os), s') \<and> tbl_started (st_perms s') \<and>
    (\<forall>form' obj'. parse_form os form' = Ok obj' \<longrightarrow> SaveRules os form' s' = (Fail Hangs, s'))"
  using assms by (rule SaveRules_rejected)

lemma delete_x_refused:
  "form_spec form_users form_groups (delete_form ''x'') (rules_of (sample_daemon empty_world)) =
     throws Invalid_argument"
proof -
  have "StrToUint (c_str ''x'') = throws Invalid_argument"
    by (simp add: StrToUint_def c_str_def stoul_def scan_int_def is_space_def skip_sign_def skip_0x_def
        is_digit_def digit_value_def)
  then show ?thesis by (simp add: delete_form_spec)
qed

theorem save_rules_refused_witness:
  "\<exists>s'. SaveRules (form_os (JObject (delete_form ''x''))) ''form'' (sample_daemon empty_world) =
      (Ok (status_ok (form_os (JObject (delete_form ''x'')))), s') \<and> tbl_started (st_perms s') \<and>
    (\<forall>form' obj'. parse_form (form_os (JObject (delete_form ''x''))) form' = Ok obj' \<longrightarrow>
       SaveRules (form_os (JObject (delete_form ''x''))) form' s' = (Fail Hangs, s'))"
  by (rule save_rules_refused [OF sample_unlocked form_accounts parse_sample_form delete_x_refused])

section \<open>What an update changes\<close>

definition patch_string :: "string \<Rightarrow> string \<Rightarrow> string" where
  "patch_string new old = (if new = [] then old else new)"

definition picked_user :: "User list \<Rightarrow> string \<Rightarrow> User option" where
  "picked_user users user = (if user = [] then None else find_user users user)"

definition picked_group :: "Group list \<Rightarrow> string \<Rightarrow> Group option" where
  "picked_group groups grp = (if grp = [] then None else find_group groups grp)"

definition replace_first :: "'a option \<Rightarrow> 'a list \<Rightarrow> 'a list" where
  "replace_first x xs = (case x of None \<Rightarrow> xs | Some y \<Rightarrow> y # tl xs)"

definition patched_device :: "string \<Rightarrow> string \<Rightarrow> string \<Rightarrow> Device \<Rightarrow> Device" where
  "patched_device vid pid serial d =
     d\<lparr>dev_vid := patch_string vid (dev_vid d), dev_pid := patch_string pid (dev_pid d),
       dev_serial := patch_string serial (dev_serial d)\<rparr>"

definition rule_json :: "Device \<Rightarrow> User list \<Rightarrow> Group list \<Rightarrow> json" where
  "rule_json d us gs = JObject (PermissionEntry_to_json \<lparr>pe_device = d, pe_users = us, pe_groups = gs\<rparr>)"

lemma rule_json_of: "JObject (PermissionEntry_to_json rule) = rule_json (pe_device rule) (pe_users rule) (pe_groups rule)"
  by (simp add: rule_json_def PermissionEntry_to_json_def)

lemmas json_edit = json_at_def json_first_def assign_def jat_def rule_json_def PermissionEntry_to_json_def

lemma update_device_json:
  "update_device ''vid'' v (rule_json d us gs) = Ok (rule_json (d\<lparr>dev_vid := patch_string v (dev_vid d)\<rparr>) us gs)"
  "update_device ''pid'' v (rule_json d us gs) = Ok (rule_json (d\<lparr>dev_pid := patch_string v (dev_pid d)\<rparr>) us gs)"
  "update_device ''serial'' v (rule_json d us gs) = Ok (rule_json (d\<lparr>dev_serial := patch_string v (dev_serial d)\<rparr>) us gs)"
  by (simp_all add: update_device_def patch_string_def Device_to_json_def json_edit)

lemma picked_user_alt:
  "update_user users user original = (case picked_user users user of
     None \<Rightarrow> Ok original
   | Some u \<Rightarrow>
       obind (json_at ''users'' (json_first (json_at ''uid'' (assign (JUint64 (ucast (user_uid u)))))) original)
         (json_at ''users'' (json_first (json_at ''name'' (assign (JString (user_name u)))))))"
  by (auto simp: update_user_def picked_user_def find_user_def)

lemma picked_group_alt:
  "update_group groups grp original = (case picked_group groups grp of
     None \<Rightarrow> Ok original
   | Some g \<Rightarrow>
       obind (json_at ''groups'' (json_first (json_at ''gid'' (assign (JUint64 (ucast (group_gid g)))))) original)
         (json_at ''groups'' (json_first (json_at ''name'' (assign (JString (group_name g)))))))"
  by (auto simp: update_group_def picked_group_def find_group_def)

lemma update_user_json:
  "update_user users user (rule_json d us gs) =
     (if picked_user users user \<noteq> None \<and> us = [] then Fail Undefined
      else Ok (rule_json d (replace_first (picked_user users user) us) gs))"
  by (cases us) (auto simp: picked_user_alt replace_first_def User_to_json_def json_edit split: option.splits)

lemma update_group_json:
  "update_group groups grp (rule_json d us gs) =
     (if picked_group groups grp \<noteq> None \<and> gs = [] then Fail Undefined
      else Ok (rule_json d us (replace_first (picked_group groups grp) gs)))"
  by (cases gs) (auto simp: picked_group_alt replace_first_def Group_to_json_def json_edit split: option.splits)

lemma rule_json_back:
  assumes "PermissionEntry_wf p"
  shows "PermissionEntry_of_json (PermissionEntry_to_json p) = Ok p"
proof -
  have "omap (array_element User_of_json) (map (\<lambda>u. JObject (User_to_json u)) (pe_users p)) = Ok (pe_users p)"
    "omap (array_element Group_of_json) (map (\<lambda>g. JObject (Group_to_json g)) (pe_groups p)) = Ok (pe_groups p)"
    using assms
    by (auto simp: omap_map array_element_def PermissionEntry_wf_def User_of_json_def User_to_json_def
        Group_of_json_def Group_to_json_def jcontains_def jhas_def jat_def jstr_def
        intro!: omap_Ok [where g = id, simplified])
  moreover have "Device_of_json (Device_to_json (pe_device p)) = Ok (pe_device p)"
    using assms by (simp add: PermissionEntry_wf_def Device_wf_def Device_of_json_def Device_to_json_def
        jhas_def jstr_def jat_def)
  ultimately show ?thesis
    by (simp add: PermissionEntry_of_json_def PermissionEntry_to_json_def jhas_def jat_def)
qed

lemma find_user_mem: "find_user users user = Some u \<Longrightarrow> u \<in> set users"
  by (auto simp: find_user_def find_Some_iff)

lemma find_group_mem: "find_group groups grp = Some g \<Longrightarrow> g \<in> set groups"
  by (auto simp: find_group_def find_Some_iff)

lemma set_replace_first:
  "x \<in> set (replace_first y xs) \<Longrightarrow> y = Some x \<or> x \<in> set xs"
  by (cases xs) (auto simp: replace_first_def split: option.splits)

definition accounts_wf :: "User list \<Rightarrow> Group list \<Rightarrow> bool" where
  "accounts_wf users groups \<longleftrightarrow> (\<forall>u \<in> set users. nul_free (user_name u)) \<and>
     (\<forall>g \<in> set groups. nul_free (group_name g))"

text \<open>
  C15: Updating a rule is, although the code edits its JSON form, a change of the record: every
  non-empty identifier replaces the stored one without any check, and a user or group that the
  system knows replaces the first of the rule. A rule whose list of users (or groups) is empty
  makes the code write to the first element of an empty array, which is undefined.
\<close>

theorem update_rule_patch:
  assumes "PermissionEntry_wf rule" and "accounts_wf users groups"
    and "nul_free vid" and "nul_free pid" and "nul_free serial"
  shows "updated_rule users groups vid pid serial user grp rule =
    (if picked_user users user \<noteq> None \<and> pe_users rule = [] \<or>
        picked_group groups grp \<noteq> None \<and> pe_groups rule = []
     then Fail Undefined
     else Ok \<lparr>pe_device = patched_device vid pid serial (pe_device rule),
              pe_users = replace_first (picked_user users user) (pe_users rule),
              pe_groups = replace_first (picked_group groups grp) (pe_groups rule)\<rparr>)"
proof -
  let ?us = "replace_first (picked_user users user) (pe_users rule)"
  let ?gs = "replace_first (picked_group groups grp) (pe_groups rule)"
  let ?d = "patched_device vid pid serial (pe_device rule)"
  have "picked_user users user = Some u \<Longrightarrow> u \<in> set users"
    and "picked_group groups grp = Some g \<Longrightarrow> g \<in> set groups" for u g
    by (auto simp: picked_user_def picked_group_def find_user_mem find_group_mem split: if_splits)
  then have "PermissionEntry_wf \<lparr>pe_device = ?d, pe_users = ?us, pe_groups = ?gs\<rparr>"
    using assms by (auto simp: PermissionEntry_wf_def accounts_wf_def Device_wf_def patched_device_def
        patch_string_def dest!: set_replace_first)
  from rule_json_back [OF this] show ?thesis
    unfolding updated_rule_def rule_json_of update_device_json obind.simps
    by (cases "picked_user users user"; cases "picked_group groups grp";
        simp add: update_user_json update_group_json; simp add: rule_json_def patched_device_def)
qed

theorem update_rule_patch_witness:
  "updated_rule [] [] ''zz'' [] [] [] [] sample_permission =
     Ok (sample_permission\<lparr>pe_device := (pe_device sample_permission)\<lparr>dev_vid := ''zz''\<rparr>\<rparr>)"
  using update_rule_patch [OF sample_permission_wf, of "[]" "[]" "''zz''" "[]" "[]" "[]" "[]"]
  by (simp add: accounts_wf_def nul_free_def picked_user_def picked_group_def replace_first_def
      patched_device_def patch_string_def sample_permission_def)

section \<open>What creating rules adds\<close>

lemma create_step_rules:
  assumes "table_inv (st_perms s)"
  shows "table_inv (st_perms (snd (create_rule os users groups element s))) \<and>
    rules_of (snd (create_rule os users groups element s)) =
      (case rule_of_form users groups element of
         Ok e \<Rightarrow> add_spec e (rules_of s)
       | Fail f \<Rightarrow> rules_of s)"
proof (cases "rule_of_form users groups element")
  case (Ok e)
  have known: "(smap_find_key (\<lambda>p. pe_device p = pe_device e) (tbl_data (st_perms s)) = None) \<longleftrightarrow>
      \<not> (\<exists>k e'. rules_of s k = Some e' \<and> pe_device e' = pe_device e)"
    using find_key_iff [OF assms, of "\<lambda>p. pe_device p = pe_device e"] unfolding rules_of_def by blast
  have "on_perms (crud_prog os (CreateRow e)) s = on_perms (DevicePermissions_Create os e) s" by simp
  moreover have "table_inv (st_perms (snd (on_perms (crud_prog os (CreateRow e)) s))) \<and>
      rules_of (snd (on_perms (crud_prog os (CreateRow e)) s)) = snd (crud_spec (CreateRow e) (rules_of s))"
    using assms crud_rows_inv [OF table_invD(1) [OF assms], of "CreateRow e"]
      crud_rows_spec [OF table_invD(1) [OF assms], of "CreateRow e"]
    by (simp add: on_perms_def crud_prog_run commit_run split_beta rules_of_def
        del: crud_spec.simps(1) crud_prog.simps) simp
  ultimately show ?thesis using assms Ok
    by (auto simp: create_rule_def bindp_def Find_Read_run(1) known add_spec_def
        simp del: crud_spec.simps(1) not_None_eq)
qed (simp add: create_rule_def assms)

definition rules_unique :: "rules \<Rightarrow> bool" where
  "rules_unique m \<longleftrightarrow> (\<forall>k k' e e'. m k = Some e \<and> m k' = Some e' \<and> pe_device e = pe_device e' \<longrightarrow> k = k')"

lemma rules_unique_add:
  assumes "rules_unique m"
  shows "rules_unique (add_spec e m)"
proof (cases "\<exists>k e'. m k = Some e' \<and> pe_device e' = pe_device e")
  case False
  then show ?thesis using assms unfolding rules_unique_def add_spec_def
    by (simp split: if_split) metis
qed (simp add: add_spec_def assms)

text \<open>What the form promises for a new rule.\<close>

definition new_rule_ok :: "User list \<Rightarrow> Group list \<Rightarrow> PermissionEntry \<Rightarrow> bool" where
  "new_rule_ok users groups e \<longleftrightarrow>
     ValidVid (dev_vid (pe_device e)) = Ok True \<and> ValidVid (dev_pid (pe_device e)) = Ok True \<and>
     dev_serial (pe_device e) \<noteq> [] \<and>
     (\<exists>u \<in> set users. user_name u \<noteq> [] \<and> pe_users e = [u]) \<and>
     (\<exists>g \<in> set groups. group_name g \<noteq> [] \<and> pe_groups e = [g])"

lemma rule_of_form_ok:
  assumes "rule_of_form users groups element = Ok e"
  shows "new_rule_ok users groups e"
proof -
  obtain vid pid serial name grp where
    v: "invalid_rule vid pid serial (form_user name) grp (find_user users (form_user name))
          (find_group groups grp) = Ok False" and
    d: "obind (Device_of_params vid pid serial) (\<lambda>dev. PermissionEntry_of dev
        (case find_user users (form_user name) of None \<Rightarrow> [] | Some u \<Rightarrow> [u])
        (case find_group groups grp of None \<Rightarrow> [] | Some g \<Rightarrow> [g])) = Ok e"
    using assms by (auto simp: rule_of_form_def obind_eq_Ok Let_def split: if_splits)
  obtain u g where u: "find_user users (form_user name) = Some u" and g: "find_group groups grp = Some g"
    and ok: "ValidVid vid = Ok True" "ValidVid pid = Ok True" "serial \<noteq> []" "form_user name \<noteq> []" "grp \<noteq> []"
    using v by (auto simp: invalid_rule_def obind_eq_Ok split: if_splits)
  have "user_name u = form_user name" "u \<in> set users" "group_name g = grp" "g \<in> set groups"
    using u g by (auto simp: find_user_def find_group_def find_Some_iff)
  then show ?thesis using d u g ok
    by (auto simp: new_rule_ok_def obind_eq_Ok Device_of_params_def PermissionEntry_of_def split: if_splits)
qed

text \<open>Both facts, along the elements of the form.\<close>

definition rules_from :: "User list \<Rightarrow> Group list \<Rightarrow> rules \<Rightarrow> rules \<Rightarrow> bool" where
  "rules_from users groups old new \<longleftrightarrow> (\<forall>k. case old k of
     Some e \<Rightarrow> new k = Some e
   | None \<Rightarrow> (case new k of None \<Rightarrow> True | Some e \<Rightarrow> new_rule_ok users groups e))"

lemma rules_from_refl: "rules_from users groups m m"
  by (simp add: rules_from_def split: option.splits)

lemma rules_from_trans:
  "rules_from users groups a b \<Longrightarrow> rules_from users groups b c \<Longrightarrow> rules_from users groups a c"
  unfolding rules_from_def
proof (intro allI)
  fix k
  assume "\<forall>k. case a k of Some e \<Rightarrow> b k = Some e
      | None \<Rightarrow> (case b k of None \<Rightarrow> True | Some e \<Rightarrow> new_rule_ok users groups e)"
    and "\<forall>k. case b k of Some e \<Rightarrow> c k = Some e
      | None \<Rightarrow> (case c k of None \<Rightarrow> True | Some e \<Rightarrow> new_rule_ok users groups e)"
  from this [THEN spec, of k] show "case a k of Some e \<Rightarrow> c k = Some e
      | None \<Rightarrow> (case c k of None \<Rightarrow> True | Some e \<Rightarrow> new_rule_ok users groups e)"
    by (cases "a k"; cases "b k") simp_all
qed

lemma rules_from_add:
  "new_rule_ok users groups e \<Longrightarrow> rules_from users groups m (add_spec e m)"
  by (auto simp: rules_from_def add_spec_def split: option.splits if_splits)

lemma create_rules_keeps:
  "keeps (\<lambda>s. table_inv (st_perms s) \<and> rules_from users groups m (rules_of s) \<and>
      (rules_unique m \<longrightarrow> rules_unique (rules_of s)))
     (foreach (create_rule os users groups) elements)"
proof (intro keeps_foreach keepsI, elim conjE)
  fix element and s :: "'a daemon"
  assume s: "table_inv (st_perms s)" "rules_from users groups m (rules_of s)"
    "rules_unique m \<longrightarrow> rules_unique (rules_of s)"
  let ?s = "snd (create_rule os users groups element s)"
  have "rules_from users groups (rules_of s) (rules_of ?s) \<and>
      (rules_unique (rules_of s) \<longrightarrow> rules_unique (rules_of ?s))"
    using create_step_rules [OF s(1), of os users groups element]
    by (auto simp: rules_from_refl rules_from_add rules_unique_add rule_of_form_ok split: outcome.splits)
  then show "table_inv (st_perms ?s) \<and> rules_from users groups m (rules_of ?s) \<and>
      (rules_unique m \<longrightarrow> rules_unique (rules_of ?s))"
    using create_step_rules [OF s(1), of os users groups element] s rules_from_trans by blast
qed

lemma CreateRules_run:
  assumes "accounts_are os users groups"
  shows "\<exists>s'. rules_of s' = rules_of s \<and> st_perms s' = st_perms s \<and>
    CreateRules os elements s = foreach (create_rule os users groups) elements s'"
proof -
  obtain s' where s': "system_accounts os s = (Ok (users, groups), s')"
    using assms by (cases "system_accounts os s") (auto simp: accounts_are_def dest: spec [of _ s])
  have "st_perms s' = st_perms s"
    using keepsE [OF perms_are_system_accounts _ s', of "st_perms s"] by (simp add: perms_are_def)
  then show ?thesis using s' by (intro exI [of _ s']) (simp add: CreateRules_def rules_of_def bindp_def)
qed



text \<open>
  Creating rules keeps the devices of the rules distinct.
\<close>

theorem create_rules_unique:
  assumes "table_inv (st_perms s)" and "accounts_are os users groups" and "rules_unique (rules_of s)"
  shows "rules_unique (rules_of (snd (CreateRules os elements s)))"
proof -
  obtain s' where s': "st_perms s' = st_perms s" "rules_of s' = rules_of s"
    "CreateRules os elements s = foreach (create_rule os users groups) elements s'"
    using CreateRules_run [OF assms(2)] by metis
  show ?thesis
    using keepsD [OF create_rules_keeps, of s' users groups "rules_of s" os elements] assms(1,3) s'
    by (simp add: rules_from_refl)
qed

theorem create_rules_unique_witness:
  "rules_unique (rules_of (snd (CreateRules (form_os JNull) [new_rule_json, new_rule_json]
     (sample_daemon empty_world))))"
proof (rule create_rules_unique [OF _ form_accounts])
  show "rules_unique (rules_of (sample_daemon empty_world))"
    by (simp add: rules_unique_def rules_of_def sample_permissions_def)
qed (simp add: sample_permissions_inv)

end
