(* ===== verification/Daemon_Main.thy ===== *)
theory Daemon_Main
  imports Dbus_Methods
begin

text \<open>
  \<^verbatim>\<open>daemon/daemon.hpp\<close> and \<^verbatim>\<open>daemon.cpp\<close>, the process with its loop over signals, and
  \<^verbatim>\<open>daemon/polkit/main.cpp\<close>, the helper that asks it. The calls that the threads of the
  process run (the events of udev, the reviews, the methods on the bus) are the steps of one
  relation, so that a fact about every reachable state is a fact about every order in which
  whole calls can follow each other.
\<close>

section \<open>The loop over signals\<close>

datatype signal = SIGINT | SIGTERM | SIGHUP | Other_signal

record daemon_flags =
  is_running :: bool
  reload :: bool

definition Daemon_construct :: daemon_flags where
  "Daemon_construct = \<lparr>is_running = True, reload = False\<rparr>"

text \<open>\<^verbatim>\<open>Reload\<close> is empty in the source.\<close>

definition IsRunning :: "daemon_flags \<Rightarrow> bool \<times> daemon_flags" where
  "IsRunning d =
     (let d' = (if reload d then d\<lparr>reload := False\<rparr> else d) in (is_running d', d'))"

fun SignalHandler :: "signal \<Rightarrow> daemon_flags \<Rightarrow> daemon_flags" where
  "SignalHandler SIGINT d = d\<lparr>is_running := False\<rparr>"
| "SignalHandler SIGTERM d = d\<lparr>is_running := False\<rparr>"
| "SignalHandler SIGHUP d = d\<lparr>reload := True\<rparr>"
| "SignalHandler Other_signal d = d"

text \<open>The signals that \<^verbatim>\<open>sigwait\<close> delivers are the input; the result is the number of
  signals taken when the loop has ended, and \<open>None\<close> while it still waits for one.\<close>

fun signal_loop :: "daemon_flags \<Rightarrow> signal list \<Rightarrow> nat option" where
  "signal_loop d [] = (if fst (IsRunning d) then None else Some 0)"
| "signal_loop d (signal # rest) =
     (case IsRunning d of (running, d') \<Rightarrow>
        if running then map_option Suc (signal_loop (SignalHandler signal d') rest) else Some 0)"

definition stops :: "signal \<Rightarrow> bool" where
  "stops signal \<longleftrightarrow> signal = SIGINT \<or> signal = SIGTERM"

lemma signal_loop_running:
  "is_running d \<Longrightarrow> signal_loop d signals =
     (if list_ex stops signals then Some (Suc (length (takeWhile (\<lambda>s. \<not> stops s) signals))) else None)"
proof (induction signals arbitrary: d)
  case (Cons signal rest)
  let ?d = "if reload d then d\<lparr>reload := False\<rparr> else d"
  have run: "IsRunning d = (True, ?d)" using Cons.prems by (simp add: IsRunning_def Let_def)
  show ?case
  proof (cases "stops signal")
    case True
    then have "signal_loop (SignalHandler signal ?d) rest = Some 0"
      by (cases signal; cases rest) (auto simp: stops_def IsRunning_def Let_def split: if_splits)
    then show ?thesis using True by (simp add: run)
  next
    case False
    then have "is_running (SignalHandler signal ?d)"
      using Cons.prems by (cases signal) (auto simp: stops_def)
    from Cons.IH [OF this] show ?thesis using False by (simp add: run)
  qed
qed (simp add: IsRunning_def Let_def)

text \<open>
  The daemon stops with the first \<^verbatim>\<open>SIGINT\<close> or \<^verbatim>\<open>SIGTERM\<close> it is sent, having taken
  all signals up to it, and with no other signal; \<^verbatim>\<open>SIGHUP\<close> never stops it.
\<close>

theorem daemon_stops_on_signal:
  "signal_loop Daemon_construct signals =
     (if list_ex stops signals then Some (Suc (length (takeWhile (\<lambda>s. \<not> stops s) signals))) else None)"
  by (rule signal_loop_running) (simp add: Daemon_construct_def)

section \<open>The calls of the process\<close>

datatype call =
    Call_review
  | Call_event
  | Call_apply_rules
  | Call_can_unmount string
  | Call_can_mount string
  | Call_list_devices
  | Call_list_rules
  | Call_list_accounts
  | Call_save string

fun run_call :: "'w os \<Rightarrow> ('w, 'a) libacl \<Rightarrow> call \<Rightarrow> ('w, reply) dprog" where
  "run_call os lib Call_review = bindp (ReviewConnectedDevices os) (\<lambda>_. ret [])"
| "run_call os lib Call_event = bindp (ProcessEvent os lib) (\<lambda>_. ret [])"
| "run_call os lib Call_apply_rules = bindp (ApplyMountRulesIfNotMounted os lib) (\<lambda>_. ret [])"
| "run_call os lib (Call_can_unmount dev) = CanAnotherUserUnmount dev"
| "run_call os lib (Call_can_mount dev) = CanUserMount os dev"
| "run_call os lib Call_list_devices = ListActiveDevices os"
| "run_call os lib Call_list_rules = ListActiveRules os"
| "run_call os lib Call_list_accounts = GetSystemUsersAndGroups os"
| "run_call os lib (Call_save form) = SaveRules os form"

text \<open>A step is a call that comes to an end, with a result or with an exception that leaves it.\<close>

inductive daemon_step :: "'w os \<Rightarrow> ('w, 'a) libacl \<Rightarrow> 'w daemon \<Rightarrow> 'w daemon \<Rightarrow> bool"
  for os lib where
  returned: "run_call os lib c s = (Ok r, s') \<Longrightarrow> daemon_step os lib s s'"
| thrown: "run_call os lib c s = (throws e, s') \<Longrightarrow> daemon_step os lib s s'"

inductive reachable :: "'w os \<Rightarrow> ('w, 'a) libacl \<Rightarrow> 'w daemon \<Rightarrow> 'w daemon \<Rightarrow> bool"
  for os lib s0 where
  start: "reachable os lib s0 s0"
| step: "reachable os lib s0 s \<Longrightarrow> daemon_step os lib s s' \<Longrightarrow> reachable os lib s0 s'"

inductive_cases daemon_stepE: "daemon_step os lib s s'"

lemma reachable_keeps:
  assumes "\<And>c. keeps P (run_call os lib c)" and "reachable os lib s0 s" and "P s0"
  shows "P s"
  using assms(2)
proof induction
  case start
  show ?case by (rule assms(3))
next
  case (step s s')
  from step.hyps(2) show ?case
    by (rule daemon_stepE) (use keepsE [OF assms(1) step.IH] in blast)+
qed

lemma daemon_inv_run_call: "keeps daemon_inv (run_call os lib c)"
  by (cases c) (auto intro!: keeps_rules daemon_inv_methods)

section \<open>A sample run\<close>

text \<open>The sample stick is plugged in: the daemon makes its directories and mounts it.\<close>

definition event_os :: "sample_world os" where
  "event_os = (sample_os JNull)\<lparr>os_udev_receive := \<lambda>w. (Some sample_udev, w)\<rparr>"

definition owned :: custom_mount where
  "owned = (CustomMount sample_usb)\<lparr>cm_uid := Some 1000, cm_gid := Some 1001\<rparr>"

definition based :: custom_mount where
  "based = owned\<lparr>cm_base := Some ''/media/alt-usb-mount/test_usb''\<rparr>"

definition ended :: custom_mount where
  "ended = based\<lparr>cm_end := Some ''/media/alt-usb-mount/test_usb/STICK''\<rparr>"

lemma sample_acl_directory: "\<exists>s1. CreateAclMountPoint event_os list_libacl owned (sample_daemon empty_world) =
   (Ok (True, based), s1) \<and> st_world s1 = empty_world\<lparr>sw_dirs := [''/media/alt-usb-mount/test_usb'']\<rparr>"
  by (simp add: CreateAclMountPoint_def owned_def CustomMount_def cm_uid_or_0_def cm_gid_or_0_def value_or_def mount_root_def event_os_def
     bindp_def tryp_def os_call_run on_world_def empty_world_def based_def SetAcl_def build_acl_def DeleteACLUserGroupMask_def list_libacl_def Let_def
        need_def CreateUserAclEntry_def CreateGroupAclEntry_def CreateMaskAclEntry_def numeral_eq_Suc sample_usb_def)

lemma sample_endpoint_made: "st_world s1 = empty_world\<lparr>sw_dirs := [''/media/alt-usb-mount/test_usb'']\<rparr> \<Longrightarrow>
  \<exists>s2. CreateMountEndpoint event_os based s1 = (Ok (True, ended), s2) \<and>
    st_world s2 = empty_world\<lparr>sw_dirs := [''/media/alt-usb-mount/test_usb/STICK'', ''/media/alt-usb-mount/test_usb'']\<rparr>"
  by (simp add: CreateMountEndpoint_def based_def owned_def ended_def CustomMount_def value_or_def endpoint_name_def
      sample_usb_def bindp_def on_world_def empty_world_def hangp_def event_os_def SanitizeMount.simps
      endpoint_loop_step occupied_def tryp_def os_call_run)

lemma sample_perform: "st_world s2 = empty_world\<lparr>sw_dirs := [''/media/alt-usb-mount/test_usb/STICK'', ''/media/alt-usb-mount/test_usb'']\<rparr> \<Longrightarrow>
  \<exists>s3 fs fl data. PerfomMount event_os ended s2 = (Ok True, s3) \<and>
    EvMount ''/dev/sdb1'' ''/media/alt-usb-mount/test_usb/STICK'' fs fl data 0 \<in> set (st_trace s3)"
  by (simp add: PerfomMount_def ended_def based_def owned_def CustomMount_def event_os_def noexceptp_def bindp_def on_world_def
      mount_call_def os_call_run Let_def sample_usb_def empty_world_def) blast

lemma sample_mount_for: "\<exists>s4. mount_for event_os list_libacl owned (sample_daemon empty_world) = (Ok True, s4) \<and>
   (\<exists>fs fl data. EvMount ''/dev/sdb1'' ''/media/alt-usb-mount/test_usb/STICK'' fs fl data 0 \<in> set (st_trace s4))"
proof -
  obtain s1 where s1: "CreateAclMountPoint event_os list_libacl owned (sample_daemon empty_world) =
   (Ok (True, based), s1)" "st_world s1 = empty_world\<lparr>sw_dirs := [''/media/alt-usb-mount/test_usb'']\<rparr>" using sample_acl_directory by blast
  obtain s2 where s2: "CreateMountEndpoint event_os based s1 = (Ok (True, ended), s2)" 
    "st_world s2 = empty_world\<lparr>sw_dirs := [''/media/alt-usb-mount/test_usb/STICK'', ''/media/alt-usb-mount/test_usb'']\<rparr>"
    using sample_endpoint_made [OF s1(2)] by blast
  obtain s3 fs fl data where s3: "PerfomMount event_os ended s2 = (Ok True, s3)" and
    ev: "EvMount ''/dev/sdb1'' ''/media/alt-usb-mount/test_usb/STICK'' fs fl data 0 \<in> set (st_trace s3)"
    using sample_perform [OF s2(2)] by blast
  have "mounts_are sample_mounts s3"
    using keepsE [OF mount_steps_tables(1) _ s1(1), of sample_mounts]
      keepsE [OF mount_steps_tables(2) _ s2(1), of sample_mounts]
      keepsE [OF mount_steps_tables(4) _ s3, of sample_mounts] by (simp add: mounts_are_def)
  then have m: "st_mounts s3 = sample_mounts" "table_inv sample_mounts" "\<not> tbl_started sample_mounts"
    using sample_mounts_inv by (simp_all add: mounts_are_def mounts_inv_def, simp add: sample_mounts_def new_table_def)
  define e where "e = \<lparr>me_dev_name = ''/dev/sdb1'', me_mount_point = ''/media/alt-usb-mount/test_usb/STICK'',
    me_fs_type = ''vfat''\<rparr>"
  have "\<exists>t w. Mountpoints_Create event_os e (sample_mounts, st_world s3) = (Ok (), (t, w))"
    by (simp add: Mountpoints_Create_run [OF m(2)] commit_run append_row_inv table_invD [OF m(2)] m(2) event_os_def)
  then obtain t w where "on_mounts (Mountpoints_Create event_os e) s3 = (Ok (), s3\<lparr>st_mounts := t, st_world := w\<rparr>)"
    by (auto simp: on_mounts_def m(1))
  then have "\<exists>s4. save_mount event_os ended s3 = (Ok (), s4) \<and> st_trace s4 = st_trace s3"
    by (simp add: save_mount_def ended_def based_def owned_def CustomMount_def value_or_def MountEntry_of_params_def
       sample_usb_def e_def tryp_def)
  then obtain s4 where s4: "save_mount event_os ended s3 = (Ok (), s4)" "st_trace s4 = st_trace s3" by blast
  have "mount_for event_os list_libacl owned (sample_daemon empty_world) = (Ok True, s4)"
    using s1(1) s2(1) s3 s4(1) by (simp add: mount_for_def bindp_def) (simp add: owned_def CustomMount_def sample_usb_def)
  with ev s4(2) show ?thesis by auto
qed

lemma sample_event_mounts:
  "\<exists>s'. ProcessEvent event_os list_libacl (sample_daemon empty_world) = (Ok (), s') \<and>
   (\<exists>fs fl data. EvMount ''/dev/sdb1'' ''/media/alt-usb-mount/test_usb/STICK'' fs fl data 0 \<in> set (st_trace s'))"
proof -
  let ?s = "sample_daemon empty_world"
  have s: "?s\<lparr>st_world := empty_world\<rparr> = ?s" by (simp add: sample_daemon_def initial_def)
  have receive: "RecieveDevice event_os ?s = (Ok (Some sample_usb), ?s)"
    by (simp add: RecieveDevice_def sample_usb_made event_os_def s)
  have inv: "table_inv (st_perms ?s)" "table_inv (st_mounts ?s)"
    using sample_mounts_inv by (simp_all add: sample_permissions_inv mounts_inv_def)
  have key: "smap_find_key (\<lambda>p. pe_device p = pe_device sample_permission) (tbl_data sample_permissions) = Some 3"
     "map_of (tbl_data sample_permissions) 3 = Some sample_permission"
    by (simp_all add: smap_find_key_def sample_permissions_def)
  have row: "on_mounts (Mountpoints_Find_dev dev) ?s = (Ok (smap_find_key (\<lambda>e. me_dev_name e = dev) (tbl_data sample_mounts)), ?s)" for dev
    by (rule on_mounts_pure) (use inv in \<open>simp add: Mountpoints_Find_dev_run\<close>)
  obtain s4 where m: "mount_for event_os list_libacl owned ?s = (Ok True, s4)" and
   ev: "\<exists>fs fl data. EvMount ''/dev/sdb1'' ''/media/alt-usb-mount/test_usb/STICK'' fs fl data 0 \<in> set (st_trace s4)"
    using sample_mount_for by blast
  have "Mount event_os list_libacl (CustomMount sample_usb) ?s = (Ok True, s4)"
    using m by (simp add: Mount_def noexceptp_def bindp_def CustomMount_def sample_usb_device Find_Read_run [OF inv(1)] key
       owned_def) (simp add: sample_permission_def)
  then have "MountDevice event_os list_libacl sample_usb ?s = (Ok (), s4)"
    by (simp add: MountDevice_def noexceptp_def tryp_def bindp_def) (simp add: sample_usb_def)
  then have "ProcessDevice event_os list_libacl (Some sample_usb) ?s = (Ok (), s4)"
    by (simp add: ProcessDevice_def noexceptp_def bindp_def sample_usb_device Find_Read_run(1) [OF inv(1)] key row)
     (simp add: sample_usb_def fs_is_unsupported_def)
  then show ?thesis using receive ev by (simp add: ProcessEvent_def noexceptp_def bindp_def)
qed
definition sample_run :: "sample_world daemon \<Rightarrow> bool" where
  "sample_run s \<longleftrightarrow> reachable event_os list_libacl (sample_daemon empty_world) s \<and>
     (\<exists>fs fl data. EvMount ''/dev/sdb1'' ''/media/alt-usb-mount/test_usb/STICK'' fs fl data 0 \<in> set (st_trace s))"

lemma sample_run_exists: "\<exists>s. sample_run s"
proof -
  obtain s' where p: "ProcessEvent event_os list_libacl (sample_daemon empty_world) = (Ok (), s')" and
    ev: "\<exists>fs fl data. EvMount ''/dev/sdb1'' ''/media/alt-usb-mount/test_usb/STICK'' fs fl data 0 \<in> set (st_trace s')"
    using sample_event_mounts by blast
  have "run_call event_os list_libacl Call_event (sample_daemon empty_world) = (Ok [], s')"
    using p by (simp add: bindp_def)
  then have "reachable event_os list_libacl (sample_daemon empty_world) s'"
    by (rule reachable.step [OF reachable.start daemon_step.returned])
  with ev show ?thesis by (auto simp: sample_run_def)
qed

section \<open>Properties of every reachable state\<close>

text \<open>
  C2: In every state the daemon can reach, by any sequence of events, reviews and requests,
  whatever the system answers, both tables are consistent: keys in order, locks as the
  transaction flag says, and no mount point stored twice.
\<close>

theorem daemon_tables_invariant:
  assumes "reachable os lib s0 s" and "daemon_inv s0"
  shows "daemon_inv s"
  using daemon_inv_run_call assms by (rule reachable_keeps)

theorem daemon_tables_invariant_witness: "\<exists>s. sample_run s \<and> daemon_inv s"
proof -
  obtain s where s: "sample_run s" using sample_run_exists by blast
  then have "reachable event_os list_libacl (sample_daemon empty_world) s" by (simp add: sample_run_def)
  from daemon_tables_invariant [OF this sample_daemon_inv] s show ?thesis by blast
qed

section \<open>What is ever mounted\<close>

fun mount_confined :: "sysevent \<Rightarrow> bool" where
  "mount_confined (EvMount d t fs fl data r) \<longleftrightarrow>
     and fl (or MS_NOSUID MS_NODEV) = or MS_NOSUID MS_NODEV \<and> starts_with t mount_root"
| "mount_confined _ \<longleftrightarrow> True"

lemma mount_event_confined: "mount_event_ok dev ev \<Longrightarrow> mount_confined ev"
  by (cases ev) auto

lemma confined_Unmount [keeps_rules]: "keeps (trace_all mount_confined) (UnMount os d)"
  unfolding UnMount_def forget_mount_def RemoveMountPoint_def by (intro keeps_rules; simp)

lemma confined_Review [keeps_rules]: "keeps (trace_all mount_confined) (ReviewMountPoints os)"
  unfolding ReviewMountPoints_def GetSystemMountPoints_def review_folder_def review_sub_def
  by (intro keeps_rules; simp)

lemma confined_ProcessDevice [keeps_rules]:
  "keeps (trace_all mount_confined) (ProcessDevice os lib d)"
proof -
  have "keeps (trace_all mount_confined) (MountDevice os lib d)" if "\<not> fs_is_unsupported d" for d
  proof -
    have "ud_filesystem d \<noteq> []" using that by (simp add: fs_is_unsupported_def)
    then have "keeps (trace_all mount_confined) (Mount os lib (CustomMount d))"
      using Mount_trace [of "CustomMount d" mount_confined os lib]
      by (simp add: CustomMount_def mount_event_confined)
    then show ?thesis unfolding MountDevice_def by (intro keeps_rules)
  qed
  then show ?thesis unfolding ProcessDevice_def by (intro keeps_rules) blast
qed

lemma confined_SaveRules: "keeps (trace_all Q) (SaveRules os form)"
  unfolding SaveRules_def apply_form_def delete_rule_def UpdateRules_def update_rule_def CreateRules_def
    create_rule_def system_accounts_def by (intro keeps_rules)

lemma confined_list_devices: "keeps (trace_all Q) (list_devices devs)"
  by (induction devs) (unfold list_devices.simps list_device_def, (intro keeps_rules; assumption)+)

lemma confined_run_call: "keeps (trace_all mount_confined) (run_call os lib c)"
  by (cases c)
    (auto intro!: keeps_rules confined_SaveRules confined_list_devices
      simp: ReviewConnectedDevices_def review_row_def ProcessEvent_def RecieveDevice_def
        ApplyMountRulesIfNotMounted_def apply_rule_def GetSystemMountedDevices_def Let_def
        CanAnotherUserUnmount_def CanUserMount_def ListActiveDevices_def ListActiveRules_def
        GetSystemUsersAndGroups_def)



section \<open>The helper of polkit\<close>

text \<open>
  The command line client. \<open>connect\<close> is the making of the proxy and \<open>call_method\<close> a call on
  the bus with its reply; both may throw. Reading a string from a reply that holds none throws.
  The result is the text written to the standard output.
\<close>

definition read_string :: "reply \<Rightarrow> string outcome" where
  "read_string r = (case r of [] \<Rightarrow> throws Runtime_error | x # _ \<Rightarrow> Ok x)"

definition polkit_main ::
  "unit outcome \<Rightarrow> (string \<Rightarrow> string \<Rightarrow> reply outcome) \<Rightarrow> string list \<Rightarrow> string outcome" where
  "polkit_main connect call_method argv =
     (if length argv < 3 then Ok ''EMPTY params''
      else let dev = argv ! 1; action = argv ! 2 in
        if dev = [] \<or> action = [] then Ok ''EMPTY params''
        else case obind connect (\<lambda>_.
            if action = ''unmount'' then obind (call_method ''CanAnotherUserUnmount'' dev) read_string
            else if action = ''mount'' then obind (call_method ''CanUserMount'' dev) read_string
            else Ok []) of
          Ok out \<Rightarrow> Ok out
        | Fail (Exc e) \<Rightarrow> Ok ''Exception''
        | Fail f \<Rightarrow> Fail f)"

text \<open>The bus, with a daemon in the state \<open>s\<close> behind it.\<close>

definition daemon_bus :: "'w os \<Rightarrow> 'w daemon \<Rightarrow> string \<Rightarrow> string \<Rightarrow> reply outcome" where
  "daemon_bus os s method dev = fst (bus_call os method [dev] s)"

lemma CanAnotherUserUnmount_reply:
  "table_inv (st_mounts s) \<Longrightarrow> fst (CanAnotherUserUnmount dev s) =
     Ok [if has_mount dev (st_mounts s) then ''YES'' else ''UNKNOWN_MOUNTPOINT'']"
  by (simp add: CanAnotherUserUnmount_run)

lemma CanUserMount_reply:
  "table_inv (st_perms s) \<Longrightarrow> fst (CanUserMount os dev s) =
    (case fst (UsbUdevDevice_of_params os dev ''add'' (st_world s)) of
       Ok d \<Rightarrow> Ok [if has_rule d (st_perms s) then ''NO'' else ''YES'']
     | Fail (Exc e) \<Rightarrow> Ok [''YES'']
     | Fail f \<Rightarrow> Fail f)"
  by (cases "UsbUdevDevice_of_params os dev ''add'' (st_world s)") (simp add: CanUserMount_run)

text \<open>
  C19: What polkit reads, end to end. With a running daemon, the helper prints \<^verbatim>\<open>YES\<close> for
  unmounting exactly when the table of mount points has the device, and \<^verbatim>\<open>NO\<close> for mounting
  exactly when the device is found and a rule names it. When the search for the device does not
  end, it prints \<^verbatim>\<open>Exception\<close>.
\<close>

theorem polkit_helper_answer:
  assumes "table_inv (st_perms s)" and "table_inv (st_mounts s)" and "dev \<noteq> []"
  shows "polkit_main (Ok ()) (daemon_bus os s) [prog, dev, ''unmount''] =
      Ok (if has_mount dev (st_mounts s) then ''YES'' else ''UNKNOWN_MOUNTPOINT'') \<and>
    polkit_main (Ok ()) (daemon_bus os s) [prog, dev, ''mount''] =
      Ok (case fst (UsbUdevDevice_of_params os dev ''add'' (st_world s)) of
          Ok d \<Rightarrow> if has_rule d (st_perms s) then ''NO'' else ''YES''
        | Fail (Exc e) \<Rightarrow> ''YES''
        | Fail f \<Rightarrow> ''Exception'')"
  using assms(3)
  by (simp add: polkit_main_def daemon_bus_def bus_call_def vtable_def split_beta
      CanAnotherUserUnmount_reply [OF assms(2)] CanUserMount_reply [OF assms(1)] read_string_def
      split: outcome.split failure.split)

theorem polkit_helper_answer_witness:
  "polkit_main (Ok ()) (daemon_bus (stick_os JNull) (sample_daemon empty_world))
     [''helper'', ''/dev/sdb1'', ''mount''] = Ok ''NO''"
  using polkit_helper_answer [of "sample_daemon empty_world" "''/dev/sdb1''" "stick_os JNull" "''helper''"]
  by (simp add: sample_permissions_inv sample_mounts_inv [unfolded mounts_inv_def] stick_found sample_usb_rule)

end
