(* ===== verification/Systemd_Dbus.thy ===== *)
theory Systemd_Dbus
  imports Std_Text
begin

text \<open>
  \<^verbatim>\<open>common/systemd_dbus.hpp\<close> and \<^verbatim>\<open>systemd_dbus.cpp\<close>: the client of systemd with which
  the backend starts, stops, enables and disables the daemon. The bus is a parameter;
  \<open>Runtime_error\<close> stands for \<^verbatim>\<open>sdbus::Error\<close>, which is derived from it. The pauses between
  two questions have no effect on the state and are left out.
\<close>

section \<open>The bus and the client\<close>

datatype bus_value = Bus_string string | Bus_strings "string list" | Bus_bool bool

text \<open>The making of a connection and of a proxy, a method call with its arguments and the values
  of its reply, and the reading of a property of an object.\<close>

record 'w systemd_bus =
  sd_connect :: "('w, unit) prog"
  sd_proxy :: "string \<Rightarrow> ('w, unit) prog"
  sd_call :: "string \<Rightarrow> string \<Rightarrow> bus_value list \<Rightarrow> ('w, bus_value list) prog"
  sd_property :: "string \<Rightarrow> string \<Rightarrow> ('w, bus_value) prog"

record 'w Systemd =
  sd_connected :: bool
  sd_world :: 'w

type_synonym ('w, 'a) sdprog = "('w Systemd, 'a) prog"

definition on_bus :: "('w, 'a) prog \<Rightarrow> ('w, 'a) sdprog" where
  "on_bus m = (\<lambda>s. case m (sd_world s) of (r, w) \<Rightarrow> (r, s\<lparr>sd_world := w\<rparr>))"

text \<open>\<^verbatim>\<open>catch (const sdbus::Error &)\<close> lets every other exception through.\<close>

definition catch_sdbus :: "('s, 'a) prog \<Rightarrow> ('s, 'a) prog \<Rightarrow> ('s, 'a) prog" where
  "catch_sdbus m h = (\<lambda>s. case m s of
     (Fail (Exc e), t) \<Rightarrow> if e = Runtime_error then h t else (Fail (Exc e), t)
   | r \<Rightarrow> r)"

fun bus_string :: "bus_value list \<Rightarrow> string outcome" where
  "bus_string (Bus_string s # vs) = Ok s"
| "bus_string _ = throws Runtime_error"

definition kSystemdPath :: string where "kSystemdPath = ''/org/freedesktop/systemd1''"

definition ConnectToSystemDbus :: "'w systemd_bus \<Rightarrow> ('w, unit) sdprog" where
  "ConnectToSystemDbus sd = noexceptp (catch_sdbus
     (bindp (on_bus (sd_connect sd)) (\<lambda>_. modp (\<lambda>s. s\<lparr>sd_connected := True\<rparr>)))
     (ret ()))"

definition Systemd_construct :: "'w systemd_bus \<Rightarrow> 'w \<Rightarrow> unit outcome \<times> 'w Systemd" where
  "Systemd_construct sd w = ConnectToSystemDbus sd \<lparr>sd_connected = False, sd_world = w\<rparr>"

definition Systemd_Health :: "'w systemd_bus \<Rightarrow> ('w, bool) sdprog" where
  "Systemd_Health sd =
     bindp (getp sd_connected) (\<lambda>connected.
     bindp (if connected then ret () else ConnectToSystemDbus sd) (\<lambda>_.
     getp sd_connected))"

definition CreateProxyToSystemd :: "'w systemd_bus \<Rightarrow> string \<Rightarrow> ('w, unit) sdprog" where
  "CreateProxyToSystemd sd path = on_bus (sd_proxy sd path)"

text \<open>A call of a method of the manager.\<close>

definition manager_call :: "'w systemd_bus \<Rightarrow> string \<Rightarrow> bus_value list \<Rightarrow> ('w, bus_value list) sdprog" where
  "manager_call sd method args =
     bindp (CreateProxyToSystemd sd kSystemdPath) (\<lambda>_. on_bus (sd_call sd kSystemdPath method args))"

section \<open>Questions\<close>

definition IsUnitEnabled :: "'w systemd_bus \<Rightarrow> string \<Rightarrow> ('w, bool option) sdprog" where
  "IsUnitEnabled sd unit_name = noexceptp (
     bindp (Systemd_Health sd) (\<lambda>healthy.
     if \<not> healthy then ret None
     else
       bindp (catch_sdbus
         (bindp (manager_call sd ''GetUnitFileState'' [Bus_string unit_name]) (\<lambda>reply.
          liftO (bus_string reply)))
         (ret [])) (\<lambda>result.
       ret (if result = [] then None else Some (contains result ''enabled'')))))"

definition IsUnitActive :: "'w systemd_bus \<Rightarrow> string \<Rightarrow> ('w, bool option) sdprog" where
  "IsUnitActive sd unit_name = noexceptp (
     bindp (Systemd_Health sd) (\<lambda>healthy.
     if \<not> healthy then ret None
     else
       bindp (catch_sdbus
         (bindp (manager_call sd ''LoadUnit'' [Bus_string unit_name]) (\<lambda>reply.
          bindp (liftO (bus_string reply)) (\<lambda>unit_path.
          bindp (CreateProxyToSystemd sd unit_path) (\<lambda>_.
          bindp (on_bus (sd_property sd unit_path ''ActiveState'')) (\<lambda>active_state.
          liftO (bus_string [active_state]))))))
         (ret [])) (\<lambda>result.
       ret (if result = [] then None else Some (starts_with result ''active'')))))"

section \<open>Jobs\<close>

text \<open>After a request, the state of the unit is asked for once and then ten times more.\<close>

fun await_loop :: "nat \<Rightarrow> ('s, bool option) prog \<Rightarrow> bool \<Rightarrow> ('s, bool option) prog" where
  "await_loop 0 check wanted = ret None"
| "await_loop (Suc i) check wanted =
     bindp check (\<lambda>state. if state = Some wanted then ret (Some True) else await_loop i check wanted)"

definition await_unit :: "('s, bool option) prog \<Rightarrow> bool \<Rightarrow> ('s, bool option) prog" where
  "await_unit check wanted =
     bindp check (\<lambda>state. if state = Some wanted then ret (Some True) else await_loop 10 check wanted)"

definition StartUnit :: "'w systemd_bus \<Rightarrow> string \<Rightarrow> ('w, bool option) sdprog" where
  "StartUnit sd unit_name = noexceptp (
     bindp (Systemd_Health sd) (\<lambda>healthy.
     if \<not> healthy then ret None
     else tryp
       (bindp (manager_call sd ''StartUnit'' [Bus_string unit_name, Bus_string ''replace'']) (\<lambda>_.
        await_unit (IsUnitActive sd unit_name) True))
       (ret None)))"

definition EnableUnit :: "'w systemd_bus \<Rightarrow> string \<Rightarrow> ('w, bool option) sdprog" where
  "EnableUnit sd unit_name = noexceptp (
     bindp (Systemd_Health sd) (\<lambda>healthy.
     if \<not> healthy then ret None
     else tryp
       (bindp (manager_call sd ''EnableUnitFiles'' [Bus_strings [unit_name], Bus_bool False, Bus_bool True]) (\<lambda>_.
        await_unit (IsUnitEnabled sd unit_name) True))
       (ret None)))"

definition DisableUnit :: "'w systemd_bus \<Rightarrow> string \<Rightarrow> ('w, bool option) sdprog" where
  "DisableUnit sd unit_name = noexceptp (
     bindp (Systemd_Health sd) (\<lambda>healthy.
     if \<not> healthy then ret None
     else tryp
       (bindp (manager_call sd ''DisableUnitFiles'' [Bus_strings [unit_name], Bus_bool False]) (\<lambda>_.
        await_unit (IsUnitEnabled sd unit_name) False))
       (ret None)))"

definition RestartUnit :: "'w systemd_bus \<Rightarrow> string \<Rightarrow> ('w, bool option) sdprog" where
  "RestartUnit sd unit_name = noexceptp (
     bindp (Systemd_Health sd) (\<lambda>healthy.
     if \<not> healthy then ret None
     else tryp
       (bindp (manager_call sd ''RestartUnit'' [Bus_string unit_name, Bus_string ''replace'']) (\<lambda>_.
        await_unit (IsUnitActive sd unit_name) True))
       (ret None)))"

definition StopUnit :: "'w systemd_bus \<Rightarrow> string \<Rightarrow> ('w, bool option) sdprog" where
  "StopUnit sd unit_name = noexceptp (
     bindp (Systemd_Health sd) (\<lambda>healthy.
     if \<not> healthy then ret None
     else tryp
       (bindp (IsUnitActive sd unit_name) (\<lambda>is_active.
        if is_active = Some False then ret (Some True)
        else
          bindp (manager_call sd ''StopUnit'' [Bus_string unit_name, Bus_string ''replace'']) (\<lambda>_.
          await_unit (IsUnitActive sd unit_name) False)))
       (ret None)))"

section \<open>A bus that raises only its own exception\<close>

definition sdbus_only :: "('s, 'a) prog \<Rightarrow> bool" where
  "sdbus_only m \<longleftrightarrow> (\<forall>s. (\<exists>a t. m s = (Ok a, t)) \<or> (\<exists>t. m s = (throws Runtime_error, t)))"

definition succeeds :: "('s, 'a) prog \<Rightarrow> bool" where
  "succeeds m \<longleftrightarrow> (\<forall>s. \<exists>a t. m s = (Ok a, t))"

definition bus_ok :: "'w systemd_bus \<Rightarrow> bool" where
  "bus_ok sd \<longleftrightarrow> sdbus_only (sd_connect sd) \<and> (\<forall>p. sdbus_only (sd_proxy sd p)) \<and>
     (\<forall>p m args. sdbus_only (sd_call sd p m args)) \<and> (\<forall>p name. sdbus_only (sd_property sd p name))"

named_theorems sdbus_rules

lemma succeedsI: "(\<And>s. \<exists>a t. m s = (Ok a, t)) \<Longrightarrow> succeeds m"
  by (simp add: succeeds_def)

lemma succeedsE: "succeeds m \<Longrightarrow> (\<And>a t. m s = (Ok a, t) \<Longrightarrow> R) \<Longrightarrow> R"
  unfolding succeeds_def by blast

lemma sdbus_onlyE:
  assumes "sdbus_only m" and "\<And>a t. m s = (Ok a, t) \<Longrightarrow> R" and "\<And>t. m s = (throws Runtime_error, t) \<Longrightarrow> R"
  shows R
  using assms unfolding sdbus_only_def by blast

lemma sdbus_only_on_bus [sdbus_rules]: "sdbus_only m \<Longrightarrow> sdbus_only (on_bus m)"
  unfolding sdbus_only_def on_bus_def by (auto split: prod.splits) (metis prod.inject)

lemma sdbus_only_bindp [sdbus_rules]:
  "sdbus_only m \<Longrightarrow> (\<And>a. sdbus_only (k a)) \<Longrightarrow> sdbus_only (bindp m k)"
  unfolding sdbus_only_def by (metis bindp_Ok bindp_Fail)

lemma sdbus_only_simple [sdbus_rules]:
  "sdbus_only (ret a)" "sdbus_only (modp f)" "sdbus_only (getp g)" "sdbus_only (liftO (bus_string vs))"
  by (auto simp: sdbus_only_def) (cases vs rule: bus_string.cases; simp)+

lemma sdbus_only_if: "sdbus_only m \<Longrightarrow> sdbus_only n \<Longrightarrow> sdbus_only (if b then m else n)"
  by simp

lemma succeeds_simple [sdbus_rules]: "succeeds (ret a)" "succeeds (modp f)" "succeeds (getp g)"
  by (simp_all add: succeeds_def)

lemma succeeds_bindp [sdbus_rules]:
  "succeeds m \<Longrightarrow> (\<And>a. succeeds (k a)) \<Longrightarrow> succeeds (bindp m k)"
  unfolding succeeds_def by (metis bindp_Ok)

lemma succeeds_catch [sdbus_rules]: "sdbus_only m \<Longrightarrow> succeeds h \<Longrightarrow> succeeds (catch_sdbus m h)"
proof (rule succeedsI)
  fix s
  assume m: "sdbus_only m" and h: "succeeds h"
  have h': "\<exists>a u. h t = (Ok a, u)" for t using h by (simp add: succeeds_def)
  show "\<exists>a t. catch_sdbus m h s = (Ok a, t)"
    by (rule sdbus_onlyE [OF m, of s]) (use h' in \<open>auto simp: catch_sdbus_def\<close>)
qed

lemma succeeds_noexcept [sdbus_rules]: "succeeds m \<Longrightarrow> succeeds (noexceptp m)"
  unfolding succeeds_def by (metis noexceptp_Ok)

lemma succeeds_if [sdbus_rules]: "succeeds m \<Longrightarrow> succeeds n \<Longrightarrow> succeeds (if b then m else n)"
  by simp

lemma sdbus_only_bus [sdbus_rules]:
  assumes "bus_ok sd"
  shows "sdbus_only (sd_connect sd)" "sdbus_only (sd_proxy sd p)" "sdbus_only (sd_call sd p m args)"
    "sdbus_only (sd_property sd p name)"
  using assms by (simp_all add: bus_ok_def)

lemma sdbus_only_manager [sdbus_rules]: "bus_ok sd \<Longrightarrow> sdbus_only (manager_call sd method args)"
  unfolding manager_call_def CreateProxyToSystemd_def by (intro sdbus_rules)

lemma succeeds_Health [sdbus_rules]: "bus_ok sd \<Longrightarrow> succeeds (Systemd_Health sd)"
  unfolding Systemd_Health_def ConnectToSystemDbus_def by (intro sdbus_rules)

lemma succeeds_questions [sdbus_rules]:
  assumes "bus_ok sd"
  shows "succeeds (IsUnitEnabled sd u)" and "succeeds (IsUnitActive sd u)"
  using assms unfolding IsUnitEnabled_def IsUnitActive_def CreateProxyToSystemd_def
  by (intro sdbus_rules; assumption)+

lemma succeeds_sdbus: "succeeds m \<Longrightarrow> sdbus_only m"
  by (auto simp: succeeds_def sdbus_only_def)

lemma succeeds_tryp: "sdbus_only m \<Longrightarrow> succeeds h \<Longrightarrow> succeeds (tryp m h)"
proof (rule succeedsI)
  fix s
  assume m: "sdbus_only m" and h: "succeeds h"
  have h': "\<exists>a u. h t = (Ok a, u)" for t using h by (simp add: succeeds_def)
  show "\<exists>a t. tryp m h s = (Ok a, t)"
    by (rule sdbus_onlyE [OF m, of s]) (use h' in \<open>auto simp: tryp_def\<close>)
qed

lemma succeeds_option:
  "(x = None \<Longrightarrow> succeeds m) \<Longrightarrow> (\<And>a. x = Some a \<Longrightarrow> succeeds (f a)) \<Longrightarrow>
   succeeds (case x of None \<Rightarrow> m | Some a \<Rightarrow> f a)"
  by (simp split: option.splits)

section \<open>What a job gives back\<close>

text \<open>The first \<open>n\<close> answers to a question asked again and again.\<close>

fun answers :: "nat \<Rightarrow> ('s, 'a) prog \<Rightarrow> 's \<Rightarrow> 'a list" where
  "answers 0 check s = []"
| "answers (Suc n) check s =
     (case check s of (Ok a, t) \<Rightarrow> a # answers n check t | (Fail f, t) \<Rightarrow> [])"

definition job_result :: "('s, 'a) prog \<Rightarrow> ('s, bool option) prog \<Rightarrow> bool \<Rightarrow> 's \<Rightarrow> bool option" where
  "job_result request check wanted s =
     (case request s of
        (Ok a, t) \<Rightarrow> if Some wanted \<in> set (answers 11 check t) then Some True else None
      | (Fail f, t) \<Rightarrow> None)"

lemma await_loop_answers:
  assumes "succeeds check"
  shows "\<exists>t. await_loop n check wanted s =
    (Ok (if Some wanted \<in> set (answers n check s) then Some True else None), t)"
proof (induction n arbitrary: s)
  case (Suc n)
  obtain a t where a: "check s = (Ok a, t)" using assms by (rule succeedsE)
  show ?case using Suc.IH [of t] by (cases "a = Some wanted") (auto simp: a)
qed simp

lemma await_unit_loop: "await_unit check wanted = await_loop 11 check wanted"
proof -
  have "(11 :: nat) = Suc 10" by simp
  then show ?thesis by (simp only: await_loop.simps(2) await_unit_def)
qed

lemma succeeds_await: "succeeds check \<Longrightarrow> succeeds (await_unit check wanted)"
proof (rule succeedsI)
  fix s
  assume "succeeds check"
  from await_loop_answers [OF this] show "\<exists>a t. await_unit check wanted s = (Ok a, t)"
    unfolding await_unit_loop by metis
qed

lemma succeeds_job:
  "bus_ok sd \<Longrightarrow> sdbus_only m \<Longrightarrow> succeeds (noexceptp
     (bindp (Systemd_Health sd) (\<lambda>healthy. if \<not> healthy then ret None else tryp m (ret None))))"
  by (rule succeeds_noexcept, rule succeeds_bindp, erule succeeds_Health, rule succeeds_if, rule succeeds_simple)
    (rule succeeds_tryp, assumption, rule succeeds_simple)

lemma sdbus_only_request:
  "bus_ok sd \<Longrightarrow> succeeds check \<Longrightarrow> sdbus_only (bindp (manager_call sd m args) (\<lambda>_. await_unit check b))"
  by (rule sdbus_only_bindp, erule sdbus_only_manager, rule succeeds_sdbus, erule succeeds_await)

lemma succeeds_jobs:
  assumes "bus_ok sd"
  shows "succeeds (StartUnit sd u)" and "succeeds (RestartUnit sd u)" and "succeeds (EnableUnit sd u)"
    and "succeeds (DisableUnit sd u)"
  unfolding StartUnit_def RestartUnit_def EnableUnit_def DisableUnit_def
  by (rule succeeds_job [OF assms sdbus_only_request [OF assms]], rule succeeds_questions [OF assms])+

lemma succeeds_StopUnit:
  assumes "bus_ok sd"
  shows "succeeds (StopUnit sd u)"
  unfolding StopUnit_def
  by (rule succeeds_job [OF assms sdbus_only_bindp [OF succeeds_sdbus [OF succeeds_questions(2) [OF assms]]]])
    (rule sdbus_only_if [OF sdbus_only_simple(1) sdbus_only_request [OF assms succeeds_questions(2) [OF assms]]])

lemma unit_job:
  assumes "sdbus_only m" and "succeeds check"
  shows "fst (tryp (bindp m (\<lambda>_. await_unit check wanted)) (ret None) s) = Ok (job_result m check wanted s)"
  using assms(1)
proof (rule sdbus_onlyE [where s = s])
  fix a t
  assume m: "m s = (Ok a, t)"
  obtain u where "await_unit check wanted t =
      (Ok (if Some wanted \<in> set (answers 11 check t) then Some True else None), u)"
    using await_loop_answers [OF assms(2)] unfolding await_unit_loop by blast
  then show ?thesis by (simp add: tryp_def m job_result_def)
next
  fix t
  assume "m s = (throws Runtime_error, t)"
  then show ?thesis by (simp add: tryp_def job_result_def)
qed

lemma healthy: "sd_connected s \<Longrightarrow> Systemd_Health sd s = (Ok True, s)"
  by (simp add: Systemd_Health_def)

lemma when_healthy:
  assumes "fst (m s) = Ok r" and "sd_connected s"
  shows "fst (noexceptp (bindp (Systemd_Health sd) (\<lambda>healthy. if \<not> healthy then ret None else m)) s) = Ok r"
  using assms by (cases "m s") (simp add: noexceptp_def healthy [OF assms(2)])


text \<open>A unit that becomes active after some questions.\<close>

definition slow_bus :: "nat systemd_bus" where
  "slow_bus = \<lparr>sd_connect = ret (), sd_proxy = (\<lambda>p. ret ()),
     sd_call = (\<lambda>p m args. ret [Bus_string ''/unit'']),
     sd_property = (\<lambda>p name n. (Ok (Bus_string (if n = 0 then ''active'' else ''activating'')), n - 1))\<rparr>"

lemma slow_bus_ok: "bus_ok slow_bus"
  by (simp add: bus_ok_def slow_bus_def sdbus_only_def)

definition slow_client :: "nat \<Rightarrow> nat Systemd" where
  "slow_client n = \<lparr>sd_connected = True, sd_world = n\<rparr>"

lemma slow_calls: "manager_call slow_bus m args s = (Ok [Bus_string ''/unit''], s)"
  by (simp add: manager_call_def CreateProxyToSystemd_def slow_bus_def on_bus_def bindp_def)

lemma slow_active: "IsUnitActive slow_bus u (slow_client n) = (Ok (Some (n = 0)), slow_client (n - 1))"
  by (simp add: IsUnitActive_def healthy slow_client_def slow_calls catch_sdbus_def noexceptp_def bindp_def
      CreateProxyToSystemd_def on_bus_def, simp add: slow_bus_def starts_with_def)

lemma slow_answers:
  "answers m (IsUnitActive slow_bus u) (slow_client n) = replicate (min m n) (Some False) @ replicate (m - n) (Some True)"
proof (induction m arbitrary: n)
  case (Suc m)
  then show ?case by (cases n) (simp_all add: slow_active)
qed simp


end
