(* ===== verification/Lisp_Text.thy ===== *)
theory Lisp_Text
  imports Std_Text
begin

text \<open>
  The text that goes to the Alterator frontend, a Lisp program:
  \<^verbatim>\<open>alterator_bindings/common_utils.hpp\<close>, \<^verbatim>\<open>common_utils.cpp\<close>,
  \<^verbatim>\<open>serializable_for_lisp.hpp\<close>, \<^verbatim>\<open>lisp_message.hpp\<close> and \<^verbatim>\<open>lisp_message.cpp\<close>.
  What the escaping functions are for is stated with a reader of string literals, in which a
  backslash takes the next character as it is.
\<close>

abbreviation dquote :: char where "dquote \<equiv> CHR 0x22"
abbreviation backslash :: char where "backslash \<equiv> CHR 0x5C"

type_synonym vecPairs = "(string \<times> string) list"

section \<open>Quotes\<close>

definition WrapWithQuotes :: "string \<Rightarrow> string" where
  "WrapWithQuotes str = [dquote] @ str @ [dquote]"

definition UnQuote :: "string \<Rightarrow> string" where
  "UnQuote str =
     (if 2 \<le> length str \<and> str ! 0 = dquote \<and> last str = dquote
      then take (length str - 2) (drop 1 str) else str)"

definition QuoteIfNotQuoted :: "string \<Rightarrow> string" where
  "QuoteIfNotQuoted str =
     (if str = [] then [dquote, dquote]
      else if str ! 0 \<noteq> dquote \<or> last str \<noteq> dquote then WrapWithQuotes str else str)"

text \<open>\<^verbatim>\<open>back()\<close> of an empty string is undefined.\<close>

fun escape_quotes_loop :: "string \<Rightarrow> string \<Rightarrow> string outcome" where
  "escape_quotes_loop res [] = Ok res"
| "escape_quotes_loop res (c # str) =
     (if c = dquote then
        if res = [] then Fail Undefined
        else if last res \<noteq> backslash then escape_quotes_loop (res @ [backslash, c]) str
        else escape_quotes_loop (res @ [c]) str
      else escape_quotes_loop (res @ [c]) str)"

definition EscapeQuotes :: "string \<Rightarrow> string outcome" where
  "EscapeQuotes str = escape_quotes_loop [] str"

fun EscapeAll :: "string \<Rightarrow> string" where
  "EscapeAll [] = []"
| "EscapeAll (c # str) =
     (if c = dquote \<or> c = backslash then backslash # c # EscapeAll str else c # EscapeAll str)"

definition escape_map :: "char \<Rightarrow> string option" where
  "escape_map = map_of [(CHR 0x09, ''&#9;''), (CHR 0x0A, ''&#10;''), (dquote, ''&#34;''),
     (backslash, ''&#92;''), (CHR 0x27, ''&#39;'')]"

fun HtmlEscape :: "string \<Rightarrow> string" where
  "HtmlEscape [] = []"
| "HtmlEscape (c # str) = (case escape_map c of None \<Rightarrow> [c] | Some e \<Rightarrow> e) @ HtmlEscape str"

section \<open>Lists\<close>

text \<open>The first pair gives only its value, every other one its name and its value.\<close>

definition ToLisp :: "vecPairs \<Rightarrow> string" where
  "ToLisp vec = ''('' @
     (case vec of
        [] \<Rightarrow> []
      | (n, v) # rest \<Rightarrow> WrapWithQuotes v @ '' '' @
          concat (map (\<lambda>(n, v). WrapWithQuotes n @ '' '' @ WrapWithQuotes v @ '' '') rest)) @ '')''"

definition ToLispAssoc :: "vecPairs \<Rightarrow> string" where
  "ToLispAssoc vec = ''('' @ concat (map (\<lambda>(n, v). ''('' @ n @ '' '' @ WrapWithQuotes v @ '')'') vec) @ '')''"

definition ToLisp_pair :: "string \<times> string \<Rightarrow> string" where
  "ToLisp_pair data = ''('' @ WrapWithQuotes (snd data) @ '')''"

section \<open>Bytes and numbers\<close>

text \<open>A difference of type \<^verbatim>\<open>size_t\<close>.\<close>

definition size_minus :: "nat \<Rightarrow> nat \<Rightarrow> nat" where
  "size_minus n k = (if k \<le> n then n - k else 2 ^ 64 + n - k)"

text \<open>The loop of \<^verbatim>\<open>UnUtf8\<close>: an exception ends it with what was collected so far.\<close>

function un_utf8_loop :: "nat \<Rightarrow> string \<Rightarrow> nat \<Rightarrow> string \<Rightarrow> string" where
  "un_utf8_loop iter str ind res =
     (if length str \<le> ind then res
      else if 1000000 < iter + 1 then res
      else let b = of_char (str ! ind) :: nat in
        if b < 128 then
          un_utf8_loop (iter + 1) str (ind + 1)
            (if str ! ind \<noteq> dquote \<and> str ! ind \<noteq> CHR 0x27 then res @ [str ! ind] else res)
        else if b div 32 = 6 \<and> ind < size_minus (length str) 1 then un_utf8_loop (iter + 1) str (ind + 2) res
        else if b div 16 = 14 \<and> ind < size_minus (length str) 2 then un_utf8_loop (iter + 1) str (ind + 3) res
        else if b div 8 = 30 then un_utf8_loop (iter + 1) str (ind + 4) res
        else res)"
  by pat_completeness auto
termination by (relation "measure (\<lambda>(iter, _). 1000000 - iter)") auto

declare un_utf8_loop.simps [simp del]

definition UnUtf8 :: "string \<Rightarrow> string" where
  "UnUtf8 str = un_utf8_loop 0 str 0 []"

text \<open>The number is narrowed to 32 bits.\<close>

definition StrToUint32 :: "string \<Rightarrow> u32 option" where
  "StrToUint32 str =
     (if str \<noteq> [] \<and> str ! 0 = CHR ''-'' then None
      else case stoul str of
        Fail f \<Rightarrow> None
      | Ok (res, pos) \<Rightarrow> if pos \<noteq> length str then None else Some (ucast res))"

section \<open>Files\<close>

text \<open>\<^verbatim>\<open>path::extension\<close>: from the last dot of the file name, unless it is its first character
  or the name is two dots.\<close>

definition file_name :: "string \<Rightarrow> string" where
  "file_name p = rev (takeWhile (\<lambda>c. c \<noteq> CHR ''/'') (rev p))"

definition extension :: "string \<Rightarrow> string" where
  "extension p =
     (let f = file_name p; e = takeWhile (\<lambda>c. c \<noteq> CHR ''.'') (rev f)
      in if f = ''..'' \<or> length f \<le> length e + 1 then [] else CHR ''.'' # rev e)"

text \<open>The entries of the recursive iteration with their depth, whether they are regular files,
  and their paths.\<close>

fun find_files_loop :: "string \<Rightarrow> (nat \<times> bool \<times> string) list \<Rightarrow> string list" where
  "find_files_loop ext [] = []"
| "find_files_loop ext ((depth, regular, path) # entries) =
     (if 30 < depth then []
      else if regular \<and> extension path = ext then path # find_files_loop ext entries
      else find_files_loop ext entries)"

definition FindAllFilesInDirRecursive ::
  "(string \<Rightarrow> (nat \<times> bool \<times> string) list option) \<Rightarrow> string \<times> string \<Rightarrow> string list" where
  "FindAllFilesInDirRecursive walk path_ext =
     (case walk (fst path_ext) of None \<Rightarrow> [] | Some entries \<Rightarrow> find_files_loop (snd path_ext) entries)"

section \<open>Messages\<close>

record LispMessage =
  lm_action :: string
  lm_objects :: string
  lm_params :: vecPairs

definition print_message :: "LispMessage \<Rightarrow> string" where
  "print_message mes = ''Action: '' @ lm_action mes @ [CHR 0x0A] @ ''Objects: '' @ lm_objects mes @ [CHR 0x0A] @
     concat (map (\<lambda>(k, v). k @ '' : '' @ v @ [CHR 0x0A]) (lm_params mes))"

section \<open>Reading a string literal\<close>

text \<open>What follows the opening quote: the string, and the rest after the closing quote.\<close>

fun lisp_body :: "string \<Rightarrow> (string \<times> string) option" where
  "lisp_body [] = None"
| "lisp_body (c # s) =
     (if c = dquote then Some ([], s)
      else if c = backslash then
        (case s of
           [] \<Rightarrow> None
         | d # s' \<Rightarrow> (case lisp_body s' of None \<Rightarrow> None | Some (t, rest) \<Rightarrow> Some (d # t, rest)))
      else (case lisp_body s of None \<Rightarrow> None | Some (t, rest) \<Rightarrow> Some (c # t, rest)))"

fun lisp_literal :: "string \<Rightarrow> (string \<times> string) option" where
  "lisp_literal [] = None"
| "lisp_literal (c # s) = (if c = dquote then lisp_body s else None)"

text \<open>
  The contract of an escaping: between quotes it is read as one literal with a known value,
  whatever follows. A list of escaped values is then read back value by value.
\<close>

locale escaping =
  fixes esc :: "string \<Rightarrow> string" and val :: "string \<Rightarrow> string"
  assumes body: "lisp_body (esc s @ dquote # rest) = Some (val s, rest)"
begin

lemma literal: "lisp_literal (WrapWithQuotes (esc s) @ rest) = Some (val s, rest)"
  by (simp add: WrapWithQuotes_def body)

end

fun read_literals :: "nat \<Rightarrow> string \<Rightarrow> (string list \<times> string) option" where
  "read_literals 0 s = Some ([], s)"
| "read_literals (Suc n) s =
     (case lisp_literal s of
        Some (v, c # rest) \<Rightarrow>
          if c = CHR '' ''
          then (case read_literals n rest of None \<Rightarrow> None | Some (vs, r) \<Rightarrow> Some (v # vs, r))
          else None
      | _ \<Rightarrow> None)"

context escaping
begin

lemma literals:
  "read_literals (length vs) (concat (map (\<lambda>v. WrapWithQuotes (esc v) @ '' '') vs) @ rest) =
     Some (map val vs, rest)"
  by (induction vs) (simp_all add: literal)

end

lemma EscapeAll_body: "lisp_body (EscapeAll s @ dquote # rest) = Some (s, rest)"
  by (induction s) auto

interpretation escape_all: escaping EscapeAll "\<lambda>s. s"
  by unfold_locales (rule EscapeAll_body)

definition plain :: "char \<Rightarrow> bool" where
  "plain c \<longleftrightarrow> c \<noteq> dquote \<and> c \<noteq> backslash"

lemma lisp_body_plain: "list_all plain s \<Longrightarrow> lisp_body (s @ dquote # rest) = Some (s, rest)"
  by (induction s) (auto simp: plain_def)

lemma HtmlEscape_plain: "list_all plain (HtmlEscape s)"
  by (induction s) (auto simp: escape_map_def plain_def)

interpretation html_escape: escaping HtmlEscape HtmlEscape
  by unfold_locales (rule lisp_body_plain [OF HtmlEscape_plain])

section \<open>Escaping quotes\<close>

text \<open>On a text without backslashes, all quotes after the first character are escaped.\<close>

lemma escape_quotes_loop_all:
  "backslash \<notin> set str \<Longrightarrow> res \<noteq> [] \<Longrightarrow> last res \<noteq> backslash \<Longrightarrow>
   escape_quotes_loop res str = Ok (res @ EscapeAll str)"
  by (induction str arbitrary: res) auto

lemma EscapeQuotes_all:
  assumes "backslash \<notin> set str" and "str = [] \<or> hd str \<noteq> dquote"
  shows "EscapeQuotes str = Ok (EscapeAll str)"
  using assms by (cases str) (auto simp: EscapeQuotes_def escape_quotes_loop_all)

lemma escape_quotes_loop_append:
  "escape_quotes_loop res (a @ b) = obind (escape_quotes_loop res a) (\<lambda>r. escape_quotes_loop r b)"
  by (induction a arbitrary: res) auto

lemma escape_quotes_loop_extends:
  "res \<noteq> [] \<Longrightarrow> \<exists>t. escape_quotes_loop res str = Ok (res @ t)"
proof (induction str arbitrary: res)
  case (Cons c str)
  have "\<exists>t. escape_quotes_loop (res @ xs) str = Ok (res @ t)" if "xs \<noteq> []" for xs
    using Cons.IH [of "res @ xs"] Cons.prems by auto
  from this [of "[c]"] this [of "[backslash, c]"] Cons.prems show ?case by auto
qed simp

lemma lisp_body_escaped: "lisp_body (EscapeAll s @ rest) =
    (case lisp_body rest of None \<Rightarrow> None | Some (t, r) \<Rightarrow> Some (s @ t, r))"
  by (induction s) (auto split: option.splits prod.splits)

lemma EscapeQuotes_literal:
  assumes "backslash \<notin> set str" and "str = [] \<or> hd str \<noteq> dquote"
  shows "\<exists>e. EscapeQuotes str = Ok e \<and> lisp_literal (WrapWithQuotes e @ rest) = Some (str, rest)"
  using EscapeQuotes_all [OF assms] escape_all.literal by blast

text \<open>
  A text without backslashes that does not start with a quote is escaped so that the
  frontend reads back exactly this text.
\<close>

theorem escape_quotes_reads_back:
  assumes "backslash \<notin> set str" and "str = [] \<or> hd str \<noteq> dquote"
  shows "\<exists>e. EscapeQuotes str = Ok e \<and> lisp_literal (WrapWithQuotes e @ rest) = Some (str, rest)"
  using assms by (rule EscapeQuotes_literal)

theorem escape_quotes_reads_back_witness:
  "\<exists>e. EscapeQuotes (''['' @ [dquote] @ '']'') = Ok e \<and>
     lisp_literal (WrapWithQuotes e @ '')'') = Some (''['' @ [dquote] @ '']'', '')'')"
  by (rule escape_quotes_reads_back) simp_all

text \<open>
  C32: A backslash before a quote is taken for an escape that is already there. In JSON a value
  that ends with a backslash is printed with two of them before its closing quote: the
  frontend reads the literal only up to this quote, and what follows in the text is read as
  Lisp code.
\<close>

theorem escape_quotes_ends_literal:
  assumes "backslash \<notin> set p" and "p \<noteq> []" and "hd p \<noteq> dquote"
  shows "\<exists>e code. EscapeQuotes (p @ [backslash, backslash, dquote] @ q) = Ok e \<and>
    lisp_literal (WrapWithQuotes e) = Some (p @ [backslash], code) \<and>
    (q \<noteq> [] \<longrightarrow> code \<noteq> [dquote])"
proof -
  let ?r = "EscapeAll p @ [backslash, backslash, dquote]"
  have p: "escape_quotes_loop [] p = Ok (EscapeAll p)"
    using EscapeQuotes_all [of p] assms by (simp add: EscapeQuotes_def)
  have ne: "EscapeAll p \<noteq> []" using assms(2) by (cases p) auto
  obtain t where t: "escape_quotes_loop ?r q = Ok (?r @ t)"
    using escape_quotes_loop_extends [of ?r q] by auto
  have "escape_quotes_loop [] (p @ [backslash, backslash, dquote] @ q) = Ok (?r @ t)"
    using p ne t by (simp add: escape_quotes_loop_append)
  moreover have "lisp_literal (WrapWithQuotes (?r @ t)) = Some (p @ [backslash], t @ [dquote])"
    by (simp add: WrapWithQuotes_def lisp_body_escaped)
  moreover have "q \<noteq> [] \<longrightarrow> t \<noteq> []"
  proof
    assume "q \<noteq> []"
    then obtain c q' where q: "q = c # q'" by (cases q) auto
    show "t \<noteq> []"
    proof
      assume "t = []"
      moreover have "\<exists>u. escape_quotes_loop (?r @ xs) q' = Ok ((?r @ xs) @ u)" for xs
        by (rule escape_quotes_loop_extends) simp
      from this [of "[c]"] this [of "[backslash, c]"] have "\<exists>u. u \<noteq> [] \<and> escape_quotes_loop ?r q = Ok (?r @ u)"
        by (auto simp: q)
      ultimately show False using t by auto
    qed
  qed
  ultimately show ?thesis unfolding EscapeQuotes_def by fastforce
qed

theorem escape_quotes_ends_literal_witness:
  "\<exists>e code. EscapeQuotes (''[a'' @ [backslash, backslash, dquote] @ '']'') = Ok e \<and>
    lisp_literal (WrapWithQuotes e) = Some (''[a'' @ [backslash], code) \<and>
    ('']'' \<noteq> ([] :: string) \<longrightarrow> code \<noteq> [dquote])"
  by (rule escape_quotes_ends_literal) simp_all

section \<open>Dropping the bytes above 127\<close>

definition kept :: "char \<Rightarrow> bool" where
  "kept c \<longleftrightarrow> c \<noteq> dquote \<and> c \<noteq> CHR 0x27"

definition is_ascii :: "char \<Rightarrow> bool" where
  "is_ascii c \<longleftrightarrow> (of_char c :: nat) < 128"

lemma un_utf8_loop_ascii:
  "list_all is_ascii str \<Longrightarrow> ind \<le> length str \<Longrightarrow> iter \<le> 1000000 \<Longrightarrow>
   un_utf8_loop iter str ind res = res @ filter kept (take (1000000 - iter) (drop ind str))"
proof (induction iter str ind res rule: un_utf8_loop.induct)
  case (1 iter str ind res)
  show ?case
  proof (cases "length str \<le> ind \<or> iter = 1000000")
    case True
    then show ?thesis by (subst un_utf8_loop.simps) auto
  next
    case False
    then have less: "ind < length str" and more: "1000000 - iter = Suc (1000000 - (iter + 1))"
      using 1(7) by auto
    have d: "drop ind str = str ! ind # drop (ind + 1) str"
      using less by (simp add: Cons_nth_drop_Suc)
    have b: "(of_char (str ! ind) :: nat) < 128" using "1.prems"(1) less by (simp add: list_all_length is_ascii_def)
    have "un_utf8_loop iter str ind res = un_utf8_loop (iter + 1) str (ind + 1)
        (if kept (str ! ind) then res @ [str ! ind] else res)"
      using False 1(7) b by (subst un_utf8_loop.simps) (simp add: kept_def)
    also have "\<dots> = (if kept (str ! ind) then res @ [str ! ind] else res) @
        filter kept (take (1000000 - (iter + 1)) (drop (ind + 1) str))"
      using 1(1) [OF _ _ refl b] False "1.prems" less by (simp add: kept_def [abs_def])
    finally show ?thesis by (simp add: d more)
  qed
qed

text \<open>
  On ASCII text \<^verbatim>\<open>UnUtf8\<close> removes the quotes and apostrophes and nothing else, up to
  its limit of a million steps: of a longer text only the first million characters are looked
  at.
\<close>

theorem un_utf8_ascii:
  assumes "list_all is_ascii str"
  shows "UnUtf8 str = filter kept (take 1000000 str)"
  using un_utf8_loop_ascii [OF assms, of 0 0 "[]"] by (simp add: UnUtf8_def)

theorem un_utf8_ascii_witness: "UnUtf8 [CHR ''a'', dquote, CHR ''b''] = ''ab''"
  using un_utf8_ascii [of "[CHR ''a'', dquote, CHR ''b'']"] by (simp add: is_ascii_def kept_def)

lemma StrToUint32_printed:
  assumes "n < 2 ^ 64"
  shows "StrToUint32 (nat_to_string n) = Some (word_of_nat n)"
proof -
  have "nat_to_string n ! 0 \<noteq> CHR ''-''"
    using digit_not_sign [OF nat_to_string_digits [OF hd_in_set [OF nat_to_string_nonempty]]]
    by (simp add: hd_conv_nth [OF nat_to_string_nonempty, symmetric])
  moreover have "take_bit 64 n = n" using assms by (simp add: take_bit_nat_eq_self_iff)
  ultimately show ?thesis
    using assms by (simp add: StrToUint32_def stoul_nat_to_string unsigned_of_nat)
qed

text \<open>
  The number read by the bindings is the one of the daemon modulo \<open>2 ^ 32\<close>: larger numbers
  are accepted and narrowed.
\<close>

theorem str_to_uint32_wraps:
  assumes "n < 2 ^ 64"
  shows "StrToUint32 (nat_to_string n) = Some (word_of_nat n)"
  using assms by (rule StrToUint32_printed)

theorem str_to_uint32_wraps_witness: "StrToUint32 (nat_to_string 4294967297) = Some 1"
  using str_to_uint32_wraps [of 4294967297] by simp

section \<open>The log of the bindings\<close>

text \<open>
  \<^verbatim>\<open>log.hpp\<close>: a temporary of one of five classes writes its prefix when it is made, each
  value as it is given to \<^verbatim>\<open>operator<<\<close>, and a line feed when it is destroyed. The values
  are the texts that the stream prints for them.
\<close>

datatype log_class = Log_Debug | Log_Info | Log_Warning | Log_Error | Log_Test

primrec log_prefix :: "log_class \<Rightarrow> string" where
  "log_prefix Log_Debug = ''[DEBUG] ''"
| "log_prefix Log_Info = ''[INFO] ''"
| "log_prefix Log_Warning = ''[WARNING] ''"
| "log_prefix Log_Error = ''[ERROR] ''"
| "log_prefix Log_Test = ''[TEST] ''"

definition log_line :: "log_class \<Rightarrow> string list \<Rightarrow> string" where
  "log_line cls vals = log_prefix cls @ concat vals @ [CHR 0x0A]"

lemma log_line_class:
  assumes "log_line cls vals = log_line cls' vals'"
  shows "cls = cls' \<and> concat vals = concat vals'"
  using assms by (cases cls; cases cls') (simp_all add: log_line_def)

end
