(* ===== verification/Message_Reader.thy ===== *)
theory Message_Reader
  imports Lisp_Text
begin

text \<open>
  \<^verbatim>\<open>alterator_bindings/message_reader.hpp\<close>, \<^verbatim>\<open>message_reader.cpp\<close>,
  \<^verbatim>\<open>message_dispatcher.hpp\<close> and \<^verbatim>\<open>message_dispatcher.cpp\<close>: the loop that reads the
  requests of the frontend from the standard input, line by line. The requests that it sends to
  the dispatcher are a list; what the dispatcher answers has no effect on the loop.
\<close>

section \<open>The loop\<close>

record reader =
  rd_in_progress :: bool
  rd_action :: string
  rd_objects :: string
  rd_params :: vecPairs

definition idle :: reader where
  "idle = \<lparr>rd_in_progress = False, rd_action = [], rd_objects = [], rd_params = []\<rparr>"

definition kStrAction :: string where "kStrAction = ''action:''"
definition kStrObjects :: string where "kStrObjects = ''_objects:''"
definition mess_begin :: string where "mess_begin = ''_message:begin''"
definition mess_end :: string where "mess_end = ''_message:end''"

text \<open>\<^verbatim>\<open>emplace\<close> keeps a value that is already there.\<close>

definition params_emplace :: "string \<Rightarrow> string \<Rightarrow> vecPairs \<Rightarrow> vecPairs" where
  "params_emplace k v ps = (if map_of ps k = None then ps @ [(k, v)] else ps)"

text \<open>One line: the new state with the requests sent, or \<open>None\<close> for the end of the loop.\<close>

definition reader_line :: "string \<Rightarrow> reader \<Rightarrow> (reader \<times> LispMessage list) option" where
  "reader_line raw r =
     (let line = trim raw in
      if contains line mess_begin then Some (r\<lparr>rd_in_progress := True\<rparr>, [])
      else if \<not> rd_in_progress r then None
      else if contains line mess_end then
        Some (idle, if rd_action r \<noteq> [] \<and> rd_objects r \<noteq> []
          then [\<lparr>lm_action = rd_action r, lm_objects = rd_objects r, lm_params = rd_params r\<rparr>] else [])
      else if starts_with line kStrAction then
        Some (r\<lparr>rd_action := trim (drop (length kStrAction) line)\<rparr>, [])
      else if starts_with line kStrObjects then
        Some (r\<lparr>rd_objects := trim (drop (length kStrObjects) line)\<rparr>, [])
      else if CHR '':'' \<in> set line then
        Some (r\<lparr>rd_params := params_emplace (takeWhile (\<lambda>c. c \<noteq> CHR '':'') line)
                 (drop 1 (dropWhile (\<lambda>c. c \<noteq> CHR '':'') line)) (rd_params r)\<rparr>, [])
      else Some (r, []))"

fun reader_loop :: "reader \<Rightarrow> string list \<Rightarrow> LispMessage list" where
  "reader_loop r [] = []"
| "reader_loop r (line # lines) =
     (case reader_line line r of
        None \<Rightarrow> []
      | Some (r', sent) \<Rightarrow> sent @ reader_loop r' lines)"

definition Loop :: "string \<Rightarrow> LispMessage list" where
  "Loop input = reader_loop idle (getlines input)"

text \<open>The dispatcher: an empty function object is not called.\<close>

definition Dispatch_message :: "(LispMessage \<Rightarrow> bool) option \<Rightarrow> LispMessage \<Rightarrow> bool" where
  "Dispatch_message func msg = (case func of None \<Rightarrow> False | Some f \<Rightarrow> f msg)"

section \<open>What the frontend sends\<close>

definition request_lines :: "LispMessage \<Rightarrow> string list" where
  "request_lines m = [mess_begin, kStrAction @ lm_action m, kStrObjects @ lm_objects m] @
     map (\<lambda>(k, v). k @ '':'' @ v) (lm_params m) @ [mess_end]"

text \<open>A line that is neither changed by trimming nor taken for the begin or end of a message.\<close>

definition line_ok :: "string \<Rightarrow> bool" where
  "line_ok l \<longleftrightarrow> trim l = l \<and> \<not> contains l mess_begin \<and> \<not> contains l mess_end \<and> CHR 0x0A \<notin> set l"

definition param_ok :: "string \<times> string \<Rightarrow> bool" where
  "param_ok p \<longleftrightarrow> (let l = fst p @ '':'' @ snd p in line_ok l \<and> CHR '':'' \<notin> set (fst p) \<and>
     \<not> starts_with l kStrAction \<and> \<not> starts_with l kStrObjects)"

definition request_ok :: "LispMessage \<Rightarrow> bool" where
  "request_ok m \<longleftrightarrow> lm_action m \<noteq> [] \<and> lm_objects m \<noteq> [] \<and>
     trim (lm_action m) = lm_action m \<and> trim (lm_objects m) = lm_objects m \<and>
     line_ok (kStrAction @ lm_action m) \<and> line_ok (kStrObjects @ lm_objects m) \<and>
     list_all param_ok (lm_params m) \<and> distinct (map fst (lm_params m))"

lemma marker_lines:
  "trim mess_begin = mess_begin" "trim mess_end = mess_end"
  "contains mess_begin mess_begin" "contains mess_end mess_end" "\<not> contains mess_end mess_begin"
  "\<not> starts_with (kStrObjects @ x) kStrAction"
  by (simp_all add: mess_begin_def mess_end_def kStrObjects_def kStrAction_def trim_def is_space_def
      starts_with_def)

lemma reader_begin: "reader_line mess_begin r = Some (r\<lparr>rd_in_progress := True\<rparr>, [])"
  by (simp add: reader_line_def marker_lines)

lemma reader_end:
  "rd_in_progress r \<Longrightarrow> reader_line mess_end r =
     Some (idle, if rd_action r \<noteq> [] \<and> rd_objects r \<noteq> []
       then [\<lparr>lm_action = rd_action r, lm_objects = rd_objects r, lm_params = rd_params r\<rparr>] else [])"
  by (simp add: reader_line_def marker_lines)

lemma reader_action:
  "rd_in_progress r \<Longrightarrow> line_ok (kStrAction @ a) \<Longrightarrow> trim a = a \<Longrightarrow>
   reader_line (kStrAction @ a) r = Some (r\<lparr>rd_action := a\<rparr>, [])"
  by (simp add: reader_line_def line_ok_def)

lemma reader_objects:
  "rd_in_progress r \<Longrightarrow> line_ok (kStrObjects @ a) \<Longrightarrow> trim a = a \<Longrightarrow>
   reader_line (kStrObjects @ a) r = Some (r\<lparr>rd_objects := a\<rparr>, [])"
  by (simp add: reader_line_def line_ok_def marker_lines)

lemma reader_param:
  assumes "rd_in_progress r" and "param_ok (k, v)"
  shows "reader_line (k @ '':'' @ v) r = Some (r\<lparr>rd_params := params_emplace k v (rd_params r)\<rparr>, [])"
proof -
  have "takeWhile (\<lambda>c. c \<noteq> CHR '':'') (k @ '':'' @ v) = k"
    "dropWhile (\<lambda>c. c \<noteq> CHR '':'') (k @ '':'' @ v) = '':'' @ v"
    using assms(2) by (simp_all add: param_ok_def Let_def takeWhile_append dropWhile_append)
  with assms show ?thesis by (simp add: reader_line_def param_ok_def line_ok_def Let_def)
qed

lemma reader_params:
  "rd_in_progress r \<Longrightarrow> list_all param_ok ps \<Longrightarrow> distinct (map fst (rd_params r) @ map fst ps) \<Longrightarrow>
   reader_loop r (map (\<lambda>(k, v). k @ '':'' @ v) ps @ rest) =
     reader_loop (r\<lparr>rd_params := rd_params r @ ps\<rparr>) rest"
proof (induction ps arbitrary: r)
  case (Cons p ps)
  obtain k v where p: "p = (k, v)" by (cases p)
  have "map_of (rd_params r) k = None"
    using Cons.prems(3) by (auto simp: p map_of_eq_None_iff)
  then show ?case
    using Cons.prems Cons.IH [of "r\<lparr>rd_params := rd_params r @ [(k, v)]\<rparr>"]
    by (simp add: p reader_param [simplified] params_emplace_def)
qed simp

lemma reader_request:
  assumes "request_ok m"
  shows "reader_loop idle (request_lines m @ rest) = m # reader_loop idle rest"
proof -
  let ?r = "\<lparr>rd_in_progress = True, rd_action = lm_action m, rd_objects = lm_objects m, rd_params = []\<rparr>"
  have "reader_loop idle (request_lines m @ rest) =
      reader_loop ?r (map (\<lambda>(k, v). k @ '':'' @ v) (lm_params m) @ mess_end # rest)"
    using assms by (simp add: request_lines_def request_ok_def reader_begin reader_action reader_objects idle_def)
  also have "\<dots> = reader_loop (?r\<lparr>rd_params := lm_params m\<rparr>) (mess_end # rest)"
    using assms by (subst reader_params) (simp_all add: request_ok_def)
  also have "\<dots> = m # reader_loop idle rest"
    using assms by (simp add: reader_end request_ok_def)
  finally show ?thesis .
qed

lemma request_lines_newline:
  "request_ok m \<Longrightarrow> list_all (\<lambda>l. CHR 0x0A \<notin> set l) (request_lines m)"
  by (auto simp: request_lines_def request_ok_def line_ok_def param_ok_def list_all_iff mess_begin_def
      mess_end_def Let_def)

lemma Loop_requests: "list_all request_ok ms \<Longrightarrow> Loop (print_lines (concat (map request_lines ms))) = ms"
proof -
  assume ms: "list_all request_ok ms"
  then have lines: "reader_loop idle (concat (map request_lines ms)) = ms"
  proof (induction ms)
    case (Cons m ms)
    then show ?case by (simp add: reader_request)
  qed simp
  have "list_all (\<lambda>l. CHR 0x0A \<notin> set l) (concat (map request_lines ms))"
    using ms request_lines_newline by (induction ms) auto
  then show ?thesis
    using lines by (simp add: Loop_def getlines_print_lines)
qed

text \<open>
  C24: The reader gives back what the frontend sent: from the text of any sequence of
  well-formed requests it dispatches exactly these requests, in their order.
\<close>

theorem reader_roundtrip:
  assumes "list_all request_ok ms"
  shows "Loop (print_lines (concat (map request_lines ms))) = ms"
  using assms by (rule Loop_requests)

definition log_request :: LispMessage where
  "log_request = \<lparr>lm_action = ''read'', lm_objects = ''read_log'',
     lm_params = [(''page'', ''0''), (''filter'', ''usb:1'')]\<rparr>"

definition health_request :: LispMessage where
  "health_request = \<lparr>lm_action = ''read'', lm_objects = ''health'', lm_params = []\<rparr>"

lemma sample_requests_ok: "list_all request_ok [log_request, health_request]"
  by (simp add: log_request_def health_request_def request_ok_def param_ok_def line_ok_def kStrAction_def
      kStrObjects_def mess_begin_def mess_end_def trim_def is_space_def starts_with_def)

theorem reader_roundtrip_witness:
  "Loop (print_lines (concat (map request_lines [log_request, health_request]))) = [log_request, health_request]"
  by (rule reader_roundtrip [OF sample_requests_ok])

text \<open>A line inside a message that ends it, wherever the marker stands in the line.\<close>

lemma reader_marker_in_value:
  "rd_in_progress r \<Longrightarrow> contains (trim line) mess_end \<Longrightarrow> \<not> contains (trim line) mess_begin \<Longrightarrow>
   \<exists>sent. reader_line line r = Some (idle, sent)"
  by (simp add: reader_line_def)

end
