(* ===== verification/Log_Reader.thy ===== *)
theory Log_Reader
  imports Json_Value
begin

text \<open>
  \<^verbatim>\<open>common/log_reader.hpp\<close> and \<^verbatim>\<open>log_reader.cpp\<close>: the lines of the log file, filtered,
  numbered, and cut into pages from the end of the file. The sizes are computed in 32 bits as
  the source computes them: unsigned products wrap, a conversion to \<^verbatim>\<open>int\<close> keeps the low
  32 bits, and a difference of two \<^verbatim>\<open>int\<close> that does not fit is undefined.
\<close>

section \<open>Reading\<close>

text \<open>What the file system shows at the path of the log.\<close>

datatype log_file =
    Log_status_error   \<comment> \<open>\<^verbatim>\<open>fs::exists\<close> throws\<close>
  | Log_missing
  | Log_unreadable
  | Log_contents string

record PageData =
  curr_page :: u32
  pages_number :: u32
  page_data :: "string list"

definition LogReader :: "string \<Rightarrow> string outcome" where
  "LogReader fpath = (if fpath = [] then throws Invalid_argument else Ok fpath)"

definition any_filter :: "string list \<Rightarrow> string \<Rightarrow> bool" where
  "any_filter filters line \<longleftrightarrow> filters = [] \<or> list_ex (contains line) filters"

definition log_entry :: "u64 \<Rightarrow> string \<Rightarrow> string" where
  "log_entry line_number line = ''['' @ to_string line_number @ ''] '' @ line"

fun read_loop :: "string list \<Rightarrow> u64 \<Rightarrow> string list \<Rightarrow> string list" where
  "read_loop filters line_number [] = []"
| "read_loop filters line_number (line # lines) =
     (let n = line_number + 1 in
      (if any_filter filters line then [log_entry n line] else []) @ read_loop filters n lines)"

definition GetFromFile :: "(string \<Rightarrow> log_file) \<Rightarrow> string \<Rightarrow> string list \<Rightarrow> string list outcome" where
  "GetFromFile files log_file_path filters =
     (if log_file_path = [] then throws Logic_error
      else case files log_file_path of
        Log_status_error \<Rightarrow> throws Filesystem_error
      | Log_missing \<Rightarrow> throws Logic_error
      | Log_unreadable \<Rightarrow> throws Runtime_error
      | Log_contents text \<Rightarrow> Ok (read_loop filters 0 (getlines text)))"

definition GetByFilter :: "(string \<Rightarrow> log_file) \<Rightarrow> string \<Rightarrow> string list \<Rightarrow> string list" where
  "GetByFilter files log_file_path filters =
     (case GetFromFile files log_file_path filters of Ok ls \<Rightarrow> ls | Fail f \<Rightarrow> [])"

definition GetAll :: "(string \<Rightarrow> log_file) \<Rightarrow> string \<Rightarrow> string list" where
  "GetAll files log_file_path = GetByFilter files log_file_path []"

section \<open>Pages\<close>

definition int_of_u32 :: "u32 \<Rightarrow> int" where
  "int_of_u32 w = sint w"

definition int_minus :: "int \<Rightarrow> int \<Rightarrow> int outcome" where
  "int_minus a b = (if - (2 ^ 31) \<le> a - b \<and> a - b < 2 ^ 31 then Ok (a - b) else Fail Undefined)"

definition count_pages :: "u32 \<Rightarrow> u32 \<Rightarrow> u32" where
  "count_pages num_lines pages_size =
     (if 0 < pages_size then
        let n = num_lines div pages_size
        in if n * pages_size < num_lines then n + 1 else n
      else 0)"

text \<open>The loop that moves the lines: an index past the end would throw and keep what is there.\<close>

function page_loop :: "string list \<Rightarrow> nat \<Rightarrow> nat \<Rightarrow> string list" where
  "page_loop all_lines i stop =
     (if i < stop then
        if i < length all_lines then all_lines ! i # page_loop all_lines (i + 1) stop else []
      else [])"
  by pat_completeness auto
termination by (relation "measure (\<lambda>(_, i, stop). stop - i)") auto

declare page_loop.simps [simp del]

definition GetByPage ::
  "(string \<Rightarrow> log_file) \<Rightarrow> string \<Rightarrow> string list \<Rightarrow> u32 \<Rightarrow> u32 \<Rightarrow> PageData outcome" where
  "GetByPage files log_file_path filters page_number pages_size =
     (let empty = \<lparr>curr_page = page_number, pages_number = 0, page_data = []\<rparr> in
      case GetFromFile files log_file_path filters of
        Fail f \<Rightarrow> Ok empty
      | Ok all_lines \<Rightarrow>
          let num_lines = word_of_nat (length all_lines) :: u32;
              data = empty\<lparr>pages_number := count_pages num_lines pages_size\<rparr>;
              lines_size = int_of_u32 num_lines
          in obind (int_minus lines_size (int_of_u32 (page_number * pages_size))) (\<lambda>last0.
             obind (int_minus lines_size (int_of_u32 ((page_number + 1) * pages_size))) (\<lambda>first0.
             let index_first = max first0 0;
                 index_last = min (max last0 0) lines_size
             in Ok (if index_first \<ge> index_last then data
                    else data\<lparr>page_data := page_loop all_lines (nat index_first) (nat index_last)\<rparr>))))"

section \<open>Facts\<close>

lemma page_loop_segment:
  "stop \<le> length ls \<Longrightarrow> page_loop ls i stop = drop i (take stop ls)"
proof (induction "stop - i" arbitrary: i)
  case 0
  then show ?case by (simp add: page_loop.simps)
next
  case (Suc d)
  then have "page_loop ls (i + 1) stop = drop (i + 1) (take stop ls)" by simp
  with Suc.hyps(2) Suc.prems show ?case
    by (subst page_loop.simps) (simp add: Cons_nth_drop_Suc [symmetric])
qed

lemma int_of_u32_small: "n < 2 ^ 31 \<Longrightarrow> int_of_u32 (word_of_nat n) = int n"
  by (simp add: int_of_u32_def signed_of_nat signed_take_bit_int_eq_self)

lemma int_minus_small: "a < 2 ^ 31 \<Longrightarrow> b < 2 ^ 31 \<Longrightarrow> int_minus (int a) (int b) = Ok (int a - int b)"
  by (simp add: int_minus_def)

lemma u32_product: "word_of_nat a * (word_of_nat b :: u32) = word_of_nat (a * b)"
  by simp

lemma count_pages_ceiling:
  assumes "n < 2 ^ 32" and "0 < k" and "k < 2 ^ 32"
  shows "unat (count_pages (word_of_nat n) (word_of_nat k)) = (n + k - 1) div k"
proof -
  have un: "unat (word_of_nat n :: u32) = n" and uk: "unat (word_of_nat k :: u32) = k"
    using assms by (simp_all add: unsigned_of_nat take_bit_nat_eq_self_iff)
  let ?d = "(word_of_nat n :: u32) div word_of_nat k"
  have d: "unat ?d = n div k" by (simp add: unat_div un uk)
  have qr: "n = n div k * k + n mod k" by simp
  have p: "unat (?d * word_of_nat k) = n div k * k"
    using le_less_trans [OF div_times_less_eq_dividend assms(1)] unfolding unat_word_ariths(2) d uk
    by simp
  have pos: "(0 :: u32) < word_of_nat k" using assms(2) uk by (simp add: word_less_nat_alt)
  have less: "?d * word_of_nat k < word_of_nat n \<longleftrightarrow> n mod k \<noteq> 0"
    unfolding word_less_nat_alt p un using qr by linarith
  have ceil: "(n + k - 1) div k = (if n mod k = 0 then n div k else n div k + 1)"
  proof -
    have "n + k - 1 = (n mod k + k - 1) + n div k * k" using qr assms(2) by linarith
    then have "(n + k - 1) div k = ((n mod k + k - 1) + n div k * k) div k" by (rule arg_cong)
    also have "\<dots> = n div k + (n mod k + k - 1) div k" using assms(2) by (subst div_mult_self1) simp_all
    also have "(n mod k + k - 1) div k = (if n mod k = 0 then 0 else 1)"
    proof (cases "n mod k = 0")
      case False
      then have "n mod k + k - 1 = (n mod k - 1) + 1 * k" by simp
      also have "\<dots> div k = 1 + (n mod k - 1) div k" using assms(2) by (subst div_mult_self1) simp_all
      finally show ?thesis using False assms(2) by (simp add: less_imp_diff_less)
    qed (use assms(2) in simp)
    finally show ?thesis by simp
  qed
  show ?thesis
  proof (cases "n mod k = 0")
    case False
    then have "2 \<le> k" using assms(2) by (cases "k = 1") auto
    then have "n div k \<le> n div 2" by (rule div_le_mono2 [rotated]) simp
    moreover have "n div 2 < 2 ^ 31" using assms(1) by simp
    ultimately have "n div k + 1 < 2 ^ 32" by simp
    then show ?thesis using False unfolding ceil
      by (simp add: count_pages_def Let_def pos less unat_word_ariths(1) d)
  next
    case True
    then show ?thesis unfolding ceil by (simp add: count_pages_def Let_def pos less d)
  qed
qed

lemma clip: "nat (max (int a - int b) 0) = a - b" "nat (min (max (int a - int b) 0) (int a)) = a - b"
  by linarith+

text \<open>What a page holds when no size overflows: a segment counted from the end of the lines.\<close>

definition page :: "nat \<Rightarrow> nat \<Rightarrow> 'a list \<Rightarrow> 'a list" where
  "page k p ls = drop (length ls - (p + 1) * k) (take (length ls - p * k) ls)"

lemma GetByPage_page:
  assumes lines: "GetFromFile files path filters = Ok ls"
    and n: "length ls < 2 ^ 31" and k: "(p + 1) * k < 2 ^ 31"
  shows "GetByPage files path filters (word_of_nat p) (word_of_nat k) =
    Ok \<lparr>curr_page = word_of_nat p, pages_number = count_pages (word_of_nat (length ls)) (word_of_nat k),
      page_data = page k p ls\<rparr>"
proof -
  let ?n = "length ls"
  have p: "p * k < 2 ^ 31" using k by simp
  have w1: "int_of_u32 (word_of_nat p * word_of_nat k) = int (p * k)"
    unfolding u32_product by (rule int_of_u32_small [OF p])
  have w2: "int_of_u32 ((word_of_nat p + 1) * word_of_nat k) = int ((p + 1) * k)"
    using int_of_u32_small [OF k] by (simp only: u32_product [symmetric] of_nat_add of_nat_1)
  have w0: "int_of_u32 (word_of_nat ?n) = int ?n" by (rule int_of_u32_small [OF n])
  have m: "int_minus (int ?n) (int (p * k)) = Ok (int ?n - int (p * k))"
    "int_minus (int ?n) (int ((p + 1) * k)) = Ok (int ?n - int ((p + 1) * k))"
    by (rule int_minus_small; fact)+
  let ?first = "max (int ?n - int ((p + 1) * k)) 0" and ?stop = "min (max (int ?n - int (p * k)) 0) (int ?n)"
  have f: "nat ?first = ?n - (p + 1) * k" and s: "nat ?stop = ?n - p * k" by (rule clip)+
  have seg: "page_loop ls (nat ?first) (nat ?stop) = page k p ls"
    unfolding f s page_def by (rule page_loop_segment) simp
  have "page k p ls = []" if "?first \<ge> ?stop"
    unfolding page_def using nat_mono [OF that] unfolding f s by (intro drop_all) (simp only: length_take min.coboundedI2)
  then show ?thesis
    unfolding GetByPage_def lines Let_def outcome.case w0 w1 w2 m obind.simps seg
    by (simp only: PageData.simps split: if_split) simp
qed

lemma page_Suc: "rev [0..<Suc m] = m # rev [0..<m]"
  by simp

lemma pages_suffix: "concat (map (\<lambda>p. page k p ls) (rev [0..<m])) = drop (length ls - m * k) ls"
proof (induction m)
  case (Suc m)
  have "page k m ls @ drop (length ls - m * k) ls = drop (length ls - Suc m * k) ls"
  proof -
    have "drop (length ls - Suc m * k) (take (length ls - m * k) ls @ drop (length ls - m * k) ls) =
        page k m ls @ drop (length ls - m * k) ls"
      by (simp only: drop_append page_def) simp
    then show ?thesis by simp
  qed
  then show ?case unfolding page_Suc list.map concat.simps Suc.IH .
qed simp

lemma length_page: "length (page k p ls) = (length ls - p * k) - (length ls - (p + 1) * k)"
  by (simp add: page_def)

section \<open>Properties\<close>

text \<open>
  The entries of the log are the lines that contain one of the filters, each with its
  number in the file, in the order of the file.
\<close>

theorem log_entries_exact:
  "read_loop filters 0 ls =
     map (\<lambda>i. log_entry (word_of_nat (i + 1)) (ls ! i))
       (filter (\<lambda>i. any_filter filters (ls ! i)) [0..<length ls])"
proof -
  have "read_loop filters (word_of_nat m) ls =
     map (\<lambda>i. log_entry (word_of_nat (m + i + 1)) (ls ! i))
       (filter (\<lambda>i. any_filter filters (ls ! i)) [0..<length ls])" for m
  proof (induction ls arbitrary: m)
    case (Cons l ls)
    have "[0..<length (l # ls)] = 0 # map Suc [0..<length ls]"
      by (simp add: upt_conv_Cons map_Suc_upt del: upt_Suc)
    then show ?case
      using Cons [of "Suc m"] by (simp add: Let_def filter_map o_def add.commute)
  qed simp
  from this [of 0] show ?thesis by simp
qed

text \<open>
  C23: The pages of the log are a partition of its entries. As long as the sizes fit into an
  \<^verbatim>\<open>int\<close>, the number of pages is the number of entries divided by the size of a page,
  rounded up; every page but the last one is full, the last one is not empty; and the pages,
  put together from the last one to the first one, are all entries.
\<close>

theorem log_pages_partition:
  assumes lines: "GetFromFile files path filters = Ok ls"
    and k: "0 < k" and n: "length ls + k \<le> 2 ^ 31"
    and q: "q = (length ls + k - 1) div k"
  shows "\<exists>data. (\<forall>p < q. GetByPage files path filters (word_of_nat p) (word_of_nat k) =
        Ok \<lparr>curr_page = word_of_nat p, pages_number = word_of_nat q, page_data = data p\<rparr>) \<and>
    (\<forall>p < q. if p + 1 < q then length (data p) = k else 0 < length (data p) \<and> length (data p) \<le> k) \<and>
    concat (map data (rev [0..<q])) = ls"
proof -
  have "length ls + k - 1 = q * k + (length ls + k - 1) mod k" by (simp add: q)
  moreover have "(length ls + k - 1) mod k < k" using k by simp
  ultimately have full: "length ls \<le> q * k" and less: "q * k < length ls + k" using k by linarith+
  have "unat (count_pages (word_of_nat (length ls)) (word_of_nat k)) = q"
    unfolding q by (rule count_pages_ceiling) (use n k in simp_all)
  then have pages: "count_pages (word_of_nat (length ls)) (word_of_nat k) = word_of_nat q"
    by (metis of_nat_unat ucast_id)
  have "GetByPage files path filters (word_of_nat p) (word_of_nat k) =
      Ok \<lparr>curr_page = word_of_nat p, pages_number = word_of_nat q, page_data = page k p ls\<rparr>" if "p < q" for p
    unfolding pages [symmetric]
  proof (rule GetByPage_page [OF lines])
    have "(p + 1) * k \<le> q * k" using that by (intro mult_right_mono) simp_all
    then show "length ls < 2 ^ 31" "(p + 1) * k < 2 ^ 31" using n k less by linarith+
  qed
  moreover have "if p + 1 < q then length (page k p ls) = k
      else 0 < length (page k p ls) \<and> length (page k p ls) \<le> k" if "p < q" for p
  proof (cases "p + 1 < q")
    case True
    then have "(p + 2) * k \<le> q * k" by (intro mult_right_mono) simp_all
    then show ?thesis using True less by (simp add: length_page)
  next
    case False
    with that have "q = p + 1" by simp
    then show ?thesis using full less by (auto simp: length_page)
  qed
  moreover have "concat (map (\<lambda>p. page k p ls) (rev [0..<q])) = ls" using full by (simp add: pages_suffix)
  ultimately show ?thesis by (intro exI [of _ "\<lambda>p. page k p ls"] conjI allI impI)
qed

text \<open>A log of three lines.\<close>

definition sample_log :: "string \<Rightarrow> log_file" where
  "sample_log path = (if path = ''log'' then
     Log_contents (''a'' @ [CHR 0x0A] @ ''ab'' @ [CHR 0x0A] @ ''b'' @ [CHR 0x0A]) else Log_missing)"

lemma sample_log_lines: "GetFromFile sample_log ''log'' [''a''] = Ok [''[1] a'', ''[2] ab'']"
  by (simp add: GetFromFile_def sample_log_def getlines.simps any_filter_def log_entry_def starts_with_def
      to_string_def nat_to_string.simps Let_def) code_simp

theorem log_pages_partition_witness:
  "\<exists>data. (\<forall>p < 2. GetByPage sample_log ''log'' [''a''] (word_of_nat p) (word_of_nat 1) =
        Ok \<lparr>curr_page = word_of_nat p, pages_number = word_of_nat 2, page_data = data p\<rparr>) \<and>
    (\<forall>p < 2. if p + 1 < (2::nat) then length (data p) = 1 else 0 < length (data p) \<and> length (data p) \<le> 1) \<and>
    concat (map data (rev [0..<2])) = [''[1] a'', ''[2] ab'']"
  by (rule log_pages_partition [OF sample_log_lines]) simp_all

text \<open>
  C34: Beyond that, the paging fails: when the product of the page number and the page size is
  \<open>2 ^ 31\<close>, the difference with the number of lines does not fit into an \<^verbatim>\<open>int\<close>, which is
  undefined behaviour on numbers that the frontend chooses.
\<close>

theorem log_page_undefined:
  assumes "GetFromFile files path filters = Ok ls" and "length ls < 2 ^ 31"
    and "page_number * pages_size = 2 ^ 31"
  shows "GetByPage files path filters page_number pages_size = Fail Undefined"
proof -
  have "int_of_u32 (2 ^ 31) = - (2 ^ 31)" by (simp add: int_of_u32_def)
  then have "int_minus (int (length ls)) (int_of_u32 (page_number * pages_size)) = Fail Undefined"
    unfolding assms(3) by (simp add: int_minus_def)
  then show ?thesis
    by (simp only: GetByPage_def Let_def assms(1) int_of_u32_small [OF assms(2)] outcome.case obind.simps)
qed

theorem log_page_undefined_witness: "GetByPage sample_log ''log'' [''a''] 1 (2 ^ 31) = Fail Undefined"
  by (rule log_page_undefined [OF sample_log_lines]) simp_all

end
