(* ===== verification/Usb_Backend.thy ===== *)
theory Usb_Backend
  imports Daemon_Main Systemd_Dbus Message_Reader Log_Reader
begin

text \<open>
  The backend of the Alterator module: \<^verbatim>\<open>backend/active_device.hpp\<close>,
  \<^verbatim>\<open>active_device.cpp\<close>, \<^verbatim>\<open>usb_mount.hpp\<close>, \<^verbatim>\<open>usb_mount.cpp\<close>,
  \<^verbatim>\<open>dispatcher_impl.hpp\<close>, \<^verbatim>\<open>dispatcher_impl.cpp\<close> and \<^verbatim>\<open>main.cpp\<close> under
  \<^verbatim>\<open>alterator_usbmount\<close>. It takes requests from its standard input, asks the daemon on the
  bus or systemd, and prints a Lisp list for every request.
\<close>

section \<open>The environment and the state\<close>

text \<open>The making of the proxy of the daemon, a call on it with the strings of its reply, systemd,
  the JSON library and the log file.\<close>

record 'w backend_env =
  be_create_proxy :: "('w, unit) prog"
  be_call :: "string \<Rightarrow> string list \<Rightarrow> ('w, reply) prog"
  be_systemd :: "'w systemd_bus"
  be_parse :: "string \<Rightarrow> json option"
  be_serialize :: "json \<Rightarrow> string"
  be_files :: "'w \<Rightarrow> string \<Rightarrow> log_file"

record 'w backend =
  be_proxy :: bool
  be_world :: 'w
  be_out :: string

type_synonym ('w, 'a) bprog = "('w backend, 'a) prog"

definition in_world :: "('w, 'a) prog \<Rightarrow> ('w, 'a) bprog" where
  "in_world m = (\<lambda>s. case m (be_world s) of (r, w) \<Rightarrow> (r, s\<lparr>be_world := w\<rparr>))"

definition set_proxy :: "bool \<Rightarrow> ('w, unit) bprog" where
  "set_proxy b = modp (\<lambda>s. s\<lparr>be_proxy := b\<rparr>)"

definition cout :: "string \<Rightarrow> ('w, unit) bprog" where
  "cout text = modp (\<lambda>s. s\<lparr>be_out := be_out s @ text\<rparr>)"

definition parse_json :: "'w backend_env \<Rightarrow> string \<Rightarrow> json outcome" where
  "parse_json env text = (case be_parse env text of None \<Rightarrow> throws System_error | Some v \<Rightarrow> Ok v)"

section \<open>Active devices\<close>

record ActiveDevice =
  ad_index :: u64
  ad_block :: string
  ad_fs :: string
  ad_vid :: string
  ad_pid :: string
  ad_serial :: string
  ad_mount_point :: string
  ad_status :: string

definition ActiveDevice_of_json :: "jobject \<Rightarrow> ActiveDevice outcome" where
  "ActiveDevice_of_json obj =
     (if \<not> jcontains obj ''device'' \<or> \<not> jcontains obj ''vid'' \<or> \<not> jcontains obj ''pid'' \<or>
         \<not> jcontains obj ''serial'' \<or> \<not> jcontains obj ''mount'' \<or> \<not> jcontains obj ''status'' \<or>
         \<not> jcontains obj ''fs''
      then throws Invalid_argument
      else
        obind (jstr obj ''device'') (\<lambda>block.
        obind (jstr obj ''fs'') (\<lambda>fs.
        obind (jstr obj ''vid'') (\<lambda>vid.
        obind (jstr obj ''pid'') (\<lambda>pid.
        obind (jstr obj ''serial'') (\<lambda>serial.
        obind (jstr obj ''mount'') (\<lambda>mount_point.
        obind (jstr obj ''status'') (\<lambda>status.
        Ok \<lparr>ad_index = 0, ad_block = block, ad_fs = fs, ad_vid = vid, ad_pid = pid, ad_serial = serial,
          ad_mount_point = mount_point, ad_status = status\<rparr>))))))))"

definition SerializeForLisp :: "ActiveDevice \<Rightarrow> vecPairs" where
  "SerializeForLisp d =
     [(''name'', to_string (ad_index d)), (''lbl_block'', ad_block d), (''lbl_fs'', ad_fs d),
      (''lbl_vid'', ad_vid d), (''lbl_pid'', ad_pid d), (''lbl_serial'', ad_serial d),
      (''lbl_mount'', ad_mount_point d), (''lbl_status'', ad_status d)]"

section \<open>The client of the daemon\<close>

definition kServiceUnitName :: string where "kServiceUnitName = ''altusbd.service''"

definition UsbMount_construct :: "'w backend_env \<Rightarrow> ('w, unit) bprog" where
  "UsbMount_construct env = noexceptp (
     bindp (set_proxy False) (\<lambda>_.
     tryp (bindp (in_world (be_create_proxy env)) (\<lambda>_. set_proxy True)) (ret ())))"

text \<open>The elements of the array: an element that is no device ends the loop, those before it
  stay in the result.\<close>

fun active_loop :: "u64 \<Rightarrow> json list \<Rightarrow> ActiveDevice list" where
  "active_loop counter [] = []"
| "active_loop counter (device # arr) =
     (case obind (as_object device) ActiveDevice_of_json of
        Ok d \<Rightarrow> d\<lparr>ad_index := counter\<rparr> # active_loop (counter + 1) arr
      | Fail f \<Rightarrow> [])"

definition active_devices :: "'w backend_env \<Rightarrow> string \<Rightarrow> ActiveDevice list" where
  "active_devices env json_string =
     (case obind (parse_json env json_string) as_array of Ok arr \<Rightarrow> active_loop 1 arr | Fail f \<Rightarrow> [])"

text \<open>The calls on the bus stand before the \<^verbatim>\<open>try\<close> block.\<close>

definition ListDevices :: "'w backend_env \<Rightarrow> ('w, ActiveDevice list) bprog" where
  "ListDevices env = noexceptp (
     bindp (getp be_proxy) (\<lambda>dbus_proxy.
     if \<not> dbus_proxy then ret []
     else
       bindp (in_world (be_call env ''ListDevices'' [])) (\<lambda>reply.
       bindp (liftO (read_string reply)) (\<lambda>json_string.
       ret (active_devices env json_string)))))"

definition GetStringNoParams :: "'w backend_env \<Rightarrow> string \<Rightarrow> ('w, string) bprog" where
  "GetStringNoParams env method_name = noexceptp (
     bindp (getp be_proxy) (\<lambda>dbus_proxy.
     if \<not> dbus_proxy then ret []
     else tryp (bindp (in_world (be_call env method_name [])) (\<lambda>reply. liftO (read_string reply))) (ret [])))"

definition GetStringResponse :: "'w backend_env \<Rightarrow> string \<Rightarrow> string \<Rightarrow> ('w, string) bprog" where
  "GetStringResponse env method param = noexceptp (
     bindp (getp be_proxy) (\<lambda>dbus_proxy.
     if \<not> dbus_proxy then ret []
     else tryp (bindp (in_world (be_call env method [param])) (\<lambda>reply. liftO (read_string reply))) (ret [])))"

definition getRulesJson :: "'w backend_env \<Rightarrow> ('w, string) bprog" where
  "getRulesJson env = GetStringNoParams env ''ListRules''"

definition UsbMount_GetUsersGroups :: "'w backend_env \<Rightarrow> ('w, string) bprog" where
  "UsbMount_GetUsersGroups env = GetStringNoParams env ''GetUsersAndGroups''"

definition UsbMount_SaveRules :: "'w backend_env \<Rightarrow> string \<Rightarrow> ('w, string) bprog" where
  "UsbMount_SaveRules env data = GetStringResponse env ''SaveRules'' data"

definition UsbMount_Health :: "'w backend_env \<Rightarrow> ('w, bool) bprog" where
  "UsbMount_Health env =
     bindp (getp be_proxy) (\<lambda>dbus_proxy.
     if \<not> dbus_proxy then ret False
     else bindp (GetStringNoParams env ''health'') (\<lambda>response. ret (response = ''OK'')))"

text \<open>\<^verbatim>\<open>Run\<close> and \<^verbatim>\<open>Stop\<close> make a client of systemd of their own.\<close>

definition with_systemd :: "'w backend_env \<Rightarrow> ('w, 'a) sdprog \<Rightarrow> ('w, 'a) bprog" where
  "with_systemd env m = in_world (\<lambda>w.
     case Systemd_construct (be_systemd env) w of
       (Fail f, s) \<Rightarrow> (Fail f, sd_world s)
     | (Ok _, s) \<Rightarrow> (case m s of (r, t) \<Rightarrow> (r, sd_world t)))"

definition Run_unit :: "'w systemd_bus \<Rightarrow> ('w, bool) sdprog" where
  "Run_unit sd =
     bindp (IsUnitEnabled sd kServiceUnitName) (\<lambda>enabled.
     case enabled of None \<Rightarrow> ret False | Some is_enabled \<Rightarrow>
     bindp (if is_enabled then ret (Some True) else EnableUnit sd kServiceUnitName) (\<lambda>enable_success.
     if enable_success \<noteq> Some True then ret False else
     bindp (IsUnitActive sd kServiceUnitName) (\<lambda>active.
     case active of None \<Rightarrow> ret False | Some is_active \<Rightarrow>
     bindp (if is_active then ret (Some True) else StartUnit sd kServiceUnitName) (\<lambda>start_success.
     ret (start_success = Some True)))))"

definition UsbMount_Run :: "'w backend_env \<Rightarrow> ('w, bool) bprog" where
  "UsbMount_Run env = noexceptp (
     bindp (with_systemd env (Run_unit (be_systemd env))) (\<lambda>running.
     if \<not> running then ret False
     else tryp
       (bindp (in_world (be_create_proxy env)) (\<lambda>_. bindp (set_proxy True) (\<lambda>_. ret True)))
       (ret False)))"

definition Stop_unit :: "'w systemd_bus \<Rightarrow> ('w, bool) sdprog" where
  "Stop_unit sd =
     bindp (IsUnitActive sd kServiceUnitName) (\<lambda>active.
     case active of None \<Rightarrow> ret False | Some is_active \<Rightarrow>
     bindp (if is_active then StopUnit sd kServiceUnitName else ret (Some True)) (\<lambda>stop_success.
     if stop_success \<noteq> Some True then ret False else
     bindp (IsUnitEnabled sd kServiceUnitName) (\<lambda>enabled.
     case enabled of None \<Rightarrow> ret False | Some is_enabled \<Rightarrow>
     bindp (if is_enabled then DisableUnit sd kServiceUnitName else ret (Some True)) (\<lambda>disable_success.
     ret (disable_success = Some True)))))"

definition UsbMount_Stop :: "'w backend_env \<Rightarrow> ('w, bool) bprog" where
  "UsbMount_Stop env = noexceptp (
     bindp (with_systemd env (Stop_unit (be_systemd env))) (\<lambda>stopped.
     if \<not> stopped then ret False
     else bindp (set_proxy False) (\<lambda>_. ret True)))"

section \<open>The dispatcher\<close>

definition kMessBeg :: string where "kMessBeg = ''(''"
definition kMessEnd :: string where "kMessEnd = '')''"

definition ListBlockDevices :: "'w backend_env \<Rightarrow> ('w, bool) bprog" where
  "ListBlockDevices env =
     bindp (ListDevices env) (\<lambda>devices.
     bindp (cout kMessBeg) (\<lambda>_.
     bindp (foreach (\<lambda>device. cout (ToLisp (SerializeForLisp device))) devices) (\<lambda>_.
     bindp (cout kMessEnd) (\<lambda>_. ret True))))"

definition Dispatch_ListRules :: "'w backend_env \<Rightarrow> ('w, bool) bprog" where
  "Dispatch_ListRules env =
     bindp (cout kMessBeg) (\<lambda>_.
     bindp (getRulesJson env) (\<lambda>rules.
     bindp (liftO (EscapeQuotes rules)) (\<lambda>escaped.
     bindp (cout (WrapWithQuotes escaped)) (\<lambda>_.
     bindp (cout kMessEnd) (\<lambda>_. ret True)))))"

definition Dispatch_GetUsersGroups :: "'w backend_env \<Rightarrow> ('w, bool) bprog" where
  "Dispatch_GetUsersGroups env =
     bindp (cout kMessBeg) (\<lambda>_.
     bindp (UsbMount_GetUsersGroups env) (\<lambda>accounts.
     bindp (liftO (EscapeQuotes accounts)) (\<lambda>escaped.
     bindp (cout (WrapWithQuotes escaped)) (\<lambda>_.
     bindp (cout kMessEnd) (\<lambda>_. ret True)))))"

text \<open>The status that the daemon has replied.\<close>

definition reply_status :: "'w backend_env \<Rightarrow> string \<Rightarrow> string outcome" where
  "reply_status env res_str =
     obind (parse_json env res_str) (\<lambda>res_js. obind (as_object res_js) (\<lambda>obj. jstr obj ''STATUS''))"

definition Dispatch_SaveRules :: "'w backend_env \<Rightarrow> LispMessage \<Rightarrow> ('w, bool) bprog" where
  "Dispatch_SaveRules env msg =
     bindp (cout kMessBeg) (\<lambda>_.
     bindp (case map_of (lm_params msg) ''data'' of
              None \<Rightarrow> ret ()
            | Some data \<Rightarrow>
                bindp (UsbMount_SaveRules env data) (\<lambda>res_str.
                tryp (bindp (liftO (reply_status env res_str)) (\<lambda>status. cout (WrapWithQuotes status)))
                  (cout (WrapWithQuotes ''FAIL'')))) (\<lambda>_.
     bindp (cout kMessEnd) (\<lambda>_. ret True)))"

definition Dispatch_Health :: "'w backend_env \<Rightarrow> ('w, bool) bprog" where
  "Dispatch_Health env =
     bindp (cout kMessBeg) (\<lambda>_.
     bindp (UsbMount_Health env) (\<lambda>healthy.
     bindp (cout (WrapWithQuotes (if healthy then ''OK'' else ''DEAD''))) (\<lambda>_.
     bindp (cout kMessEnd) (\<lambda>_. ret True))))"

definition RunDaemon :: "'w backend_env \<Rightarrow> ('w, bool) bprog" where
  "RunDaemon env =
     bindp (cout kMessBeg) (\<lambda>_.
     bindp (UsbMount_Run env) (\<lambda>running.
     bindp (cout (WrapWithQuotes (if running then ''OK'' else ''FAIL''))) (\<lambda>_.
     bindp (cout kMessEnd) (\<lambda>_. ret True))))"

definition StopDaemon :: "'w backend_env \<Rightarrow> ('w, bool) bprog" where
  "StopDaemon env =
     bindp (cout kMessBeg) (\<lambda>_.
     bindp (UsbMount_Stop env) (\<lambda>stopped.
     bindp (cout (WrapWithQuotes (if stopped then ''OK'' else ''FAIL''))) (\<lambda>_.
     bindp (cout kMessEnd) (\<lambda>_. ret True))))"

definition kLogPath :: string where "kLogPath = ''/var/log/alt-usb-automount/log.txt''"

definition page_json :: "PageData \<Rightarrow> json" where
  "page_json res = JObject
     [(''total_pages'', JUint64 (ucast (pages_number res))), (''current_page'', JUint64 (ucast (curr_page res))),
      (''data'', JArray (map (\<lambda>str. JString (HtmlEscape str)) (page_data res)))]"

definition ReadLog :: "'w backend_env \<Rightarrow> LispMessage \<Rightarrow> ('w, bool) bprog" where
  "ReadLog env msg =
     (case (map_of (lm_params msg) ''page'', map_of (lm_params msg) ''filter'') of
        (Some page_text, Some filter_text) \<Rightarrow>
          bindp (cout kMessBeg) (\<lambda>_.
          bindp (tryp
            (bindp (getp be_world) (\<lambda>w.
             let page_number = value_or 0 (StrToUint32 page_text);
                 per_page = (case map_of (lm_params msg) ''per_page'' of
                   None \<Rightarrow> 20 | Some text \<Rightarrow> value_or 5 (StrToUint32 text)) in
             bindp (liftO (LogReader kLogPath)) (\<lambda>reader.
             bindp (liftO (GetByPage (be_files env w) reader [filter_text] page_number per_page)) (\<lambda>res.
             bindp (liftO (EscapeQuotes (be_serialize env (page_json res)))) (\<lambda>escaped.
             cout (WrapWithQuotes escaped))))))
            (ret ())) (\<lambda>_.
          bindp (cout kMessEnd) (\<lambda>_. ret True)))
      | _ \<Rightarrow> ret False)"

definition Dispatch :: "'w backend_env \<Rightarrow> LispMessage \<Rightarrow> ('w, bool) bprog" where
  "Dispatch env msg = noexceptp (
     if lm_action msg = ''list'' \<and> lm_objects msg = ''list_block'' then ListBlockDevices env
     else if lm_action msg = ''read'' \<and> lm_objects msg = ''list-devices'' then Dispatch_ListRules env
     else if lm_action msg = ''read'' \<and> lm_objects msg = ''get_users_groups'' then Dispatch_GetUsersGroups env
     else if lm_action msg = ''read'' \<and> lm_objects msg = ''save_rules'' then Dispatch_SaveRules env msg
     else if lm_action msg = ''read'' \<and> lm_objects msg = ''health'' then Dispatch_Health env
     else if lm_action msg = ''read'' \<and> lm_objects msg = ''run'' then RunDaemon env
     else if lm_action msg = ''read'' \<and> lm_objects msg = ''stop'' then StopDaemon env
     else if lm_action msg = ''read'' \<and> lm_objects msg = ''read_log'' then ReadLog env msg
     else bindp (cout (kMessBeg @ kMessEnd)) (\<lambda>_. ret True))"

text \<open>The program: the requests are taken from the input and answered one after the other.\<close>

definition backend_main :: "'w backend_env \<Rightarrow> string \<Rightarrow> ('w, unit) bprog" where
  "backend_main env input =
     bindp (UsbMount_construct env) (\<lambda>_.
     foreach (\<lambda>msg. bindp (Dispatch env msg) (\<lambda>_. ret ())) (Loop input))"

section \<open>What is printed\<close>

text \<open>
  \<open>quiet m\<close>: the output is not changed. \<open>clean m\<close>: a run that throws has printed nothing.
  \<open>prints R m\<close>: a run that returns a value has appended a text that is in the relation \<open>R\<close> with
  it.
\<close>

definition quiet :: "('w, 'a) bprog \<Rightarrow> bool" where
  "quiet m \<longleftrightarrow> (\<forall>s. be_out (snd (m s)) = be_out s)"

definition clean :: "('w, 'a) bprog \<Rightarrow> bool" where
  "clean m \<longleftrightarrow> (\<forall>s e t. m s = (throws e, t) \<longrightarrow> be_out t = be_out s)"

definition prints :: "('a \<Rightarrow> string \<Rightarrow> bool) \<Rightarrow> ('w, 'a) bprog \<Rightarrow> bool" where
  "prints R m \<longleftrightarrow> (\<forall>s a t. m s = (Ok a, t) \<longrightarrow> (\<exists>x. be_out t = be_out s @ x \<and> R a x))"

named_theorems quiet_rules

lemma quiet_keeps: "quiet m \<longleftrightarrow> (\<forall>out. keeps (\<lambda>s. be_out s = out) m)"
  by (auto simp: quiet_def keeps_def)

lemma quiet_simple [quiet_rules]:
  "quiet (ret a)" "quiet (fail f)" "quiet (liftO r)" "quiet (getp g)" "quiet (set_proxy b)" "quiet (in_world m)"
  by (simp_all add: quiet_def set_proxy_def in_world_def split_beta)

lemma quiet_bindp [quiet_rules]: "quiet m \<Longrightarrow> (\<And>a. quiet (k a)) \<Longrightarrow> quiet (bindp m k)"
  by (simp add: quiet_keeps keeps_bindp)

lemma quiet_tryp [quiet_rules]: "quiet m \<Longrightarrow> quiet h \<Longrightarrow> quiet (tryp m h)"
  by (simp add: quiet_keeps keeps_tryp)

lemma quiet_noexceptp [quiet_rules]: "quiet m \<Longrightarrow> quiet (noexceptp m)"
  by (simp add: quiet_keeps keeps_noexceptp)

lemma quiet_if [quiet_rules]: "quiet m \<Longrightarrow> quiet n \<Longrightarrow> quiet (if b then m else n)"
  by simp

lemma quiet_client [quiet_rules]:
  "quiet (ListDevices env)" "quiet (GetStringNoParams env m)" "quiet (GetStringResponse env m p)"
  "quiet (UsbMount_construct env)"
  unfolding ListDevices_def GetStringNoParams_def GetStringResponse_def UsbMount_construct_def
  by (intro quiet_rules)+

lemma quiet_operations [quiet_rules]:
  "quiet (getRulesJson env)" "quiet (UsbMount_GetUsersGroups env)" "quiet (UsbMount_SaveRules env d)"
  "quiet (UsbMount_Health env)" "quiet (UsbMount_Run env)" "quiet (UsbMount_Stop env)"
  unfolding getRulesJson_def UsbMount_GetUsersGroups_def UsbMount_SaveRules_def UsbMount_Health_def
    UsbMount_Run_def UsbMount_Stop_def with_systemd_def
  by (intro quiet_rules)+

lemma clean_quiet: "quiet m \<Longrightarrow> clean m"
  by (metis clean_def quiet_def snd_conv)

lemma clean_cout: "clean (cout x)"
  by (simp add: clean_def cout_def)

lemma clean_bindp: "quiet m \<Longrightarrow> (\<And>a. clean (k a)) \<Longrightarrow> clean (bindp m k)"
proof -
  assume m: "quiet m" and k: "\<And>a. clean (k a)"
  have "be_out t = be_out s" if run: "bindp m k s = (throws e, t)" for s e t
  proof (cases "m s")
    case (Pair r u)
    have u: "be_out u = be_out s" using m Pair by (metis quiet_def snd_conv)
    show ?thesis
    proof (cases r)
      case (Ok a)
      then show ?thesis using k [of a] run Pair u by (simp add: clean_def)
    next
      case (Fail f)
      then show ?thesis using run Pair u by simp
    qed
  qed
  then show ?thesis by (simp add: clean_def)
qed

lemma prints_quiet: "quiet m \<Longrightarrow> (\<And>a. R a []) \<Longrightarrow> prints R m"
  unfolding prints_def quiet_def by (metis append_Nil2 snd_conv)

lemma prints_ret: "R a [] \<Longrightarrow> prints R (ret a)"
  by (simp add: prints_def)

lemma prints_cout: "R () x \<Longrightarrow> prints R (cout x)"
  by (simp add: prints_def cout_def)

lemma prints_bindp:
  "prints Q m \<Longrightarrow> (\<And>a x. Q a x \<Longrightarrow> prints (\<lambda>b y. R b (x @ y)) (k a)) \<Longrightarrow> prints R (bindp m k)"
  unfolding prints_def bindp_eq_Ok by (metis append_assoc)

lemma prints_bindp_quiet:
  "quiet m \<Longrightarrow> (\<And>a. prints R (k a)) \<Longrightarrow> prints R (bindp m k)"
  unfolding prints_def bindp_eq_Ok quiet_def by (metis snd_conv)

lemma prints_bindp_cout:
  "prints (\<lambda>b y. R b (x @ y)) k \<Longrightarrow> prints R (bindp (cout x) (\<lambda>_. k))"
  by (rule prints_bindp [OF prints_cout [of "\<lambda>_ y. y = x"]]) auto

lemma prints_tryp:
  assumes m: "prints R m" and clean: "clean m" and h: "prints R h"
  shows "prints R (tryp m h)"
  unfolding prints_def
proof (intro allI impI)
  fix s a t
  assume run: "tryp m h s = (Ok a, t)"
  show "\<exists>x. be_out t = be_out s @ x \<and> R a x"
  proof (cases "m s")
    case (Pair r u)
    consider (ok) "r = Ok a" "u = t" | (exc) e where "r = throws e" "h u = (Ok a, t)"
      using run Pair by (auto simp: tryp_def split: outcome.splits failure.splits)
    then show ?thesis
      using m h clean Pair by cases (unfold prints_def clean_def, metis+)
  qed
qed

lemma prints_foreach:
  "(\<And>x. prints (\<lambda>_ y. y = f x) (p x)) \<Longrightarrow> prints (\<lambda>_ y. y = concat (map f xs)) (foreach p xs)"
proof (induction xs)
  case (Cons x xs)
  show ?case
    unfolding foreach.simps
  proof (rule prints_bindp [OF Cons.prems])
    fix a z
    assume "z = f x"
    then show "prints (\<lambda>_ y. z @ y = concat (map f (x # xs))) (foreach p xs)"
      using Cons.IH [OF Cons.prems] by simp
  qed
qed (simp add: prints_ret)

text \<open>One list: the text between the parentheses.\<close>

definition answer :: "(string \<Rightarrow> bool) \<Rightarrow> bool \<Rightarrow> string \<Rightarrow> bool" where
  "answer P b y \<longleftrightarrow> b \<and> (\<exists>x. y = kMessBeg @ x @ kMessEnd \<and> P x)"

lemma prints_end: "P x \<Longrightarrow> prints (\<lambda>b y. answer P b (kMessBeg @ x @ y)) (bindp (cout kMessEnd) (\<lambda>_. ret True))"
  by (rule prints_bindp_cout, rule prints_ret) (auto simp: answer_def)

lemma prints_literal:
  "P (WrapWithQuotes x) \<Longrightarrow>
   prints (\<lambda>b y. answer P b (kMessBeg @ y)) (bindp (cout (WrapWithQuotes x)) (\<lambda>_. bindp (cout kMessEnd) (\<lambda>_. ret True)))"
  by (rule prints_bindp_cout, rule prints_end)

text \<open>What may stand between the parentheses: nothing, one string, or the lists of devices.\<close>

definition answer_body :: "string \<Rightarrow> bool" where
  "answer_body y \<longleftrightarrow> y = [] \<or> (\<exists>v. y = WrapWithQuotes v) \<or>
     (\<exists>devices. y = concat (map (\<lambda>d. ToLisp (SerializeForLisp d)) devices))"

lemma answer_body_simps [simp]:
  "answer_body []" "answer_body (WrapWithQuotes v)"
  "answer_body (concat (map (\<lambda>d. ToLisp (SerializeForLisp d)) devices))"
  by (auto simp: answer_body_def)

lemma prints_ListBlockDevices: "prints (answer answer_body) (ListBlockDevices env)"
  unfolding ListBlockDevices_def
proof (rule prints_bindp_quiet [OF quiet_client(1)], rule prints_bindp_cout)
  fix devices
  have "prints (\<lambda>_ y. y = concat (map (\<lambda>d. ToLisp (SerializeForLisp d)) devices))
      (foreach (\<lambda>device. cout (ToLisp (SerializeForLisp device))) devices :: ('a, unit) bprog)"
    by (rule prints_foreach, rule prints_cout) simp
  then show "prints (\<lambda>b y. answer answer_body b (kMessBeg @ y))
      (bindp (foreach (\<lambda>device. cout (ToLisp (SerializeForLisp device))) devices)
        (\<lambda>_. bindp (cout kMessEnd) (\<lambda>_. ret True)) :: ('a, bool) bprog)"
    by (rule prints_bindp) (simp add: prints_end)
qed

lemma prints_one_literal:
  "quiet m \<Longrightarrow> prints (answer answer_body) (bindp (cout kMessBeg) (\<lambda>_. bindp m (\<lambda>a.
     bindp (cout (WrapWithQuotes (f a))) (\<lambda>_. bindp (cout kMessEnd) (\<lambda>_. ret True)))))"
  by (rule prints_bindp_cout, rule prints_bindp_quiet, assumption, rule prints_literal) simp

lemma prints_escaped:
  "quiet m \<Longrightarrow> prints (answer answer_body) (bindp (cout kMessBeg) (\<lambda>_. bindp m (\<lambda>a.
     bindp (liftO (EscapeQuotes a)) (\<lambda>e.
     bindp (cout (WrapWithQuotes e)) (\<lambda>_. bindp (cout kMessEnd) (\<lambda>_. ret True))))))"
  by (rule prints_bindp_cout, rule prints_bindp_quiet, assumption, rule prints_bindp_quiet,
      rule quiet_simple, rule prints_literal) simp

lemma prints_optional:
  assumes "prints (\<lambda>_ y. answer_body y) m"
  shows "prints (answer answer_body) (bindp (cout kMessBeg) (\<lambda>_. bindp m (\<lambda>_.
     bindp (cout kMessEnd) (\<lambda>_. ret True))))"
  by (intro prints_bindp_cout prints_bindp [OF assms] prints_end)

lemma prints_SaveRules: "prints (answer answer_body) (Dispatch_SaveRules env msg)"
  unfolding Dispatch_SaveRules_def
proof (rule prints_optional, split option.split, intro conjI allI impI)
  fix d
  show "prints (\<lambda>_ y. answer_body y) (bindp (UsbMount_SaveRules env d) (\<lambda>res_str.
      tryp (bindp (liftO (reply_status env res_str)) (\<lambda>status. cout (WrapWithQuotes status)))
        (cout (WrapWithQuotes ''FAIL''))))"
    by (intro prints_bindp_quiet prints_tryp clean_bindp clean_cout prints_cout quiet_rules answer_body_simps)
qed (simp add: prints_ret)

lemma clean_liftO_cout: "clean (bindp (liftO r) (\<lambda>e. cout (f e)))"
  by (intro clean_bindp clean_cout quiet_rules)

lemma prints_ReadLog: "prints (\<lambda>b y. if b then answer answer_body b y else y = []) (ReadLog env msg)"
proof -
  have body: "prints (\<lambda>_ y. answer_body y) m \<Longrightarrow>
    prints (\<lambda>b y. if b then answer answer_body b y else y = []) (bindp (cout kMessBeg) (\<lambda>_. bindp m (\<lambda>_.
     bindp (cout kMessEnd) (\<lambda>_. ret True))))" for m :: "('a, unit) bprog"
    using prints_optional [of m] unfolding prints_def answer_def by fastforce
  show ?thesis
    unfolding ReadLog_def Let_def
    by (simp only: split: option.split prod.split)
      (intro conjI allI impI body prints_tryp prints_bindp_quiet clean_bindp clean_cout prints_cout
        prints_ret quiet_rules answer_body_simps if_not_P [THEN iffD2] refl; simp)
qed

definition answer_shape :: "LispMessage \<Rightarrow> string \<Rightarrow> bool" where
  "answer_shape msg x \<longleftrightarrow> x = [] \<and> lm_objects msg = ''read_log'' \<or>
     (\<exists>y. x = ''('' @ y @ '')'' \<and> answer_body y)"

lemma prints_weaken: "prints Q m \<Longrightarrow> (\<And>a x. Q a x \<Longrightarrow> R a x) \<Longrightarrow> prints R m"
  unfolding prints_def by blast

lemma answer_shapeI: "answer answer_body b x \<Longrightarrow> answer_shape msg x"
  by (auto simp: answer_def answer_shape_def kMessBeg_def kMessEnd_def)

lemma prints_handlers:
  "prints (\<lambda>_. answer_shape msg) (ListBlockDevices env)"
  "prints (\<lambda>_. answer_shape msg) (Dispatch_ListRules env)"
  "prints (\<lambda>_. answer_shape msg) (Dispatch_GetUsersGroups env)"
  "prints (\<lambda>_. answer_shape msg) (Dispatch_SaveRules env msg)"
  "prints (\<lambda>_. answer_shape msg) (Dispatch_Health env)"
  "prints (\<lambda>_. answer_shape msg) (RunDaemon env)"
  "prints (\<lambda>_. answer_shape msg) (StopDaemon env)"
  "lm_objects msg = ''read_log'' \<Longrightarrow> prints (\<lambda>_. answer_shape msg) (ReadLog env msg)"
  "prints (\<lambda>_. answer_shape msg) (bindp (cout (kMessBeg @ kMessEnd)) (\<lambda>_. ret True))"
proof -
  note weak = prints_weaken [OF _ answer_shapeI]
  show "prints (\<lambda>_. answer_shape msg) (ListBlockDevices env)"
    by (rule weak [OF prints_ListBlockDevices])
  show "prints (\<lambda>_. answer_shape msg) (Dispatch_ListRules env)"
    unfolding Dispatch_ListRules_def by (rule weak [OF prints_escaped]) (rule quiet_operations)
  show "prints (\<lambda>_. answer_shape msg) (Dispatch_GetUsersGroups env)"
    unfolding Dispatch_GetUsersGroups_def by (rule weak [OF prints_escaped]) (rule quiet_operations)
  show "prints (\<lambda>_. answer_shape msg) (Dispatch_SaveRules env msg)"
    by (rule weak [OF prints_SaveRules])
  show "prints (\<lambda>_. answer_shape msg) (Dispatch_Health env)"
    unfolding Dispatch_Health_def by (rule weak [OF prints_one_literal]) (rule quiet_operations)
  show "prints (\<lambda>_. answer_shape msg) (RunDaemon env)"
    unfolding RunDaemon_def by (rule weak [OF prints_one_literal]) (rule quiet_operations)
  show "prints (\<lambda>_. answer_shape msg) (StopDaemon env)"
    unfolding StopDaemon_def by (rule weak [OF prints_one_literal]) (rule quiet_operations)
  show "prints (\<lambda>_. answer_shape msg) (ReadLog env msg)" if "lm_objects msg = ''read_log''"
    by (rule prints_weaken [OF prints_ReadLog]) (use that in \<open>auto simp: answer_shape_def answer_def kMessBeg_def
      kMessEnd_def split: if_splits\<close>)
  have "answer_shape msg (kMessBeg @ kMessEnd)"
    unfolding answer_shape_def kMessBeg_def kMessEnd_def by (intro disjI2 exI [of _ "[]"]) simp
  then show "prints (\<lambda>_. answer_shape msg) (bindp (cout (kMessBeg @ kMessEnd)) (\<lambda>_. ret True))"
    by (intro prints_bindp_cout prints_ret) simp
qed

lemma prints_noexceptp: "prints R m \<Longrightarrow> prints R (noexceptp m)"
  unfolding prints_def noexceptp_def by (auto split: prod.splits outcome.splits failure.splits)

lemma prints_Dispatch: "prints (\<lambda>_. answer_shape msg) (Dispatch env msg)"
  unfolding Dispatch_def by (rule prints_noexceptp) (simp add: prints_handlers)


text \<open>A backend without a daemon and without systemd.\<close>

definition dead_env :: "unit backend_env" where
  "dead_env = \<lparr>be_create_proxy = fail (Exc Runtime_error), be_call = (\<lambda>m args. fail (Exc Runtime_error)),
     be_systemd = \<lparr>sd_connect = fail (Exc Runtime_error), sd_proxy = (\<lambda>p. fail (Exc Runtime_error)),
       sd_call = (\<lambda>p m args. fail (Exc Runtime_error)), sd_property = (\<lambda>p n. fail (Exc Runtime_error))\<rparr>,
     be_parse = (\<lambda>t. None), be_serialize = (\<lambda>j. []), be_files = (\<lambda>w p. Log_missing)\<rparr>"

definition fresh :: "'w \<Rightarrow> 'w backend" where
  "fresh w = \<lparr>be_proxy = False, be_world = w, be_out = []\<rparr>"

lemma health_input: "Loop (print_lines (request_lines health_request)) = [health_request]"
  using Loop_requests [of "[health_request]"] sample_requests_ok by simp

lemma dead_health:
  "backend_main dead_env (print_lines (request_lines health_request)) (fresh ()) =
     (Ok (), (fresh ())\<lparr>be_out := ''('' @ WrapWithQuotes ''DEAD'' @ '')''\<rparr>)"
proof -
  have construct: "UsbMount_construct dead_env (fresh ()) = (Ok (), fresh ())"
    by (simp add: UsbMount_construct_def noexceptp_def bindp_def tryp_def set_proxy_def in_world_def dead_env_def
        fresh_def)
  have health: "Dispatch env health_request = noexceptp (Dispatch_Health env)" for env :: "unit backend_env"
    by (simp add: Dispatch_def health_request_def)
  show ?thesis
    by (simp add: backend_main_def health_input bindp_def construct health noexceptp_def Dispatch_Health_def
        cout_def UsbMount_Health_def) (simp add: fresh_def kMessBeg_def kMessEnd_def)
qed


section \<open>The list of devices\<close>

text \<open>
  A daemon that does not answer ends the backend: the calls of \<^verbatim>\<open>ListDevices\<close> on the bus
  stand outside of its \<^verbatim>\<open>try\<close> block, and it is \<^verbatim>\<open>noexcept\<close>. The request is not answered.
\<close>

theorem list_request_terminates:
  assumes "be_proxy s" and "be_call env ''ListDevices'' [] (be_world s) = (throws e, w)"
    and "lm_action msg = ''list''" and "lm_objects msg = ''list_block''"
  shows "Dispatch env msg s = (Fail Terminated, s\<lparr>be_world := w\<rparr>)"
  using assms by (simp add: Dispatch_def ListBlockDevices_def ListDevices_def noexceptp_def bindp_def in_world_def)

definition list_request :: LispMessage where
  "list_request = \<lparr>lm_action = ''list'', lm_objects = ''list_block'', lm_params = []\<rparr>"

theorem list_request_terminates_witness:
  "Dispatch dead_env list_request ((fresh ())\<lparr>be_proxy := True\<rparr>) = (Fail Terminated, (fresh ())\<lparr>be_proxy := True\<rparr>)"
  using list_request_terminates [of "(fresh ())\<lparr>be_proxy := True\<rparr>" dead_env Runtime_error "()" list_request]
  by (simp add: dead_env_def list_request_def fresh_def)

text \<open>How the frontend reads a printed device: a parenthesis, fifteen strings, a parenthesis.\<close>

definition read_device :: "string \<Rightarrow> (string list \<times> string) option" where
  "read_device text =
     (case text of
        [] \<Rightarrow> None
      | c # rest \<Rightarrow>
          if c \<noteq> CHR ''('' then None
          else case read_literals 15 rest of
            Some (vs, d # rest') \<Rightarrow> if d = CHR '')'' then Some (vs, rest') else None
          | _ \<Rightarrow> None)"

definition device_strings :: "ActiveDevice \<Rightarrow> string list" where
  "device_strings d = to_string (ad_index d) # concat (map (\<lambda>(n, v). [n, v]) (tl (SerializeForLisp d)))"

definition plain_device :: "ActiveDevice \<Rightarrow> bool" where
  "plain_device d \<longleftrightarrow> list_all (list_all plain)
     [ad_block d, ad_fs d, ad_vid d, ad_pid d, ad_serial d, ad_mount_point d, ad_status d]"

lemma read_literals_plain:
  "list_all (list_all plain) vs \<Longrightarrow>
   read_literals (length vs) (concat (map (\<lambda>v. WrapWithQuotes v @ '' '') vs) @ rest) = Some (vs, rest)"
  by (induction vs) (simp_all add: WrapWithQuotes_def lisp_body_plain)

lemma ToLisp_device:
  "ToLisp (SerializeForLisp d) = ''('' @ concat (map (\<lambda>v. WrapWithQuotes v @ '' '') (device_strings d)) @ '')''"
  by (simp add: ToLisp_def device_strings_def SerializeForLisp_def)

lemma plain_digits: "list_all plain (to_string (w :: 'a::len word))"
proof -
  have "plain c" if "c \<in> set (to_string w)" for c
  proof -
    have "is_digit 10 c" using that nat_to_string_digits unfolding to_string_def by blast
    then show ?thesis by (auto simp: plain_def is_digit_def digit_value_def)
  qed
  then show ?thesis by (simp add: list_all_iff)
qed

text \<open>
  A printed device is read back by the frontend field by field, when no field contains a
  quote or a backslash (the fields are not escaped).
\<close>

theorem device_reads_back:
  assumes "plain_device d"
  shows "read_device (ToLisp (SerializeForLisp d) @ rest) = Some (device_strings d, rest)"
proof -
  have "list_all (list_all plain) (device_strings d)"
    using assms plain_digits by (simp add: device_strings_def SerializeForLisp_def plain_device_def)
      (simp add: plain_def)
  moreover have "length (device_strings d) = 15" by (simp add: device_strings_def SerializeForLisp_def)
  ultimately show ?thesis
    using read_literals_plain [of "device_strings d" "'')'' @ rest"]
    by (simp add: read_device_def ToLisp_device)
qed

definition stick_device :: ActiveDevice where
  "stick_device = \<lparr>ad_index = 1, ad_block = ''/dev/sdb1'', ad_fs = ''vfat'', ad_vid = ''90c'', ad_pid = ''1000'',
     ad_serial = ''123'', ad_mount_point = [], ad_status = ''free''\<rparr>"

theorem device_reads_back_witness:
  "read_device (ToLisp (SerializeForLisp stick_device) @ '')'') = Some (device_strings stick_device, '')'')"
  by (rule device_reads_back) (simp add: plain_device_def stick_device_def plain_def)

section \<open>Starting and stopping the daemon\<close>

lemma succeeds_Systemd_construct: "bus_ok sd \<Longrightarrow> \<exists>s. Systemd_construct sd w = (Ok (), s)"
proof -
  assume ok: "bus_ok sd"
  have "succeeds (ConnectToSystemDbus sd)"
    unfolding ConnectToSystemDbus_def by (intro sdbus_rules ok)
  then show ?thesis unfolding Systemd_construct_def succeeds_def by (metis (full_types) old.unit.exhaust)
qed

lemma succeeds_units:
  assumes "bus_ok sd"
  shows "succeeds (Run_unit sd)" and "succeeds (Stop_unit sd)"
  unfolding Run_unit_def Stop_unit_def
  by (intro sdbus_rules succeeds_option succeeds_jobs succeeds_StopUnit assms)+

lemma with_systemd_run:
  assumes "bus_ok (be_systemd env)" and "succeeds m"
  shows "\<exists>a w. with_systemd env m s = (Ok a, s\<lparr>be_world := w\<rparr>)"
proof -
  obtain c where c: "Systemd_construct (be_systemd env) (be_world s) = (Ok (), c)"
    using succeeds_Systemd_construct [OF assms(1)] by blast
  obtain a d where "m c = (Ok a, d)" using assms(2) by (rule succeedsE)
  with c show ?thesis by (simp add: with_systemd_def in_world_def) blast
qed

text \<open>
  Starting and stopping the daemon always come to an end with an answer, when systemd and
  the bus raise only exceptions of \<^verbatim>\<open>sdbus\<close>: after a successful start the backend has a
  proxy for the daemon, after a successful stop it has none, and a failed attempt leaves it as
  it was.
\<close>

theorem run_stop_proxy:
  assumes "bus_ok (be_systemd env)" and "sdbus_only (be_create_proxy env)"
  shows "(\<exists>b t. UsbMount_Run env s = (Ok b, t) \<and> be_proxy t = (b \<or> be_proxy s)) \<and>
    (\<exists>b t. UsbMount_Stop env s = (Ok b, t) \<and> be_proxy t = (\<not> b \<and> be_proxy s))"
proof
  obtain a w where run: "with_systemd env (Run_unit (be_systemd env)) s = (Ok a, s\<lparr>be_world := w\<rparr>)"
    using with_systemd_run [OF assms(1) succeeds_units(1) [OF assms(1)]] by blast
  show "\<exists>b t. UsbMount_Run env s = (Ok b, t) \<and> be_proxy t = (b \<or> be_proxy s)"
    using assms(2)
    by (rule sdbus_onlyE [where s = w])
      (cases a, auto simp: UsbMount_Run_def noexceptp_def bindp_def run tryp_def in_world_def set_proxy_def)+
  obtain a w where stop: "with_systemd env (Stop_unit (be_systemd env)) s = (Ok a, s\<lparr>be_world := w\<rparr>)"
    using with_systemd_run [OF assms(1) succeeds_units(2) [OF assms(1)]] by blast
  then show "\<exists>b t. UsbMount_Stop env s = (Ok b, t) \<and> be_proxy t = (\<not> b \<and> be_proxy s)"
    by (cases a) (auto simp: UsbMount_Stop_def noexceptp_def bindp_def set_proxy_def)
qed

definition slow_env :: "nat backend_env" where
  "slow_env = \<lparr>be_create_proxy = ret (), be_call = (\<lambda>m args. ret [''OK'']), be_systemd = slow_bus,
     be_parse = (\<lambda>t. None), be_serialize = (\<lambda>j. []), be_files = (\<lambda>w p. Log_missing)\<rparr>"

theorem run_stop_proxy_witness:
  "(\<exists>b t. UsbMount_Run slow_env (fresh 3) = (Ok b, t) \<and> be_proxy t = (b \<or> be_proxy (fresh (3 :: nat)))) \<and>
   (\<exists>b t. UsbMount_Stop slow_env (fresh 3) = (Ok b, t) \<and> be_proxy t = (\<not> b \<and> be_proxy (fresh (3 :: nat))))"
  by (rule run_stop_proxy) (simp_all add: slow_env_def slow_bus_ok sdbus_only_def)

section \<open>The log\<close>

text \<open>The characters that a JSON text shows as they are, and the values with no other ones.\<close>

definition json_char :: "char \<Rightarrow> bool" where
  "json_char c \<longleftrightarrow> c \<noteq> dquote \<and> c \<noteq> backslash \<and> 32 \<le> (of_char c :: nat)"

fun json_clean :: "json \<Rightarrow> bool" where
  "json_clean (JString s) = list_all json_char s"
| "json_clean (JArray xs) = (\<forall>x \<in> set xs. json_clean x)"
| "json_clean (JObject kvs) = (\<forall>(k, v) \<in> set kvs. list_all json_char k \<and> json_clean v)"
| "json_clean _ = True"

text \<open>The serializer writes a backslash only for a character that needs one, and an object with its
  brace first.\<close>

definition serializes_clean :: "(json \<Rightarrow> string) \<Rightarrow> bool" where
  "serializes_clean serialize \<longleftrightarrow>
     (\<forall>j. json_clean j \<longrightarrow> backslash \<notin> set (serialize j)) \<and>
     (\<forall>kvs. \<exists>t. serialize (JObject kvs) = CHR ''{'' # t)"

text \<open>A line of the log without control characters, the tabulator excepted.\<close>

definition log_char :: "char \<Rightarrow> bool" where
  "log_char c \<longleftrightarrow> c = CHR 0x09 \<or> 32 \<le> (of_char c :: nat)"

lemma HtmlEscape_json: "list_all log_char s \<Longrightarrow> list_all json_char (HtmlEscape s)"
  by (induction s) (auto simp: escape_map_def json_char_def log_char_def)

lemma page_json_clean: "list_all (list_all log_char) (page_data res) \<Longrightarrow> json_clean (page_json res)"
  by (simp add: page_json_def list_all_iff [of "list_all log_char"] HtmlEscape_json)
    (simp add: json_char_def)

lemma in_page: "list_all P ls \<Longrightarrow> list_all P (page k p ls)"
  by (auto simp: page_def list_all_iff dest!: in_set_dropD in_set_takeD)

definition page_request :: "nat \<Rightarrow> string \<Rightarrow> LispMessage" where
  "page_request p filter_text = \<lparr>lm_action = ''read'', lm_objects = ''read_log'',
     lm_params = [(''page'', nat_to_string p), (''filter'', filter_text)]\<rparr>"

text \<open>
  A request for a page of the log is answered with this page: twenty entries, counted from
  the end of the file, as one string in which the frontend reads back the JSON text with the
  number of pages and the entries.
\<close>

theorem log_request_answer:
  assumes lines: "GetFromFile (be_files env (be_world s)) kLogPath [f] = Ok ls"
    and n: "length ls < 2 ^ 31" and p: "(p + 1) * 20 < 2 ^ 31"
    and clean: "list_all (list_all log_char) ls" "serializes_clean (be_serialize env)"
  shows "\<exists>lit. Dispatch env (page_request p f) s = (Ok True, s\<lparr>be_out := be_out s @ ''('' @ lit @ '')''\<rparr>) \<and>
    lisp_literal (lit @ rest) = Some (be_serialize env (page_json \<lparr>curr_page = word_of_nat p,
      pages_number = count_pages (word_of_nat (length ls)) 20, page_data = page 20 p ls\<rparr>), rest)"
proof -
  let ?res = "\<lparr>curr_page = word_of_nat p,
      pages_number = count_pages (word_of_nat (length ls)) 20, page_data = page 20 p ls\<rparr>"
  have number: "StrToUint32 (nat_to_string p) = Some (word_of_nat p)"
    by (rule StrToUint32_printed) (use p in simp)
  have res: "GetByPage (be_files env (be_world s)) kLogPath [f] (word_of_nat p) 20 = Ok ?res"
    using GetByPage_page [OF lines n p] by simp
  have "json_clean (page_json ?res)"
    by (rule page_json_clean) (simp add: in_page clean(1))
  then have "backslash \<notin> set (be_serialize env (page_json ?res))"
    using clean(2) by (simp add: serializes_clean_def)
  moreover obtain t where "be_serialize env (page_json ?res) = CHR ''{'' # t"
    using clean(2) unfolding serializes_clean_def page_json_def by blast
  ultimately obtain e where e: "EscapeQuotes (be_serialize env (page_json ?res)) = Ok e"
    "lisp_literal (WrapWithQuotes e @ rest) = Some (be_serialize env (page_json ?res), rest)"
    using EscapeQuotes_literal [of "be_serialize env (page_json ?res)" rest] by auto
  have "LogReader kLogPath = Ok kLogPath" by (simp add: LogReader_def kLogPath_def)
  then have "Dispatch env (page_request p f) s =
      (Ok True, s\<lparr>be_out := be_out s @ ''('' @ WrapWithQuotes e @ '')''\<rparr>)"
    by (simp add: Dispatch_def page_request_def ReadLog_def noexceptp_def bindp_def tryp_def cout_def Let_def
        number value_or_def res e(1) kMessBeg_def kMessEnd_def)
  then show ?thesis using e(2) by blast
qed

text \<open>A serializer for values without fractions, and a log of two lines.\<close>

fun commas :: "string list \<Rightarrow> string" where
  "commas [] = []"
| "commas [x] = x"
| "commas (x # xs) = x @ '','' @ commas xs"

fun json_text :: "json \<Rightarrow> string" where
  "json_text JNull = ''null''"
| "json_text (JBool b) = (if b then ''true'' else ''false'')"
| "json_text (JInt64 w) = int_to_string (sint w)"
| "json_text (JUint64 w) = to_string w"
| "json_text (JDouble r) = ''0''"
| "json_text (JString s) = WrapWithQuotes (EscapeAll s)"
| "json_text (JArray xs) = ''['' @ commas (map json_text xs) @ '']''"
| "json_text (JObject kvs) = ''{'' @ commas (map (\<lambda>(k, v). WrapWithQuotes (EscapeAll k) @ '':'' @ json_text v) kvs) @ ''}''"

lemma set_commas: "set (commas ts) \<subseteq> (\<Union>t \<in> set ts. set t) \<union> {CHR '',''}"
  by (induction ts rule: commas.induct) auto

lemma EscapeAll_clean: "list_all json_char s \<Longrightarrow> EscapeAll s = s"
  by (induction s) (auto simp: json_char_def)

lemma number_no_backslash: "backslash \<notin> set (nat_to_string n)"
  using nat_to_string_digits [of backslash n] by (auto simp: is_digit_def digit_value_def)

lemma json_text_clean: "json_clean j \<Longrightarrow> backslash \<notin> set (json_text j)"
proof (induction j rule: json_text.induct)
  case (6 s)
  then show ?case by (auto simp: EscapeAll_clean WrapWithQuotes_def list_all_iff json_char_def)
next
  case (7 xs)
  then show ?case using set_commas [of "map json_text xs"] by auto
next
  case (8 kvs)
  have "backslash \<notin> set (WrapWithQuotes (EscapeAll k) @ '':'' @ json_text v)" if kv: "(k, v) \<in> set kvs" for k v
  proof -
    have "list_all json_char k" "json_clean v" using "8.prems" kv by auto
    moreover from this(2) have "backslash \<notin> set (json_text v)" using "8.IH" [OF kv refl] by simp
    ultimately show ?thesis by (auto simp: EscapeAll_clean WrapWithQuotes_def list_all_iff json_char_def)
  qed
  then show ?case
    using set_commas [of "map (\<lambda>(k, v). WrapWithQuotes (EscapeAll k) @ '':'' @ json_text v) kvs"] by auto
qed (auto simp: to_string_def int_to_string_def number_no_backslash)

definition log_env :: "unit backend_env" where
  "log_env = dead_env\<lparr>be_serialize := json_text,
     be_files := (\<lambda>w path. Log_contents (print_lines [''usb a'', ''usb b'']))\<rparr>"

lemma log_env_lines:
  "GetFromFile (be_files log_env w) kLogPath [''usb''] =
     Ok [log_entry 1 ''usb a'', log_entry 2 ''usb b'']"
  by (simp add: GetFromFile_def log_env_def kLogPath_def getlines_print_lines any_filter_def starts_with_def Let_def)

lemma log_entry_clean: "list_all log_char line \<Longrightarrow> list_all log_char (log_entry n line)"
proof -
  assume line: "list_all log_char line"
  have "log_char c" if "c \<in> set (to_string n)" for c
  proof -
    have "is_digit 10 c" using that nat_to_string_digits unfolding to_string_def by blast
    then show ?thesis by (auto simp: log_char_def is_digit_def digit_value_def Let_def split: if_splits)
  qed
  with line show ?thesis by (simp add: log_entry_def list_all_iff [of _ "to_string n"]) (simp add: log_char_def)
qed

theorem log_request_answer_witness:
  "\<exists>lit. Dispatch log_env (page_request 0 ''usb'') (fresh ()) =
      (Ok True, (fresh ())\<lparr>be_out := be_out (fresh ()) @ ''('' @ lit @ '')''\<rparr>) \<and>
    lisp_literal (lit @ []) = Some (be_serialize log_env (page_json \<lparr>curr_page = word_of_nat 0,
      pages_number = count_pages (word_of_nat (length [log_entry 1 ''usb a'', log_entry 2 ''usb b''])) 20,
      page_data = page 20 0 [log_entry 1 ''usb a'', log_entry 2 ''usb b'']\<rparr>), [])"
proof (rule log_request_answer [OF log_env_lines])
  show "list_all (list_all log_char) [log_entry 1 ''usb a'', log_entry 2 ''usb b'']"
    by (simp add: log_entry_clean log_char_def)
  show "serializes_clean (be_serialize log_env)"
    by (simp add: serializes_clean_def log_env_def json_text_clean)
qed simp_all

end
