(* ===== verification/Backend_Daemon.thy ===== *)
theory Backend_Daemon
  imports Usb_Backend
begin

text \<open>
  The backend and the daemon together: the calls of the backend on the bus are the methods of
  the daemon, whose state is the world of the backend. The properties follow a request from the
  text that the frontend sends to the text that it gets back.
\<close>

definition attached :: "'w os \<Rightarrow> 'w daemon backend_env \<Rightarrow> bool" where
  "attached os env \<longleftrightarrow> be_create_proxy env = ret () \<and> be_call env = bus_call os"

definition connected :: "'w daemon \<Rightarrow> 'w daemon backend" where
  "connected d = (fresh d)\<lparr>be_proxy := True\<rparr>"

definition save_request :: "string \<Rightarrow> LispMessage" where
  "save_request form = \<lparr>lm_action = ''read'', lm_objects = ''save_rules'', lm_params = [(''data'', form)]\<rparr>"

definition status_json :: json where
  "status_json = JObject [(''STATUS'', JString ''OK'')]"

lemma construct_attached: "attached os env \<Longrightarrow> UsbMount_construct env (fresh d) = (Ok (), connected d)"
  by (simp add: UsbMount_construct_def attached_def noexceptp_def bindp_def tryp_def set_proxy_def in_world_def
      fresh_def connected_def)

lemma Dispatch_save_request: "Dispatch env (save_request form) = noexceptp (Dispatch_SaveRules env (save_request form))"
  by (simp add: Dispatch_def save_request_def)

lemma Dispatch_health_request: "Dispatch env health_request = noexceptp (Dispatch_Health env)"
  by (simp add: Dispatch_def health_request_def)

section \<open>Sample environments\<close>

text \<open>The sample daemon with one stick, and with the forms of the sample system.\<close>

definition daemon_env :: "'w os \<Rightarrow> (string \<Rightarrow> json option) \<Rightarrow> 'w daemon backend_env" where
  "daemon_env os parse = \<lparr>be_create_proxy = ret (), be_call = bus_call os,
     be_systemd = \<lparr>sd_connect = ret (), sd_proxy = (\<lambda>p. ret ()), sd_call = (\<lambda>p m args. ret []),
       sd_property = (\<lambda>p n. fail (Exc Runtime_error))\<rparr>,
     be_parse = parse, be_serialize = json_serialize os, be_files = (\<lambda>w p. Log_missing)\<rparr>"

lemma daemon_env_attached [simp]: "attached os (daemon_env os parse)"
  by (simp add: attached_def daemon_env_def)

definition status_parse :: "string \<Rightarrow> json option" where
  "status_parse text = (if text = [] then None else Some status_json)"

section \<open>The bus\<close>

text \<open>
  What the backend relies on: a call on the bus comes back, with a reply or with the exception of
  the bus. Every request but the one for the list of devices is then answered.
\<close>

locale total_bus =
  fixes call :: "string \<Rightarrow> string list \<Rightarrow> ('w, reply) prog"
  assumes comes_back: "sdbus_only (call m args)"
begin

lemma string_succeeds:
  assumes "be_call env = call"
  shows "succeeds (GetStringNoParams env m)" and "succeeds (GetStringResponse env m p)"
proof -
  have read: "sdbus_only (liftO (read_string r))" for r
    by (cases r) (auto simp: sdbus_only_def read_string_def)
  have ask: "sdbus_only (in_world (be_call env m args))" for m args
    using comes_back [of m args] unfolding assms sdbus_only_def in_world_def
    by (auto split: prod.splits) (metis prod.inject)
  show "succeeds (GetStringNoParams env m)" "succeeds (GetStringResponse env m p)"
    unfolding GetStringNoParams_def GetStringResponse_def
    by (intro sdbus_rules succeeds_tryp read ask)+
qed

lemma Health_succeeds: "be_call env = call \<Longrightarrow> succeeds (UsbMount_Health env)"
  unfolding UsbMount_Health_def by (intro sdbus_rules string_succeeds)

end

lemma sdbus_only_bus_call: "sdbus_only (bus_call os m args)"
  unfolding sdbus_only_def bus_call_def by (auto split: prod.splits outcome.splits)

interpretation daemon_bus: total_bus "bus_call os"
  by unfold_locales (rule sdbus_only_bus_call)

lemma cout_succeeds: "succeeds (cout x)"
  by (simp add: succeeds_def cout_def)

lemma jstr_throws: "jstr obj k = Fail f \<Longrightarrow> \<exists>e. f = Exc e"
proof (cases "map_of obj k")
  case (Some v)
  then show "jstr obj k = Fail f \<Longrightarrow> \<exists>e. f = Exc e" by (cases v) (auto simp: jstr_def jat_def)
qed (auto simp: jstr_def jat_def)

lemma reply_status_throws: "reply_status env text = Fail f \<Longrightarrow> \<exists>e. f = Exc e"
proof (cases "be_parse env text")
  case (Some v)
  then show "reply_status env text = Fail f \<Longrightarrow> \<exists>e. f = Exc e"
    by (cases v) (auto simp: reply_status_def parse_json_def jstr_throws)
qed (auto simp: reply_status_def parse_json_def)

lemma status_succeeds: "succeeds (tryp (bindp (liftO (reply_status env text)) (\<lambda>status. cout (WrapWithQuotes status)))
    (cout (WrapWithQuotes ''FAIL'')))"
proof -
  show ?thesis
    by (cases "reply_status env text") (use reply_status_throws in \<open>fastforce simp: succeeds_def tryp_def bindp_def cout_def fail_def\<close>)+
qed



section \<open>The list of devices\<close>

definition shown_device :: "u64 \<Rightarrow> UsbUdevDevice \<Rightarrow> string \<Rightarrow> bool \<Rightarrow> ActiveDevice" where
  "shown_device i d mount is_owned = \<lparr>ad_index = i, ad_block = c_str (ud_block_name d), ad_fs = c_str (ud_filesystem d),
     ad_vid = c_str (ud_vid d), ad_pid = c_str (ud_pid d), ad_serial = c_str (ud_serial d),
     ad_mount_point = c_str mount, ad_status = (if is_owned then ''owned'' else ''free'')\<rparr>"

lemma status_c_str: "c_str ''owned'' = ''owned''" "c_str ''free'' = ''free''"
  by (simp_all add: c_str_def)

lemma ActiveDevice_of_device_json:
  "obind (as_object (reparse (device_json d mount is_owned))) ActiveDevice_of_json = Ok (shown_device 0 d mount is_owned)"
  by (simp add: device_json_def ActiveDevice_of_json_def jcontains_def jstr_def jat_def shown_device_def
      status_c_str)

lemma active_loop_daemon:
  "active_loop n (map (\<lambda>d. reparse (device_json d (f d) (g d))) devs) =
     map (\<lambda>(i, d). shown_device (n + word_of_nat i) d (f d) (g d)) (enumerate 0 devs)"
proof (induction devs arbitrary: n)
  case (Cons d devs)
  have "map (\<lambda>(i, d). shown_device (n + word_of_nat i) d (f d) (g d)) (enumerate (Suc 0) devs) =
      map (\<lambda>(i, d). shown_device (n + 1 + word_of_nat i) d (f d) (g d)) (enumerate 0 devs)"
    by (simp add: enumerate_Suc_eq o_def split_beta add.assoc)
  then show ?case
    using Cons [of "n + 1"] by (simp add: ActiveDevice_of_device_json) (simp add: shown_device_def)
qed simp

text \<open>
  C21: The list of devices of the backend is the one of the daemon: numbered from one, each
  connected device with its fields, the mount point that is stored for it, and the status that
  says whether a rule names it.
\<close>

theorem backend_lists_daemon:
  assumes "attached os env" and "table_inv (st_perms s)" and "table_inv (st_mounts s)"
    and "GetConnectedDevices os (st_world s) = (Ok devs, w)"
    and "\<And>d. d \<in> set devs \<Longrightarrow> \<exists>dto. Device_of_params (ud_vid d) (ud_pid d) (ud_serial d) = Ok dto"
    and "json_io (be_parse env) (json_serialize os) (JArray (map (\<lambda>d.
      device_json d (stored_mount (ud_block_name d) (st_mounts s)) (has_rule d (st_perms s))) devs))"
  shows "ListDevices env (connected s) = (Ok (map (\<lambda>(i, d). shown_device (1 + word_of_nat i) d
      (stored_mount (ud_block_name d) (st_mounts s)) (has_rule d (st_perms s))) (enumerate 0 devs)),
    connected (s\<lparr>st_world := w\<rparr>))"
proof -
  let ?arr = "JArray (map (\<lambda>d.
      device_json d (stored_mount (ud_block_name d) (st_mounts s)) (has_rule d (st_perms s))) devs)"
  have "bus_call os ''ListDevices'' [] s = (Ok [json_serialize os ?arr], s\<lparr>st_world := w\<rparr>)"
    using ListActiveDevices_run [OF assms(2-5)] by (simp add: bus_call_def vtable_def)
  moreover have "active_devices env (json_serialize os ?arr) = map (\<lambda>(i, d). shown_device (1 + word_of_nat i) d
      (stored_mount (ud_block_name d) (st_mounts s)) (has_rule d (st_perms s))) (enumerate 0 devs)"
    using assms(6) active_loop_daemon [of 1 _ _ devs]
    by (simp add: active_devices_def parse_json_def json_io_def o_def)
  ultimately show ?thesis
    using assms(1)
    by (simp add: ListDevices_def attached_def noexceptp_def bindp_def in_world_def read_string_def connected_def
        fresh_def)
qed

section \<open>Saving a form\<close>

definition said :: "string \<Rightarrow> string" where
  "said text = ''('' @ WrapWithQuotes text @ '')''"

lemma Dispatch_save_ok:
  assumes "attached os env" and "bus_call os ''SaveRules'' [form] (be_world s) = (Ok [text], d)"
    and "be_proxy s" and "reply_status env text = Ok status"
  shows "Dispatch env (save_request form) s = (Ok True, s\<lparr>be_world := d, be_out := be_out s @ said status\<rparr>)"
  using assms unfolding Dispatch_save_request
  by (simp add: Dispatch_SaveRules_def save_request_def noexceptp_def bindp_def tryp_def cout_def
      UsbMount_SaveRules_def GetStringResponse_def in_world_def read_string_def attached_def said_def
      kMessBeg_def kMessEnd_def)

lemma Dispatch_save_error:
  assumes "attached os env" and "bus_call os ''SaveRules'' [form] (be_world s) = (throws e, d)"
    and "be_proxy s" and "be_parse env [] = None"
  shows "Dispatch env (save_request form) s = (Ok True, s\<lparr>be_world := d, be_out := be_out s @ said ''FAIL''\<rparr>)"
  using assms unfolding Dispatch_save_request
  by (simp add: Dispatch_SaveRules_def save_request_def noexceptp_def bindp_def tryp_def cout_def
      UsbMount_SaveRules_def GetStringResponse_def in_world_def attached_def said_def reply_status_def
      parse_json_def kMessBeg_def kMessEnd_def)

lemma SaveRules_call:
  "SaveRules os form d = (Ok r, d') \<Longrightarrow> bus_call os ''SaveRules'' [form] d = (Ok r, d')"
  "SaveRules os form d = (Fail f, d') \<Longrightarrow> bus_call os ''SaveRules'' [form] d = (throws Runtime_error, d')"
  by (simp_all add: bus_call_def vtable_def)

text \<open>The JSON library on the two texts that are read: the status of the daemon, and nothing.\<close>

definition reads_status :: "'w os \<Rightarrow> 'w daemon backend_env \<Rightarrow> bool" where
  "reads_status os env \<longleftrightarrow> be_parse env (json_serialize os status_json) = Some status_json \<and> be_parse env [] = None"

lemma reply_status_ok:
  "reads_status os env \<Longrightarrow> reply_status env (json_serialize os status_json) = Ok ''OK''"
  by (simp add: reads_status_def reply_status_def parse_json_def status_json_def jstr_def jat_def c_str_def)

lemma save_request_run:
  assumes "attached os env" and "list_all request_ok (map save_request forms)"
  shows "backend_main env (print_lines (concat (map request_lines (map save_request forms)))) (fresh d) =
    foreach (\<lambda>form. bindp (Dispatch env (save_request form)) (\<lambda>_. ret ())) forms (connected d)"
proof -
  have "foreach p (map save_request forms) = foreach (\<lambda>form. p (save_request form)) forms" for p :: "_ \<Rightarrow> ('a daemon, unit) bprog"
    by (induction forms) simp_all
  then show ?thesis
    unfolding backend_main_def Loop_requests [OF assms(2)]
    by (simp add: bindp_Ok [where m = "UsbMount_construct env", OF construct_attached [OF assms(1)]])
qed

lemma save_form_run:
  assumes "attached os env" and "reads_status os env" and "request_ok (save_request form)"
    and "table_inv (st_perms d)" and "\<not> tbl_started (st_perms d)"
    and "accounts_are os users groups" and "parse_form os form = Ok obj"
    and "form_spec users groups obj (rules_of d) = Ok \<mu>"
  shows "\<exists>d' t. SaveRules os form d = (Ok (status_ok os), d') \<and> rules_of d' = \<mu> \<and>
    \<not> tbl_started (st_perms d') \<and>
    backend_main env (print_lines (request_lines (save_request form))) (fresh d) = (Ok (), t) \<and>
    be_out t = said ''OK'' \<and> be_world t = d'"
proof -
  obtain d' where d': "SaveRules os form d = (Ok (status_ok os), d')" "rules_of d' = \<mu>"
    "\<not> tbl_started (st_perms d')"
    using SaveRules_accepted [OF assms(4-8)] by blast
  have "Dispatch env (save_request form) (connected d) =
      (Ok True, (connected d)\<lparr>be_world := d', be_out := be_out (connected d) @ said ''OK''\<rparr>)"
    by (rule Dispatch_save_ok [OF assms(1) _ _ reply_status_ok [OF assms(2)]])
      (use SaveRules_call(1) [OF d'(1)] in \<open>simp_all add: connected_def fresh_def status_ok_def status_json_def\<close>)
  then show ?thesis
    using save_request_run [OF assms(1), of "[form]"] assms(3) d'
    by (simp add: bindp_def connected_def fresh_def)
qed

text \<open>
  C6: A form that the frontend sends, from text to text: the backend reads the request from
  its input, the daemon changes its table of rules as the form says, and the frontend reads
  \<^verbatim>\<open>OK\<close>.
\<close>

theorem save_form_end_to_end:
  assumes "attached os env" and "reads_status os env" and "request_ok (save_request form)"
    and "table_inv (st_perms d)" and "\<not> tbl_started (st_perms d)"
    and "accounts_are os users groups" and "parse_form os form = Ok obj"
    and "form_spec users groups obj (rules_of d) = Ok \<mu>"
  shows "\<exists>t. backend_main env (print_lines (request_lines (save_request form))) (fresh d) = (Ok (), t) \<and>
    be_out t = said ''OK'' \<and> rules_of (be_world t) = \<mu> \<and> \<not> tbl_started (st_perms (be_world t))"
  using save_form_run [OF assms] by blast


lemma form_reads_status: "reads_status (form_os j) (daemon_env (form_os j) status_parse)"
  by (simp add: reads_status_def daemon_env_def status_parse_def form_os_def status_json_def)

lemma form_request_ok: "request_ok (save_request ''form'')"
  by (simp add: save_request_def request_ok_def param_ok_def line_ok_def kStrAction_def
      kStrObjects_def mess_begin_def mess_end_def trim_def is_space_def starts_with_def)

theorem save_form_end_to_end_witness:
  "\<exists>t. backend_main (daemon_env (form_os (JObject replace_form)) status_parse)
      (print_lines (request_lines (save_request ''form''))) (fresh (sample_daemon empty_world)) = (Ok (), t) \<and>
    be_out t = said ''OK'' \<and> rules_of (be_world t) = [0 \<mapsto> new_rule] \<and>
    \<not> tbl_started (st_perms (be_world t))"
  by (rule save_form_end_to_end [OF daemon_env_attached form_reads_status form_request_ok sample_unlocked
      form_accounts parse_sample_form replace_form_accepted])


definition rows_parse :: "string \<Rightarrow> json option" where
  "rows_parse text = (if text = ''rows'' then Some (reparse (JArray [device_json sample_usb [] True])) else None)"

lemma sample_stick_facts:
  "stored_mount (ud_block_name sample_usb) sample_mounts = []" "has_rule sample_usb sample_permissions"
  by (simp add: stored_mount_def sample_mounts_data sample_usb_def sample_mount_def smap_find_key_def)
    (rule sample_usb_rule)

lemma rows_json_io:
  "json_io (be_parse (daemon_env os rows_parse)) (json_serialize (stick_os (JArray [device_json sample_usb [] True])))
     (JArray [device_json sample_usb [] True])"
  by (simp add: json_io_def rows_parse_def daemon_env_def stick_os_def)

theorem backend_lists_daemon_witness:
  "ListDevices (daemon_env (stick_os (JArray [device_json sample_usb [] True])) rows_parse)
     (connected (sample_daemon empty_world)) =
   (Ok [shown_device 1 sample_usb [] True], connected ((sample_daemon empty_world)\<lparr>st_world := empty_world\<rparr>))"
proof -
  let ?os = "stick_os (JArray [device_json sample_usb [] True])"
  have "\<exists>dto. Device_of_params (ud_vid d) (ud_pid d) (ud_serial d) = Ok dto"
    if "d \<in> set [sample_usb]" for d using that sample_usb_device by auto
  note lists = backend_lists_daemon [OF daemon_env_attached [of ?os rows_parse] _ _ stick_connected this,
      of "sample_daemon empty_world"]
  show ?thesis
    using lists rows_json_io [of ?os]
    by (simp add: sample_permissions_inv sample_mounts_inv [unfolded mounts_inv_def] sample_stick_facts)
qed

end
