(* ===== verification/Plug_In.thy ===== *)
theory Plug_In
  imports Backend_Daemon
begin

text \<open>
  What the daemon is for: a stick with a rule is mounted. The other theorems about mounting hold
  whatever the system answers and say what never happens; here the calls that a mount needs
  succeed (\<open>in_order\<close>), and the theorems say what happens then: from the event of udev, from
  the text of a form that the frontend sent before, and when the stick is pulled out again.
\<close>

section \<open>Programs that succeed\<close>

text \<open>\<open>runs m s Q\<close>: from the state \<open>s\<close> the program returns a value, which satisfies \<open>Q\<close> with
  the new state; the rules below compute it backwards.\<close>

definition runs :: "('s, 'a) prog \<Rightarrow> 's \<Rightarrow> ('a \<Rightarrow> 's \<Rightarrow> bool) \<Rightarrow> bool" where
  "runs m s Q \<longleftrightarrow> (\<exists>a t. m s = (Ok a, t) \<and> Q a t)"

lemma runs_ret [simp]: "runs (ret a) s Q \<longleftrightarrow> Q a s"
  and runs_liftO [simp]: "runs (liftO (Ok a)) s Q \<longleftrightarrow> Q a s"
  by (simp_all add: runs_def)

lemma runs_bindp [simp]: "runs (bindp m k) s Q \<longleftrightarrow> runs m s (\<lambda>a t. runs (k a) t Q)"
  by (auto simp: runs_def bindp_eq_Ok)

lemma runs_noexceptp [simp]: "runs (noexceptp m) s Q \<longleftrightarrow> runs m s Q"
  by (auto simp: runs_def noexceptp_def split: prod.splits outcome.splits failure.splits)

lemma runs_emit [simp]: "runs (emit ev) s Q \<longleftrightarrow> Q () (s\<lparr>st_trace := ev # st_trace s\<rparr>)"
  by (simp add: runs_def)

lemma runs_os_call [simp]:
  "runs (os_call f) s Q \<longleftrightarrow> Q (fst (f (st_world s))) (s\<lparr>st_world := snd (f (st_world s))\<rparr>)"
  by (simp add: runs_def os_call_run)

lemma runs_on_world [simp]:
  "runs (on_world p) s Q \<longleftrightarrow> runs p (st_world s) (\<lambda>a w. Q a (s\<lparr>st_world := w\<rparr>))"
  by (auto simp: runs_def on_world_def split: prod.splits)

lemma runs_tryp: "runs m s Q \<Longrightarrow> runs (tryp m h) s Q"
  by (auto simp: runs_def tryp_def)

lemma runs_mono: "runs m s Q \<Longrightarrow> (\<And>a t. Q a t \<Longrightarrow> R a t) \<Longrightarrow> runs m s R"
  by (auto simp: runs_def)

lemma runs_call: "fst (m w) = Ok a \<Longrightarrow> runs m w Q \<longleftrightarrow> Q a (snd (m w))"
  by (cases "m w") (simp add: runs_def)

section \<open>A system in order\<close>

text \<open>The devices that the list of mounts has; this and the paths that exist are what a mount sees.\<close>

definition listed :: "'w os \<Rightarrow> 'w \<Rightarrow> string set" where
  "listed os w = (case fst (os_mtab os w) of None \<Rightarrow> {} | Some es \<Rightarrow> mnt_fsname ` set es)"

definition sights :: "'w os \<Rightarrow> ('w \<Rightarrow> string set) \<Rightarrow> 'w \<Rightarrow> string set \<times> string set" where
  "sights os dirs w = (dirs w, listed os w)"

text \<open>
  \<open>steady ok obs f R\<close>: in a world that is in order the call gives an answer with \<open>R\<close>, leaves the
  world in order and \<open>obs\<close> as it was. \<open>grown os ok dirs D P w w'\<close>: \<open>w'\<close> is in order and has
  at most the paths \<open>P\<close> and the mounted devices \<open>D\<close> more than \<open>w\<close>, and every device that \<open>w\<close> has.
\<close>

definition steady ::
  "('w \<Rightarrow> bool) \<Rightarrow> ('w \<Rightarrow> 'b) \<Rightarrow> ('w \<Rightarrow> 'a \<times> 'w) \<Rightarrow> ('w \<Rightarrow> 'a \<Rightarrow> bool) \<Rightarrow> bool" where
  "steady ok obs f R \<longleftrightarrow>
     (\<forall>w. ok w \<longrightarrow> R w (fst (f w)) \<and> ok (snd (f w)) \<and> obs (snd (f w)) = obs w)"

definition grown ::
  "'w os \<Rightarrow> ('w \<Rightarrow> bool) \<Rightarrow> ('w \<Rightarrow> string set) \<Rightarrow> string set \<Rightarrow> string set \<Rightarrow> 'w \<Rightarrow> 'w \<Rightarrow> bool" where
  "grown os ok dirs D P w w' \<longleftrightarrow>
     ok w' \<and> dirs w' \<subseteq> dirs w \<union> P \<and> listed os w \<subseteq> listed os w' \<and> listed os w' \<subseteq> listed os w \<union> D"

lemma grown_trans:
  "grown os ok dirs D P w w1 \<Longrightarrow> grown os ok dirs D' P' w1 w2 \<Longrightarrow> D \<union> D' \<subseteq> D2 \<Longrightarrow> P \<union> P' \<subseteq> P2 \<Longrightarrow>
   grown os ok dirs D2 P2 w w2"
  unfolding grown_def by blast

lemma grown_then:
  "grown os ok dirs D P w w1 \<Longrightarrow> ok w2 \<Longrightarrow> sights os dirs w2 = sights os dirs w1 \<Longrightarrow> grown os ok dirs D P w w2"
  by (simp add: grown_def sights_def)

lemma grown_from:
  "grown os ok dirs D P w1 w2 \<Longrightarrow> sights os dirs w1 = sights os dirs w \<Longrightarrow> grown os ok dirs D P w w2"
  by (simp add: grown_def sights_def)

lemma sights_dirs: "sights os dirs w' = sights os dirs w \<Longrightarrow> dirs w' = dirs w"
  by (simp add: sights_def)

text \<open>A path with its parents, and the paths below a directory.\<close>

definition parents :: "string \<Rightarrow> string set" where
  "parents p = range (\<lambda>n. take n p)"

definition below :: "string \<Rightarrow> string set" where
  "below p = range (\<lambda>q. p @ ''/'' @ q)"

lemma parents_self: "p \<in> parents p"
  by (auto simp: parents_def intro: image_eqI [of _ _ "length p"])

lemma parents_short: "q \<in> parents p \<Longrightarrow> length q \<le> length p"
  by (auto simp: parents_def)

text \<open>There is memory for the entries of a list.\<close>

definition acl_memory :: "('w, 'a) libacl \<Rightarrow> 'a acl_view \<Rightarrow> bool" where
  "acl_memory lib v \<longleftrightarrow> (\<forall>acl. acl_create_entry lib acl \<noteq> None \<and>
     (\<forall>h \<in> fst ` set (fst (v acl)). acl_get_permset lib acl h \<noteq> None \<and>
        (\<forall>m. acl_add_perm lib acl h m \<noteq> None) \<and> (\<forall>t. acl_set_tag_type lib acl h t \<noteq> None) \<and>
        (\<forall>q. acl_set_qualifier lib acl h q \<noteq> None) \<and> acl_set_permset lib acl h h \<noteq> None))"

definition plain_list :: "'a acl_view \<Rightarrow> 'a \<Rightarrow> bool" where
  "plain_list v acl \<longleftrightarrow> length (fst (v acl)) < 100 \<and> distinct (map fst (fst (v acl))) \<and>
     (\<forall>x \<in> set (fst (v acl)). ae_tag (snd x) \<noteq> None)"

text \<open>
  The calls that a mount needs succeed. \<open>dirs\<close> are the paths that exist; making the directory of
  the user and the group makes at most its parents as well, and a mount shows at most paths below
  its target.
\<close>

definition in_order ::
  "'w os \<Rightarrow> ('w, 'a) libacl \<Rightarrow> 'a acl_view \<Rightarrow> (u32 \<Rightarrow> string option) \<Rightarrow> (u32 \<Rightarrow> string option) \<Rightarrow>
   ('w \<Rightarrow> bool) \<Rightarrow> ('w \<Rightarrow> string set) \<Rightarrow> bool" where
  "in_order os lib v users groups ok dirs \<longleftrightarrow>
     libacl_laws lib v \<and> acl_memory lib v \<and>
     (\<forall>p. steady ok (sights os dirs) (acl_get_file lib p) (\<lambda>_ a. \<exists>acl. a = Some acl \<and> plain_list v acl)) \<and>
     (\<forall>p acl. steady ok (sights os dirs) (acl_set_file lib p acl) (\<lambda>_ a. a)) \<and>
     (\<forall>u. steady ok (sights os dirs) (os_getpwuid os u) (\<lambda>_ a. a = users u)) \<and>
     (\<forall>g. steady ok (sights os dirs) (os_getgrgid os g) (\<lambda>_ a. a = groups g)) \<and>
     (\<forall>p m. steady ok (sights os dirs) (os_chmod os p m) (\<lambda>_ a. a)) \<and>
     (\<forall>p u g. steady ok (sights os dirs) (os_chown os p u g) (\<lambda>_ a. a)) \<and>
     (\<forall>p. steady ok (sights os dirs) (fio_exists os p) (\<lambda>w r. r = Ok (p \<in> dirs w))) \<and>
     steady ok (sights os dirs) (os_mtab os) (\<lambda>_ _. True) \<and>
     (\<forall>p w. ok w \<longrightarrow> fst (fio_create_directories os p w) = Ok () \<and>
        grown os ok dirs {} (parents p) w (snd (fio_create_directories os p w))) \<and>
     (\<forall>p w. ok w \<longrightarrow> p \<notin> dirs w \<longrightarrow> fst (os_create_directory os p w) = Ok True \<and>
        p \<in> dirs (snd (os_create_directory os p w)) \<and>
        grown os ok dirs {} {p} w (snd (os_create_directory os p w))) \<and>
     (\<forall>p text w. ok w \<longrightarrow> grown os ok dirs {} {p} w (snd (fio_write os p text w))) \<and>
     (\<forall>d t fs fl data w. ok w \<longrightarrow> t \<in> dirs w \<longrightarrow> fst (os_mount os d t fs fl data w) = 0 \<and>
        grown os ok dirs {d} (below t) w (snd (os_mount os d t fs fl data w)))"

lemma in_order_calls:
  assumes "in_order os lib v users groups ok dirs" and "ok w"
  shows "fst (acl_set_file lib p acl w)" "ok (snd (acl_set_file lib p acl w))"
      "sights os dirs (snd (acl_set_file lib p acl w)) = sights os dirs w"
    and "ok (snd (acl_get_file lib p w))" "sights os dirs (snd (acl_get_file lib p w)) = sights os dirs w"
      "\<exists>acl. fst (acl_get_file lib p w) = Some acl \<and> plain_list v acl"
    and "fst (os_getpwuid os u w) = users u" "ok (snd (os_getpwuid os u w))"
      "sights os dirs (snd (os_getpwuid os u w)) = sights os dirs w"
    and "fst (os_getgrgid os g w) = groups g" "ok (snd (os_getgrgid os g w))"
      "sights os dirs (snd (os_getgrgid os g w)) = sights os dirs w"
    and "fst (os_chmod os p m w)" "ok (snd (os_chmod os p m w))"
      "sights os dirs (snd (os_chmod os p m w)) = sights os dirs w"
    and "fst (os_chown os p u g w)" "ok (snd (os_chown os p u g w))"
      "sights os dirs (snd (os_chown os p u g w)) = sights os dirs w"
    and "fst (fio_exists os p w) = Ok (p \<in> dirs w)" "ok (snd (fio_exists os p w))"
      "sights os dirs (snd (fio_exists os p w)) = sights os dirs w"
    and "ok (snd (os_mtab os w))" "sights os dirs (snd (os_mtab os w)) = sights os dirs w"
  using assms(1) [unfolded in_order_def] assms(2) by (auto simp: steady_def)

lemma in_order_makes:
  assumes "in_order os lib v users groups ok dirs" and "ok w"
  shows "fst (fio_create_directories os p w) = Ok ()"
      "grown os ok dirs {} (parents p) w (snd (fio_create_directories os p w))"
    and "grown os ok dirs {} {p} w (snd (fio_write os p text w))"
    and "p \<notin> dirs w \<Longrightarrow> fst (os_create_directory os p w) = Ok True"
      "p \<notin> dirs w \<Longrightarrow> p \<in> dirs (snd (os_create_directory os p w))"
      "p \<notin> dirs w \<Longrightarrow> grown os ok dirs {} {p} w (snd (os_create_directory os p w))"
    and "t \<in> dirs w \<Longrightarrow> fst (os_mount os d t fs fl data w) = 0"
      "t \<in> dirs w \<Longrightarrow> grown os ok dirs {d} (below t) w (snd (os_mount os d t fs fl data w))"
  using assms unfolding in_order_def by blast+

section \<open>The list can be rebuilt\<close>

lemma entry_succeeds:
  assumes "creation_laws lib v" and "acl_memory lib v"
  shows "\<exists>acl'. CreateUserAclEntry lib i acl = Ok acl'" "\<exists>acl'. CreateGroupAclEntry lib i acl = Ok acl'"
    "\<exists>acl'. CreateMaskAclEntry lib acl = Ok acl'"
proof -
  have mem: "acl_create_entry lib a \<noteq> None"
    "h \<in> fst ` set (fst (v a)) \<Longrightarrow> acl_get_permset lib a h \<noteq> None"
    "h \<in> fst ` set (fst (v a)) \<Longrightarrow> acl_add_perm lib a h m \<noteq> None"
    "h \<in> fst ` set (fst (v a)) \<Longrightarrow> acl_set_tag_type lib a h t \<noteq> None"
    "h \<in> fst ` set (fst (v a)) \<Longrightarrow> acl_set_qualifier lib a h q \<noteq> None"
    "h \<in> fst ` set (fst (v a)) \<Longrightarrow> acl_set_permset lib a h h \<noteq> None" for a h m t q
    using assms(2) unfolding acl_memory_def by blast+
  have handles: "fst ` set (change_entry h f es) = fst ` set es" for h f es
    by (force simp: change_entry_def)
  note ch = creation_changes [OF assms(1)]
  obtain a1 h where c: "acl_create_entry lib acl = Some (a1, h)" using mem(1) by fastforce
  then have h1: "h \<in> fst ` set (fst (v a1))" using creation_create [OF assms(1) c] by simp
  obtain ps where "acl_get_permset lib a1 h = Some ps" using mem(2) [OF h1] by blast
  with ch(1) have p: "acl_get_permset lib a1 h = Some h" by blast
  obtain a2 where a: "acl_add_perm lib a1 h acl_rx = Some a2" using mem(3) [OF h1] by blast
  have h2: "h \<in> fst ` set (fst (v a2))" using h1 by (simp add: ch(2) [OF a] handles)
  have tagged: "\<exists>a3. acl_set_tag_type lib a2 h t = Some a3 \<and> h \<in> fst ` set (fst (v a3))" for t
    using mem(4) [OF h2, of t] h2 by (metis ch(3) handles not_None_eq)
  have named: "\<exists>a4. acl_set_qualifier lib a3 h i = Some a4 \<and> h \<in> fst ` set (fst (v a4))"
    if "h \<in> fst ` set (fst (v a3))" for a3
    using mem(5) [OF that, of i] that by (metis ch(4) handles not_None_eq)
  have done5: "\<exists>a5. acl_set_permset lib a4 h h = Some a5" if "h \<in> fst ` set (fst (v a4))" for a4
    using mem(6) [OF that] by blast
  have withid: "\<exists>a3 a4 a5. acl_set_tag_type lib a2 h t = Some a3 \<and> acl_set_qualifier lib a3 h i = Some a4 \<and>
      acl_set_permset lib a4 h h = Some a5" for t
    using tagged named done5 by blast
  have masked: "\<exists>a3 a5. acl_set_tag_type lib a2 h ACL_MASK = Some a3 \<and> acl_set_permset lib a3 h h = Some a5"
    using tagged done5 by blast
  show "\<exists>acl'. CreateUserAclEntry lib i acl = Ok acl'"
    using withid [of ACL_USER] by (auto simp: CreateUserAclEntry_def need_def c p a)
  show "\<exists>acl'. CreateGroupAclEntry lib i acl = Ok acl'"
    using withid [of ACL_GROUP] by (auto simp: CreateGroupAclEntry_def need_def c p a)
  show "\<exists>acl'. CreateMaskAclEntry lib acl = Ok acl'"
    using masked by (auto simp: CreateMaskAclEntry_def need_def c p a)
qed

lemma build_acl_succeeds:
  assumes "libacl_laws lib v" and "acl_memory lib v" and "plain_list v acl"
  shows "\<exists>acl'. build_acl lib u g acl = Ok acl'"
proof -
  have iter: "iteration_laws lib v" and make: "creation_laws lib v"
    using assms(1) by (simp_all add: libacl_laws_def)
  have "\<exists>acl1. delete_loop lib 100 True acl = Ok acl1 \<and>
      fst (v acl1) = take 0 (fst (v acl)) @ filter own_entry (drop 0 (fst (v acl)))"
    by (rule delete_loop_filters [OF iter, where p = "snd (v acl)"])
      (use assms(3) in \<open>auto simp: plain_list_def\<close>)
  then show ?thesis
    using entry_succeeds [OF make assms(2)]
    by (fastforce simp: build_acl_def DeleteACLUserGroupMask_def obind_eq_Ok)
qed

lemma SetAcl_runs:
  assumes "in_order os lib v users groups ok dirs" and "ok (st_world s)"
  shows "runs (SetAcl lib u g p) s (\<lambda>_ t. ok (st_world t) \<and>
    sights os dirs (st_world t) = sights os dirs (st_world s))"
proof -
  note calls = in_order_calls [OF assms(1)]
  have laws: "libacl_laws lib v" "acl_memory lib v" using assms(1) by (auto simp: in_order_def)
  obtain acl where acl: "fst (acl_get_file lib p (st_world s)) = Some acl" "plain_list v acl"
    using calls(6) [OF assms(2)] by blast
  obtain acl' where b: "build_acl lib u g acl = Ok acl'"
    using build_acl_succeeds [OF laws acl(2)] by blast
  show ?thesis
    unfolding SetAcl_def by (simp add: acl(1) b calls assms(2))
qed

section \<open>The steps of a mount\<close>

text \<open>The directory of a user and a group.\<close>

definition user_folder :: "(u32 \<Rightarrow> string option) \<Rightarrow> (u32 \<Rightarrow> string option) \<Rightarrow> u32 \<Rightarrow> u32 \<Rightarrow> string" where
  "user_folder users groups u g =
     mount_root @ value_or (to_string u) (users u) @ ''_'' @ value_or (to_string g) (groups g)"

lemma user_folder_nonempty [simp]: "user_folder users groups u g \<noteq> []"
  by (simp add: user_folder_def)

lemma CreateAclMountPoint_runs:
  assumes "in_order os lib v users groups ok dirs" and "ok (st_world s)"
  shows "runs (CreateAclMountPoint os lib cm) s (\<lambda>(made, cm') t. made \<and>
    cm' = cm\<lparr>cm_base := Some (user_folder users groups (cm_uid_or_0 cm) (cm_gid_or_0 cm))\<rparr> \<and>
    grown os ok dirs {} (parents (user_folder users groups (cm_uid_or_0 cm) (cm_gid_or_0 cm)))
      (st_world s) (st_world t))"
proof -
  note calls = in_order_calls [OF assms(1)] and makes = in_order_makes [OF assms(1)]
  let ?p = "user_folder users groups (cm_uid_or_0 cm) (cm_gid_or_0 cm)"
  let ?w = "snd (os_getgrgid os (cm_gid_or_0 cm) (snd (os_getpwuid os (cm_uid_or_0 cm) (st_world s))))"
  let ?w1 = "snd (fio_create_directories os ?p ?w)"
  have w: "ok ?w" "sights os dirs ?w = sights os dirs (st_world s)" by (simp_all add: calls assms(2))
  have made: "grown os ok dirs {} (parents ?p) (st_world s) ?w1"
    using grown_from [OF makes(2) [OF w(1)] w(2)] .
  then have ok1: "ok ?w1" by (simp add: grown_def)
  have final: "grown os ok dirs {} (parents ?p) (st_world s) (st_world t)"
    if "ok (st_world t)" "sights os dirs (st_world t) = sights os dirs ?w1" for t
    by (rule grown_then [OF made that])
  show ?thesis
    unfolding CreateAclMountPoint_def Let_def
    by (simp add: calls assms(2))
      (rule runs_tryp, use ok1 in \<open>simp add: runs_call calls makes(1) w(1) user_folder_def\<close>,
       rule runs_mono [OF SetAcl_runs [OF assms(1)]],
       use final ok1 in \<open>auto simp: calls assms(2) user_folder_def\<close>)
qed

lemma endpoint_found:
  assumes "in_order os lib v users groups ok dirs" and "ok w" and "p \<notin> dirs w"
  shows "runs (hangp (endpoint_loop os 0 p)) w Q \<longleftrightarrow> Q p (snd (fio_exists os p w))"
proof -
  have "occupied os p w = (Ok False, snd (fio_exists os p w))"
    using in_order_calls(19) [OF assms(1,2), of p] assms(3)
    by (cases "fio_exists os p w") (simp add: occupied_def bindp_def)
  then show ?thesis
    by (simp add: runs_def hangp_def endpoint_loop_step [of os 0 p])
qed

text \<open>The name of the directory: the label, or the identifier of the file system, or \<^verbatim>\<open>usb\<close>.\<close>

definition stick_name :: "UsbUdevDevice \<Rightarrow> string" where
  "stick_name d = (if ud_fs_label d \<noteq> [] then ud_fs_label d
     else if ud_fs_uid d \<noteq> [] then ud_fs_uid d else ''usb'')"

lemma CreateMountEndpoint_runs:
  assumes "in_order os lib v users groups ok dirs" and "ok (st_world s)"
    and "cm_base cm = Some folder" and "folder \<noteq> []"
    and "folder @ ''/'' @ stick_name (cm_device cm) \<notin> dirs (st_world s)"
    and "folder @ ''/'' @ SanitizeMount (stick_name (cm_device cm)) \<notin> dirs (st_world s)"
  shows "runs (CreateMountEndpoint os cm) s (\<lambda>(ready, cm') t. ready \<and>
    cm' = cm\<lparr>cm_end := Some (folder @ ''/'' @ SanitizeMount (stick_name (cm_device cm)))\<rparr> \<and>
    folder @ ''/'' @ SanitizeMount (stick_name (cm_device cm)) \<in> dirs (st_world t) \<and>
    grown os ok dirs {} {folder @ ''/'' @ SanitizeMount (stick_name (cm_device cm))} (st_world s) (st_world t))"
proof -
  note calls = in_order_calls [OF assms(1)] and makes = in_order_makes [OF assms(1)]
  define tg where tg: "tg = folder @ ''/'' @ SanitizeMount (stick_name (cm_device cm))"
  let ?same = "\<lambda>w. ok w \<and> sights os dirs w = sights os dirs (st_world s)"
  have named: "runs (endpoint_name os (folder @ ''/'') (cm_device cm)) (st_world s) (\<lambda>n w. n = tg \<and> ?same w)"
    using assms(2,5)
    by (cases "ud_fs_label (cm_device cm) = []"; cases "ud_fs_uid (cm_device cm) = []")
      (simp_all add: tg endpoint_name_def stick_name_def runs_call calls SanitizeMount.simps)
  have free: "tg \<notin> dirs w" if "?same w" for w using that assms(6) tg sights_dirs by metis
  have found: "runs (hangp (endpoint_loop os 0 tg)) w (\<lambda>e w. e = tg \<and> ?same w)" if "?same w" for w
    using that endpoint_found [OF assms(1) _ free [OF that]] by (simp add: calls)
  have made: "fst (os_create_directory os tg w) = Ok True" "ok (snd (os_create_directory os tg w))"
    "tg \<in> dirs (snd (os_create_directory os tg w))"
    "grown os ok dirs {} {tg} (st_world s) (snd (os_create_directory os tg w))" if "?same w" for w
    using makes(4-6) [OF _ free [OF that]] that grown_from [of os ok dirs "{}" "{tg}" w]
    by (auto simp: grown_def sights_def)
  have last: "ok w'" "tg \<in> dirs w'" "grown os ok dirs {} {tg} (st_world s) w'"
    if "?same w" "w' = snd (os_chmod os tg m (snd (os_chown os tg u g (snd (os_create_directory os tg w)))))"
    for w w' m u g
  proof -
    have w': "ok w'" "sights os dirs w' = sights os dirs (snd (os_create_directory os tg w))"
      by (simp_all add: that(2) calls made(2) [OF that(1)])
    then show "ok w'" "tg \<in> dirs w'" "grown os ok dirs {} {tg} (st_world s) w'"
      using made(3) [OF that(1)] sights_dirs [OF w'(2)] grown_then [OF made(4) [OF that(1)] w'] by simp_all
  qed
  have asked: "runs (fio_exists os tg) w Q \<longleftrightarrow> Q False (snd (fio_exists os tg w))"
    and created: "runs (os_create_directory os tg) w Q' \<longleftrightarrow> Q' True (snd (os_create_directory os tg w))"
    if "?same w" for w Q Q'
    using that free [OF that] by (auto intro!: runs_call simp: calls made)
  show ?thesis
    unfolding CreateMountEndpoint_def tg [symmetric]
    by (simp add: assms(3,4) value_or_def, rule runs_tryp, simp, rule runs_mono [OF named [simplified]],
       clarsimp, rule runs_mono [OF found], simp)
      (clarsimp simp: asked created calls made last [OF _ refl])
qed

text \<open>The options, the call and the row of a mount.\<close>

definition mount_options :: "custom_mount \<Rightarrow> MountOptions" where
  "mount_options cm = SetMountOptions cm
     \<lparr>mo_flags = 0, mo_fs = ud_filesystem (cm_device cm), mo_data = [], mo_read_only = False\<rparr>"

definition mount_event :: "custom_mount \<Rightarrow> string \<Rightarrow> sysevent" where
  "mount_event cm target = EvMount (ud_block_name (cm_device cm)) target (mo_fs (mount_options cm))
     (mo_flags (mount_options cm)) (mo_data (mount_options cm)) 0"

lemma PerfomMount_runs:
  assumes "in_order os lib v users groups ok dirs" and "ok (st_world s)"
    and "cm_end cm = Some target" and "target \<in> dirs (st_world s)"
  shows "runs (PerfomMount os cm) s (\<lambda>mounted t. mounted \<and>
    st_trace t = mount_event cm target # st_trace s \<and> st_mounts t = st_mounts s \<and>
    grown os ok dirs {ud_block_name (cm_device cm)} (below target) (st_world s) (st_world t))"
proof -
  note calls = in_order_calls [OF assms(1)] and makes = in_order_makes [OF assms(1)]
  let ?w = "snd (fio_exists os target (st_world s))"
  have w: "ok ?w" "sights os dirs ?w = sights os dirs (st_world s)" by (simp_all add: calls assms(2))
  then have there: "target \<in> dirs ?w" using assms(4) sights_dirs by metis
  show ?thesis
    unfolding PerfomMount_def mount_call_def Let_def
    by (simp add: assms(2-4) runs_call calls makes(7) [OF w(1) there] mount_event_def mount_options_def
        grown_from [OF makes(8) [OF w(1) there] w(2)])
qed

definition mount_row :: "custom_mount \<Rightarrow> string \<Rightarrow> MountEntry" where
  "mount_row cm target = \<lparr>me_dev_name = ud_block_name (cm_device cm), me_mount_point = target,
     me_fs_type = ud_filesystem (cm_device cm)\<rparr>"

text \<open>A row is added under the next key, if it is not there yet, and no other row changes.\<close>

definition remembered :: "MountEntry \<Rightarrow> MountEntry table \<Rightarrow> MountEntry table \<Rightarrow> bool" where
  "remembered e t t' \<longleftrightarrow> tbl_path t' = tbl_path t \<and>
     (\<exists>k. (map_of (tbl_data t) k = Some e \<or> map_of (tbl_data t) k = None \<and> k = next_index (tbl_data t)) \<and>
        map_of (tbl_data t') = (map_of (tbl_data t))(k \<mapsto> e))"

lemma Create_remembers:
  assumes "table_inv t" and "no_top_key (tbl_data t)" and "Mountpoints_Create os e (t, w) = (r, (t', w'))"
  shows "remembered e t t'"
proof (cases "e \<in> snd ` set (tbl_data t)")
  case True
  then obtain k where "map_of (tbl_data t) k = Some e"
    using std_map.lookup_iff [OF table_invD(1) [OF assms(1)]] by fastforce
  moreover have "t' = t" using True assms(1,3) by (simp add: Mountpoints_Create_run)
  ultimately show ?thesis by (auto simp: remembered_def fun_upd_idem intro!: exI [of _ k])
next
  case False
  have key: "k' \<noteq> - 1" if "k' \<in> fst ` set (tbl_data t)" for k'
    using assms(2) that by (metis no_top_key_def)
  note new = append_row_fresh [OF table_invD(1) [OF assms(1)] key]
  have "t' = t\<lparr>tbl_data := append_row e (tbl_data t)\<rparr>"
    using False assms(1,3) by (auto simp: Mountpoints_Create_run append_row_inv table_invD commit_run
        split: prod.splits if_splits)
  then show ?thesis
    using new by (auto simp: remembered_def map_add_def fun_eq_iff split: option.splits)
qed

lemma Create_grows:
  assumes "in_order os lib v users groups ok dirs" and "ok w" and "table_inv t"
    and "Mountpoints_Create os e (t, w) = (r, (t', w'))"
  shows "grown os ok dirs {} {tbl_path t} w w'"
proof -
  have "grown os ok dirs {} P w w" for P using assms(2) by (simp add: grown_def)
  moreover have "grown os ok dirs {} {tbl_path t} w (snd (fio_write os (tbl_path t) str w))" for str
    using in_order_makes(3) [OF assms(1,2)] .
  ultimately show ?thesis
    using assms(3,4) by (cases "tbl_started t") (auto simp: Mountpoints_Create_run commit_run append_row_inv
        table_invD split: if_splits prod.splits dest: sym [of "fio_write _ _ _ _"], (metis snd_conv)+)
qed

lemma save_mount_runs:
  assumes "in_order os lib v users groups ok dirs" and "ok (st_world s)"
    and "table_inv (st_mounts s)" and "no_top_key (tbl_data (st_mounts s))"
    and "ud_block_name (cm_device cm) \<noteq> []" and "cm_end cm = Some target" and "target \<noteq> []"
  shows "runs (save_mount os cm) s (\<lambda>_ t. st_trace t = st_trace s \<and>
    remembered (mount_row cm target) (st_mounts s) (st_mounts t) \<and>
    grown os ok dirs {} {tbl_path (st_mounts s)} (st_world s) (st_world t))"
proof -
  let ?run = "Mountpoints_Create os (mount_row cm target) (st_mounts s, st_world s)"
  obtain r t w where run: "?run = (r, (t, w))" by (metis prod_cases3)
  have "r = Ok () \<or> r = throws Runtime_error"
    using run by (auto simp: Mountpoints_Create_run [OF assms(3)] commit_run append_row_inv
        table_invD [OF assms(3)] assms(3) split: if_splits prod.splits)
  moreover have "MountEntry_of_params (ud_block_name (cm_device cm)) (value_or [] (cm_end cm))
      (ud_filesystem (cm_device cm)) = Ok (mount_row cm target)"
    using assms(5-7) by (simp add: MountEntry_of_params_def mount_row_def value_or_def)
  moreover have "remembered (mount_row cm target) (st_mounts s) t"
    using Create_remembers [OF assms(3,4) run] .
  moreover have "grown os ok dirs {} {tbl_path (st_mounts s)} (st_world s) w"
    using Create_grows [OF assms(1-3) run] .
  ultimately show ?thesis
    by (auto simp: save_mount_def runs_def tryp_def bindp_def on_mounts_def run)
qed

text \<open>No mount was made since the trace was \<open>tr\<close>.\<close>

definition quiet_since :: "sysevent list \<Rightarrow> 'w daemon \<Rightarrow> bool" where
  "quiet_since tr t \<longleftrightarrow> (\<exists>before. st_trace t = before @ tr \<and> filter is_mount before = [])"

lemma quiet_rules:
  "keeps (quiet_since tr) (on_world m)" "keeps (quiet_since tr) (os_call f)"
  "\<not> is_mount ev \<Longrightarrow> keeps (quiet_since tr) (emit ev)"
  by (auto simp: keeps_def quiet_since_def on_world_run os_call_run)

lemma mount_steps_quiet_since:
  "keeps (quiet_since tr) (CreateAclMountPoint os lib cm)" "keeps (quiet_since tr) (CreateMountEndpoint os cm)"
  unfolding CreateAclMountPoint_def CreateMountEndpoint_def SetAcl_def
  by (intro keeps_rules quiet_rules; simp)+

lemma runs_keeps: "runs m s Q \<Longrightarrow> keeps P m \<Longrightarrow> P s \<Longrightarrow> runs m s (\<lambda>a t. Q a t \<and> P t)"
  unfolding runs_def by (metis keepsE)

text \<open>Neither the name nor its sanitized form is there; the code asks for both.\<close>

definition free_for :: "('w \<Rightarrow> string set) \<Rightarrow> string \<Rightarrow> string \<Rightarrow> 'w \<Rightarrow> bool" where
  "free_for dirs folder label w \<longleftrightarrow>
     folder @ ''/'' @ label \<notin> dirs w \<and> folder @ ''/'' @ SanitizeMount label \<notin> dirs w"

text \<open>From \<open>s\<close> to \<open>t\<close>: one mount was made, by the last call, and its row was added.\<close>

definition mounted_at :: "custom_mount \<Rightarrow> string \<Rightarrow> 'w daemon \<Rightarrow> 'w daemon \<Rightarrow> bool" where
  "mounted_at cm target s t \<longleftrightarrow> (\<exists>before. filter is_mount before = [] \<and>
       st_trace t = mount_event cm target # before @ st_trace s) \<and>
     remembered (mount_row cm target) (st_mounts s) (st_mounts t)"

lemma mounted_at_world [simp]: "mounted_at cm target (s\<lparr>st_world := w\<rparr>) = mounted_at cm target s"
  by (simp add: mounted_at_def fun_eq_iff)

text \<open>The paths that a mount may bring about: the directory of the owner with its parents, the target
  and what is below it, and the file of the table.\<close>

definition mount_reach :: "string \<Rightarrow> string \<Rightarrow> string \<Rightarrow> string set" where
  "mount_reach folder target path = parents folder \<union> {target} \<union> below target \<union> {path}"

lemma mount_for_runs:
  assumes "in_order os lib v users groups ok dirs" and "ok (st_world s)"
    and "table_inv (st_mounts s)" and "no_top_key (tbl_data (st_mounts s))"
    and "cm_uid cm = Some u" and "cm_gid cm = Some g" and "cm_device cm = d"
    and "ud_dev_type d \<noteq> ''disk'' \<or> ud_filesystem d = ''ntfs''"
    and "ud_block_name d \<noteq> []"
    and "free_for dirs (user_folder users groups u g) (stick_name d) (st_world s)"
    and "tg = user_folder users groups u g @ ''/'' @ SanitizeMount (stick_name d)"
  shows "runs (mount_for os lib cm) s (\<lambda>_ t. mounted_at cm tg s t \<and> grown os ok dirs {ud_block_name d}
    (mount_reach (user_folder users groups u g) tg (tbl_path (st_mounts s))) (st_world s) (st_world t))"
proof -
  let ?f = "user_folder users groups u g"
  let ?Q = "\<lambda>t. mounted_at cm tg s t \<and> grown os ok dirs {ud_block_name d}
    (mount_reach ?f tg (tbl_path (st_mounts s))) (st_world s) (st_world t)"
  have nonempty: "tg \<noteq> []" by (simp add: assms(11))
  have ids: "cm_uid_or_0 cm = u" "cm_gid_or_0 cm = g"
    using assms(5,6) by (simp_all add: cm_uid_or_0_def cm_gid_or_0_def value_or_def)
  let ?cm1 = "cm\<lparr>cm_base := Some ?f\<rparr>" and ?cm2 = "cm\<lparr>cm_base := Some ?f, cm_end := Some tg\<rparr>"
  have same: "mount_event ?cm2 tg = mount_event cm tg" "mount_row ?cm2 tg = mount_row cm tg"
    by (simp_all add: mount_event_def mount_options_def SetMountOptions_def cm_uid_or_0_def cm_gid_or_0_def
        mount_row_def)
  have tail: "runs (PerfomMount os ?cm2) s2 (\<lambda>mounted t. runs (if \<not> mounted then ret True
      else bindp (save_mount os ?cm2) (\<lambda>_. ret True)) t (\<lambda>_. ?Q))"
    if s2: "tg \<in> dirs (st_world s2)" "st_mounts s2 = st_mounts s" "quiet_since (st_trace s) s2"
      "grown os ok dirs {} (parents ?f \<union> {tg}) (st_world s) (st_world s2)" for s2
  proof (rule runs_mono [OF PerfomMount_runs [OF assms(1) _ _ s2(1), of ?cm2]])
    fix mounted and t :: "'a daemon"
    assume m: "mounted \<and> st_trace t = mount_event ?cm2 tg # st_trace s2 \<and> st_mounts t = st_mounts s2 \<and>
      grown os ok dirs {ud_block_name (cm_device ?cm2)} (below tg) (st_world s2) (st_world t)"
    then have g: "grown os ok dirs {ud_block_name d} (parents ?f \<union> {tg} \<union> below tg) (st_world s) (st_world t)"
      by (intro grown_trans [OF s2(4)]) (auto simp: assms(7))
    then have "ok (st_world t)" by (simp add: grown_def)
    have all: "grown os ok dirs {ud_block_name d} (mount_reach ?f tg (tbl_path (st_mounts s))) (st_world s) w"
      if "grown os ok dirs {} {tbl_path (st_mounts s)} (st_world t) w" for w
      by (rule grown_trans [OF g that]) (auto simp: mount_reach_def)
    from save_mount_runs [OF assms(1) \<open>ok (st_world t)\<close>, of ?cm2 tg]
    show "runs (if \<not> mounted then ret True else bindp (save_mount os ?cm2) (\<lambda>_. ret True)) t (\<lambda>_. ?Q)"
      using m s2(2,3) assms(3,4,7,9) nonempty
      by (auto simp: same mounted_at_def quiet_since_def elim!: runs_mono intro!: all [folded assms(7)])
  qed (use s2 in \<open>simp_all add: grown_def\<close>)
  have middle: "runs (CreateMountEndpoint os ?cm1) s1 (\<lambda>(ready, cm') t. ready \<and> cm' = ?cm2 \<and>
      tg \<in> dirs (st_world t) \<and> grown os ok dirs {} (parents ?f \<union> {tg}) (st_world s) (st_world t))"
    if s1: "grown os ok dirs {} (parents ?f) (st_world s) (st_world s1)" for s1
  proof -
    have "p \<notin> dirs (st_world s1)" if "length ?f < length p" "p \<notin> dirs (st_world s)" for p
      using that s1 parents_short [of p ?f] by (auto simp: grown_def)
    then have free: "?f @ ''/'' @ stick_name (cm_device ?cm1) \<notin> dirs (st_world s1)"
      "?f @ ''/'' @ SanitizeMount (stick_name (cm_device ?cm1)) \<notin> dirs (st_world s1)"
      using assms(7,10) by (simp_all add: free_for_def)
    have "ok (st_world s1)" using s1 by (simp add: grown_def)
    have all: "grown os ok dirs {} (parents ?f \<union> {tg}) (st_world s) w"
      if "grown os ok dirs {} {tg} (st_world s1) w" for w by (rule grown_trans [OF s1 that]) simp_all
    show ?thesis
      by (rule runs_mono [OF CreateMountEndpoint_runs [OF assms(1) \<open>ok (st_world s1)\<close> _ _ free]])
        (use all assms(7,11) in \<open>auto\<close>)
  qed
  note first = runs_keeps [OF runs_keeps [OF CreateAclMountPoint_runs [OF assms(1,2)] mount_steps_tables(1)]
      mount_steps_quiet_since(1), of "st_mounts s" "st_trace s"]
  note second = runs_keeps [OF runs_keeps [OF middle mount_steps_tables(2)] mount_steps_quiet_since(2), of _
      "st_mounts s" "st_trace s"]
  have "\<not> (ud_dev_type (cm_device cm) = ''disk'' \<and> ud_filesystem (cm_device cm) \<noteq> ''ntfs'')"
    using assms(7,8) by blast
  then show ?thesis
    unfolding mount_for_def
    by (simp only: if_False runs_bindp, intro runs_mono [OF first [of cm]])
      (auto simp: ids mounts_are_def quiet_since_def [of _ s] intro!: runs_mono [OF second] tail)
qed

lemma mount_for_rules: "keeps (perms_are t) (mount_for os lib cm)"
  unfolding mount_for_def CreateAclMountPoint_def CreateMountEndpoint_def PerfomMount_def mount_call_def
    RemoveMountPoint_def save_mount_def
  by (intro keeps_rules; (rule keeps_case_pair, intro keeps_rules)?)

section \<open>From the event to the mount\<close>

text \<open>The rule that counts for a device: the one with the least key.\<close>

definition first_rule :: "(u64 \<Rightarrow> PermissionEntry option) \<Rightarrow> Device \<Rightarrow> PermissionEntry \<Rightarrow> bool" where
  "first_rule m dto e \<longleftrightarrow> (\<exists>k. m k = Some e \<and> pe_device e = dto \<and>
     (\<forall>k' e'. k' < k \<longrightarrow> m k' = Some e' \<longrightarrow> pe_device e' \<noteq> dto))"

lemma first_rule_found:
  assumes "table_inv t" and "first_rule (map_of (tbl_data t)) dto e"
  shows "\<exists>k. smap_find_key (\<lambda>p. pe_device p = dto) (tbl_data t) = Some k \<and> map_of (tbl_data t) k = Some e"
proof -
  note inv = table_invD(1) [OF assms(1)]
  obtain k where k: "map_of (tbl_data t) k = Some e" "pe_device e = dto"
    "\<And>k' e'. k' < k \<Longrightarrow> map_of (tbl_data t) k' = Some e' \<Longrightarrow> pe_device e' \<noteq> dto"
    using assms(2) by (auto simp: first_rule_def)
  then obtain j where j: "smap_find_key (\<lambda>p. pe_device p = dto) (tbl_data t) = Some j"
    using find_key_iff [OF assms(1), of "\<lambda>p. pe_device p = dto"] by auto
  note least = std_map.find_key_least [OF inv j]
  then have "j \<le> k" using k(1,2) by blast
  moreover have "\<not> j < k" using least k(3) by blast
  ultimately have "j = k" by simp
  with j k(1) show ?thesis by blast
qed

text \<open>A stick as udev reports it when it is plugged in.\<close>

definition plugged_stick :: "UsbUdevDevice \<Rightarrow> Device \<Rightarrow> bool" where
  "plugged_stick d dto \<longleftrightarrow> Device_of_params (ud_vid d) (ud_pid d) (ud_serial d) = Ok dto \<and>
     ud_action d = KAdd \<and> ud_subsystem d = ''block'' \<and> \<not> fs_is_unsupported d \<and>
     (ud_dev_type d \<noteq> ''disk'' \<or> ud_filesystem d = ''ntfs'') \<and> ud_block_name d \<noteq> []"

text \<open>The object that mounts it, for the first user and the first group of the rule.\<close>

definition mount_of :: "UsbUdevDevice \<Rightarrow> PermissionEntry \<Rightarrow> custom_mount" where
  "mount_of d e = (CustomMount d)\<lparr>cm_uid := Some (user_uid (hd (pe_users e))),
     cm_gid := Some (group_gid (hd (pe_groups e)))\<rparr>"

definition rule_folder ::
  "(u32 \<Rightarrow> string option) \<Rightarrow> (u32 \<Rightarrow> string option) \<Rightarrow> PermissionEntry \<Rightarrow> string" where
  "rule_folder users groups e =
     user_folder users groups (user_uid (hd (pe_users e))) (group_gid (hd (pe_groups e)))"

definition rule_target ::
  "(u32 \<Rightarrow> string option) \<Rightarrow> (u32 \<Rightarrow> string option) \<Rightarrow> UsbUdevDevice \<Rightarrow> PermissionEntry \<Rightarrow> string" where
  "rule_target users groups d e = rule_folder users groups e @ ''/'' @ SanitizeMount (stick_name d)"

lemma ProcessDevice_grows:
  assumes "in_order os lib v users groups ok dirs" and "ok (st_world s)"
    and "daemon_inv s" and "no_top_key (tbl_data (st_mounts s))"
    and "first_rule (map_of (tbl_data (st_perms s))) dto e" and "pe_users e \<noteq> []" and "pe_groups e \<noteq> []"
    and "plugged_stick d dto" and "free_for dirs (rule_folder users groups e) (stick_name d) (st_world s)"
  shows "runs (ProcessDevice os lib (Some d)) s (\<lambda>_ t.
    mounted_at (mount_of d e) (rule_target users groups d e) s t \<and> grown os ok dirs {ud_block_name d}
      (mount_reach (rule_folder users groups e) (rule_target users groups d e) (tbl_path (st_mounts s)))
      (st_world s) (st_world t) \<and> st_perms t = st_perms s)"
proof -
  let ?Q = "\<lambda>t. mounted_at (mount_of d e) (rule_target users groups d e) s t \<and>
    grown os ok dirs {ud_block_name d}
      (mount_reach (rule_folder users groups e) (rule_target users groups d e) (tbl_path (st_mounts s)))
      (st_world s) (st_world t) \<and> st_perms t = st_perms s"
  have inv: "table_inv (st_perms s)" "table_inv (st_mounts s)"
    using assms(3) by (simp_all add: daemon_inv_def mounts_inv_table)
  obtain k where k: "smap_find_key (\<lambda>p. pe_device p = dto) (tbl_data (st_perms s)) = Some k"
    "map_of (tbl_data (st_perms s)) k = Some e"
    using first_rule_found [OF inv(1) assms(5)] by blast
  obtain u us g gs where l: "pe_users e = u # us" "pe_groups e = g # gs"
    using assms(6,7) by (meson neq_Nil_conv)
  note st = assms(8) [unfolded plugged_stick_def]
  have "runs (mount_for os lib (mount_of d e)) s (\<lambda>_ t.
      mounted_at (mount_of d e) (rule_target users groups d e) s t \<and> grown os ok dirs {ud_block_name d}
      (mount_reach (rule_folder users groups e) (rule_target users groups d e) (tbl_path (st_mounts s)))
      (st_world s) (st_world t))"
    unfolding rule_folder_def
    by (rule mount_for_runs [OF assms(1,2) inv(2) assms(4)])
      (use st assms(9) in \<open>auto simp: mount_of_def CustomMount_def rule_folder_def rule_target_def\<close>)
  then have m: "runs (mount_for os lib (mount_of d e)) s (\<lambda>_. ?Q)"
    by (rule runs_mono [OF runs_keeps [OF _ mount_for_rules [of "st_perms s"]]]) (simp_all add: perms_are_def)
  have row: "on_mounts (Mountpoints_Find_dev dev) s =
      (Ok (smap_find_key (\<lambda>e. me_dev_name e = dev) (tbl_data (st_mounts s))), s)" for dev
    by (rule on_mounts_pure) (simp add: Mountpoints_Find_dev_run [OF inv(2)])
  have "Mount os lib (CustomMount d) s = noexceptp (mount_for os lib (mount_of d e)) s"
    using st k l by (simp add: Mount_def noexceptp_def bindp_def Find_Read_run [OF inv(1)] CustomMount_def
        mount_of_def)
  with m have "runs (Mount os lib (CustomMount d)) s (\<lambda>_. ?Q)"
    by (simp only: runs_def runs_noexceptp [unfolded runs_def])
  then have "runs (MountDevice os lib d) s (\<lambda>_. ?Q)"
    using st by (simp add: MountDevice_def) (rule runs_tryp, simp)
  then show ?thesis
    using st k(1) by (simp add: ProcessDevice_def Let_def)
      (simp add: runs_def Find_Read_run [OF inv(1)] row)
qed

lemma ProcessDevice_runs:
  assumes "in_order os lib v users groups ok dirs" and "ok (st_world s)"
    and "daemon_inv s" and "no_top_key (tbl_data (st_mounts s))"
    and "first_rule (map_of (tbl_data (st_perms s))) dto e" and "pe_users e \<noteq> []" and "pe_groups e \<noteq> []"
    and "plugged_stick d dto" and "free_for dirs (rule_folder users groups e) (stick_name d) (st_world s)"
  shows "runs (ProcessDevice os lib (Some d)) s (\<lambda>_.
    mounted_at (mount_of d e) (rule_folder users groups e @ ''/'' @ SanitizeMount (stick_name d)) s)"
  by (rule runs_mono [OF ProcessDevice_grows [OF assms]]) (simp add: rule_target_def)

lemma ProcessEvent_run:
  assumes "fst (os_udev_receive os (st_world s)) = Some ud" and "UsbUdevDevice_of_udev ud = Ok d"
  shows "runs (ProcessEvent os lib) s Q \<longleftrightarrow>
    runs (ProcessDevice os lib (Some d)) (s\<lparr>st_world := snd (os_udev_receive os (st_world s))\<rparr>) Q"
  using assms by (simp add: ProcessEvent_def RecieveDevice_def)

lemma mounted_row:
  assumes "mounted_at (mount_of d e) target s0 s" and "table_inv (st_mounts s)"
  shows "\<exists>k. smap_find_key (\<lambda>e. me_dev_name e = ud_block_name d) (tbl_data (st_mounts s)) = Some k"
proof -
  obtain k where "map_of (tbl_data (st_mounts s)) =
      (map_of (tbl_data (st_mounts s0)))(k \<mapsto> mount_row (mount_of d e) target)"
    using assms(1) unfolding mounted_at_def remembered_def by blast
  then have "map_of (tbl_data (st_mounts s)) k = Some (mount_row (mount_of d e) target)" by simp
  moreover have "me_dev_name (mount_row (mount_of d e) target) = ud_block_name d"
    by (simp add: mount_row_def mount_of_def CustomMount_def)
  ultimately have "smap_find_key (\<lambda>e. me_dev_name e = ud_block_name d) (tbl_data (st_mounts s)) \<noteq> None"
    unfolding find_key_iff [OF assms(2)] by blast
  then show ?thesis by blast
qed

lemma mounted_answer:
  assumes "mounted_at (mount_of d e) target s0 s" and "table_inv (st_mounts s)"
  shows "CanAnotherUserUnmount (ud_block_name d) s = (Ok [''YES''], s)"
proof -
  have "on_mounts (Mountpoints_Find_dev (ud_block_name d)) s =
      (Ok (smap_find_key (\<lambda>e. me_dev_name e = ud_block_name d) (tbl_data (st_mounts s))), s)"
    by (rule on_mounts_pure) (simp add: Mountpoints_Find_dev_run [OF assms(2)])
  with mounted_row [OF assms] show ?thesis by (auto simp: CanAnotherUserUnmount_def tryp_def bindp_def)
qed

section \<open>Properties\<close>


text \<open>The sample system is always in order.\<close>

definition sample_paths :: "sample_world \<Rightarrow> string set" where
  "sample_paths w = {p. sw_files w p \<noteq> None \<or> p \<in> set (sw_dirs w)}"

definition sample_user :: "u32 \<Rightarrow> string option" where
  "sample_user u = (if u = 1000 then Some ''test'' else None)"

definition sample_group :: "u32 \<Rightarrow> string option" where
  "sample_group g = (if g = 1001 then Some ''usb'' else None)"

lemma list_libacl_memory: "acl_memory list_libacl fst"
  by (auto simp: acl_memory_def list_libacl_def Let_def split: prod.splits)

lemma event_os_in_order:
  "in_order event_os list_libacl fst sample_user sample_group (\<lambda>_. True) sample_paths"
  unfolding in_order_def
  by (intro conjI list_libacl_laws list_libacl_memory)
    (auto simp: steady_def event_os_def list_libacl_def sample_paths_def sample_user_def sample_group_def
      plain_list_def grown_def sights_def listed_def parents_self split: option.splits)


lemma mounts_are_SaveRules: "keeps (mounts_are t) (SaveRules os form)"
  unfolding SaveRules_def apply_form_def delete_rule_def UpdateRules_def update_rule_def CreateRules_def
    create_rule_def system_accounts_def by (intro keeps_rules)


text \<open>The sample stick with the identifiers of the rule that the sample form creates.\<close>

definition new_stick :: UsbUdevDevice where
  "new_stick = sample_usb\<lparr>ud_vid := ''1a2b'', ud_pid := ''0001'', ud_serial := ''77''\<rparr>"

definition form_paths :: "sample_world \<Rightarrow> string set" where
  "form_paths w = {p. account_files p \<noteq> None \<or> p \<in> set (sw_dirs w)}"

lemma form_os_in_order:
  "in_order (form_os f) list_libacl fst sample_user sample_group (\<lambda>_. True) form_paths"
  unfolding in_order_def
  by (intro conjI list_libacl_laws list_libacl_memory)
    (auto simp: steady_def form_os_def list_libacl_def form_paths_def sample_user_def sample_group_def
      plain_list_def grown_def sights_def listed_def parents_self split: option.splits)

lemma new_stick_plugged: "plugged_stick new_stick (pe_device new_rule)"
  by (simp add: plugged_stick_def new_stick_def sample_usb_def fs_is_unsupported_def new_rule_def
      Device_of_params_def stoi_def scan_int_def is_space_def skip_sign_def skip_0x_def is_digit_def
      digit_value_def digits_value_def)


section \<open>Plugged in and pulled out\<close>

lemma stored_type_mounted:
  assumes "ud_filesystem (cm_device cm) \<noteq> []" and "ud_filesystem (cm_device cm) \<noteq> ''ntfs3''"
  shows "stored_type (mo_fs (mount_options cm)) = ud_filesystem (cm_device cm)"
  using assms by (simp add: mount_options_def SetMountOptions_def stored_type_def Let_def)

lemma rows_removed:
  assumes "remembered e t t'" and "\<And>k. map_of (tbl_data t) k \<noteq> Some e"
    and "\<forall>k x. map_of (tbl_data t'') k = Some x \<longleftrightarrow> map_of (tbl_data t') k = Some x \<and> x \<noteq> e"
  shows "map_of (tbl_data t'') = map_of (tbl_data t)"
proof
  fix j
  obtain k where k: "map_of (tbl_data t) k = None" "map_of (tbl_data t') = (map_of (tbl_data t))(k \<mapsto> e)"
    using assms(1,2) by (auto simp: remembered_def)
  have "map_of (tbl_data t'') j = Some x \<longleftrightarrow> map_of (tbl_data t) j = Some x" for x
    using assms(3) k assms(2) [of j] by auto
  then show "map_of (tbl_data t'') j = map_of (tbl_data t) j" by (metis not_Some_eq)
qed

lemma ProcessDevice_removes:
  assumes "daemon_inv s" and "fs_returns os" and "plugged_stick d dto" and "ud_filesystem d \<noteq> ''ntfs3''"
    and "mounted_at (mount_of d e) target s0 s" and "target \<noteq> []"
    and "\<And>k. map_of (tbl_data (st_mounts s0)) k \<noteq> Some (mount_row (mount_of d e) target)"
    and "os_mtab os (st_world s) = (Some es, w1)"
    and "find (\<lambda>m. mnt_fsname m = ud_block_name d) es = Some \<lparr>mnt_fsname = ud_block_name d, mnt_dir = target,
      mnt_type = mo_fs (mount_options (mount_of d e))\<rparr>"
    and "os_umount2 os target w1 = (0, w2)"
  shows "\<exists>s'. ProcessDevice os lib (Some (d\<lparr>ud_action := KRemove\<rparr>)) s = (Ok (), s') \<and>
    map_of (tbl_data (st_mounts s')) = map_of (tbl_data (st_mounts s0))"
proof -
  let ?d = "d\<lparr>ud_action := KRemove\<rparr>"
  have inv: "table_inv (st_perms s)" "mounts_inv (st_mounts s)" "table_inv (st_mounts s)"
    using assms(1) by (simp_all add: daemon_inv_def mounts_inv_table)
  note st = assms(3) [unfolded plugged_stick_def]
  have fs: "stored_type (mo_fs (mount_options (mount_of d e))) = ud_filesystem d"
    using stored_type_mounted [of "mount_of d e"] assms(4) st
    by (simp add: mount_of_def CustomMount_def fs_is_unsupported_def)
  obtain s' where u: "UnMount os ?d s = (Ok True, s')"
    "\<forall>k x. map_of (tbl_data (st_mounts s')) k = Some x \<longleftrightarrow> map_of (tbl_data (st_mounts s)) k = Some x \<and>
      x \<noteq> mount_row (mount_of d e) target"
    using unmount_forgets_row [OF inv(2) assms(2), of ?d es w1 _ 0 w2] st assms(6,8-10) fs
    by (auto simp: mount_row_def mount_of_def CustomMount_def)
  have "remembered (mount_row (mount_of d e) target) (st_mounts s0) (st_mounts s)"
    using assms(5) by (simp add: mounted_at_def)
  from rows_removed [OF this assms(7) u(2)]
  have rows: "map_of (tbl_data (st_mounts s')) = map_of (tbl_data (st_mounts s0))" .
  have md: "MountDevice os lib ?d s = (Ok (), s')"
    using st u(1) by (simp add: MountDevice_def noexceptp_def tryp_def bindp_def)
  obtain k where "smap_find_key (\<lambda>e. me_dev_name e = ud_block_name d) (tbl_data (st_mounts s)) = Some k"
    using mounted_row [OF assms(5) inv(3)] by blast
  then have row: "on_mounts (Mountpoints_Find_dev (ud_block_name d)) s = (Ok (Some k), s)"
    by (intro on_mounts_pure) (simp add: Mountpoints_Find_dev_run [OF inv(3)])
  have "ProcessDevice os lib (Some ?d) s = (Ok (), s')"
    using st md by (simp add: ProcessDevice_def noexceptp_def bindp_def Find_Read_run(1) [OF inv(1)] row
        fs_is_unsupported_def)
  with rows show ?thesis by blast
qed


text \<open>Later the list of the system has the mount.\<close>

definition stick_entry :: mntent where
  "stick_entry = \<lparr>mnt_fsname = ''/dev/sdb1'', mnt_dir = ''/media/alt-usb-mount/test_usb/STICK'', mnt_type = ''vfat''\<rparr>"

definition stick_world :: sample_world where
  "stick_world = empty_world\<lparr>sw_mtab := Some [stick_entry]\<rparr>"

lemma stick_mount_type: "mo_fs (mount_options (mount_of sample_usb sample_permission)) = ''vfat''"
  by (simp add: mount_of_def CustomMount_def mount_options_def SetMountOptions_def sample_usb_def Let_def)


end
