(* ===== verification/Start_Up.thy ===== *)
theory Start_Up
  imports Plug_In
begin

text \<open>
  The start of the monitor: \<^verbatim>\<open>ApplyMountRulesIfNotMounted\<close> of \<^verbatim>\<open>udev_monitor.cpp\<close>
  mounts the sticks that were connected before the daemon ran.
\<close>

section \<open>What the start has to mount\<close>

text \<open>A connected device that can be mounted, and the first rule for it, when it has users and groups.\<close>

definition mountable :: "UsbUdevDevice \<Rightarrow> bool" where
  "mountable d \<longleftrightarrow> ud_subsystem d = ''block'' \<and> \<not> fs_is_unsupported d \<and>
     (ud_dev_type d \<noteq> ''disk'' \<or> ud_filesystem d = ''ntfs'')"

definition start_rule :: "PermissionEntry list \<Rightarrow> UsbUdevDevice \<Rightarrow> PermissionEntry option" where
  "start_rule rules d =
     (case Device_of_params (ud_vid d) (ud_pid d) (ud_serial d) of
        Fail f \<Rightarrow> None
      | Ok dto \<Rightarrow> find (\<lambda>e. pe_device e = dto) rules)"

definition start_job :: "PermissionEntry list \<Rightarrow> UsbUdevDevice \<Rightarrow> (UsbUdevDevice \<times> PermissionEntry) option" where
  "start_job rules d =
     (case start_rule rules d of
        None \<Rightarrow> None
      | Some e \<Rightarrow>
          if mountable d \<and> pe_users e \<noteq> [] \<and> pe_groups e \<noteq> [] then Some (d\<lparr>ud_action := KAdd\<rparr>, e) else None)"

text \<open>The devices that the system does not list as mounted, in the order of the enumeration.\<close>

definition start_jobs ::
  "PermissionEntry list \<Rightarrow> string set \<Rightarrow> UsbUdevDevice list \<Rightarrow> (UsbUdevDevice \<times> PermissionEntry) list" where
  "start_jobs rules mounted devices =
     List.map_filter (start_job rules) (filter (\<lambda>d. ud_block_name d \<notin> mounted) devices)"

lemma find_first_rule:
  assumes "table_inv t" and "find (\<lambda>e. pe_device e = dto) (map snd (tbl_data t)) = Some e"
  shows "first_rule (map_of (tbl_data t)) dto e"
proof -
  obtain i where i: "i < length (tbl_data t)" "pe_device e = dto" "snd (tbl_data t ! i) = e"
    "\<forall>j<i. pe_device (snd (tbl_data t ! j)) \<noteq> dto"
    using assms(2) by (auto simp: find_Some_iff)
  note inv = table_invD(1) [OF assms(1)]
  have sorted: "sorted_wrt (<) (map fst (tbl_data t))" using inv by (simp add: smap_inv_def)
  have "map_of (tbl_data t) (fst (tbl_data t ! i)) = Some e"
    using std_map.lookup_iff [OF inv] i(1,3) by (metis nth_mem prod.collapse)
  moreover have "pe_device e' \<noteq> dto" if less: "k' < fst (tbl_data t ! i)" and row: "map_of (tbl_data t) k' = Some e'" for k' e'
  proof -
    obtain j where j: "j < length (tbl_data t)" "tbl_data t ! j = (k', e')"
      using row by (metis in_set_conv_nth map_of_SomeD)
    have "\<not> i < j"
      using sorted_wrt_nth_less [OF sorted, of i j] j less less_trans [of k' "fst (tbl_data t ! i)" k'] by auto
    moreover have "i \<noteq> j" using j(2) less by auto
    ultimately have "j < i" by linarith
    then show ?thesis using i(4) j(2) by fastforce
  qed
  ultimately show ?thesis using i(2) unfolding first_rule_def by blast
qed

lemma find_no_rule:
  "find (\<lambda>e. pe_device e = dto) (map snd m) = None \<Longrightarrow> smap_find_key (\<lambda>e. pe_device e = dto) m = None"
  by (auto simp: smap_find_key_def find_None_iff)

section \<open>One device\<close>

text \<open>There is room for \<open>n\<close> more rows.\<close>

definition room :: "nat \<Rightarrow> 'e table \<Rightarrow> bool" where
  "room n t \<longleftrightarrow> (\<forall>k \<in> dom (map_of (tbl_data t)). unat k + n < 2 ^ 64 - 1)"

lemma room_key: "room n t \<Longrightarrow> no_top_key (tbl_data t)"
proof -
  assume r: "room n t"
  have "unat (- 1 :: u64) = 2 ^ 64 - 1" by (simp add: unsigned_minus_1_eq_mask mask_eq_exp_minus_1)
  then have "- 1 \<notin> dom (map_of (tbl_data t))" using r unfolding room_def by (metis not_add_less1)
  then show ?thesis by (simp add: no_top_key_def dom_map_of_conv_image_fst)
qed

lemma room_less: "room (Suc n) t \<Longrightarrow> room n t"
  by (auto simp: room_def dest!: bspec)

lemma room_next:
  assumes "room (Suc n) t" and "Suc n < 2 ^ 64 - 1"
  shows "unat (next_index (tbl_data t)) + n < 2 ^ 64 - 1"
proof (cases "tbl_data t = []")
  case True
  then show ?thesis using assms(2) by (simp add: next_index_def)
next
  case False
  then have "fst (last (tbl_data t)) \<in> dom (map_of (tbl_data t))" by (simp add: dom_map_of_conv_image_fst)
  then have "unat (fst (last (tbl_data t))) + Suc n < 2 ^ 64 - 1" using assms(1) unfolding room_def by blast
  moreover have "unat (x + 1) \<le> unat x + 1" for x :: u64
    by (simp add: unat_word_ariths)
  then have "unat (next_index (tbl_data t)) \<le> unat (fst (last (tbl_data t))) + 1"
    using False by (simp add: next_index_def)
  ultimately show ?thesis by linarith
qed

lemma room_remembered:
  assumes "room (Suc n) t" and "Suc n < 2 ^ 64 - 1" and "remembered e t t'"
  shows "room n t'"
proof -
  obtain k where k: "map_of (tbl_data t) k = Some e \<or> k = next_index (tbl_data t)"
    "map_of (tbl_data t') = (map_of (tbl_data t))(k \<mapsto> e)"
    using assms(3) by (auto simp: remembered_def)
  have "unat k + n < 2 ^ 64 - 1"
    using k(1)
  proof
    assume "map_of (tbl_data t) k = Some e"
    then have "unat k + Suc n < 2 ^ 64 - 1" using assms(1) unfolding room_def by blast
    then show ?thesis by simp
  qed (use room_next [OF assms(1,2)] in simp)
  moreover have "unat j + n < 2 ^ 64 - 1" if "j \<in> dom (map_of (tbl_data t))" for j
  proof -
    have "unat j + Suc n < 2 ^ 64 - 1" using assms(1) that unfolding room_def by blast
    then show ?thesis by simp
  qed
  ultimately show ?thesis unfolding room_def k(2) by auto
qed

lemma skipped_device:
  assumes "daemon_inv s" and "start_job (map snd (tbl_data (st_perms s))) d = None"
    and "Device_of_params (ud_vid d) (ud_pid d) (ud_serial d) = Ok dto"
  shows "ProcessDevice os lib (Some (d\<lparr>ud_action := KAdd\<rparr>)) s = (Ok (), s)"
proof -
  let ?d = "d\<lparr>ud_action := KAdd\<rparr>"
  have inv: "table_inv (st_perms s)" "table_inv (st_mounts s)"
    using assms(1) by (simp_all add: daemon_inv_def mounts_inv_table)
  have row: "on_mounts (Mountpoints_Find_dev dev) s =
      (Ok (smap_find_key (\<lambda>e. me_dev_name e = dev) (tbl_data (st_mounts s))), s)" for dev
    by (rule on_mounts_pure) (simp add: Mountpoints_Find_dev_run [OF inv(2)])
  note run = ProcessDevice_def noexceptp_def bindp_def Find_Read_run [OF inv(1)] row assms(3)
  show ?thesis
  proof (cases "find (\<lambda>e. pe_device e = dto) (map snd (tbl_data (st_perms s)))")
    case None
    then show ?thesis using find_no_rule [OF None] by (simp add: run)
  next
    case (Some e)
    obtain k where k: "smap_find_key (\<lambda>p. pe_device p = dto) (tbl_data (st_perms s)) = Some k"
      "map_of (tbl_data (st_perms s)) k = Some e"
      using first_rule_found [OF inv(1) find_first_rule [OF inv(1) Some]] by blast
    have "\<not> (mountable d \<and> pe_users e \<noteq> [] \<and> pe_groups e \<noteq> [])"
      using assms(2,3) Some by (auto simp: start_job_def start_rule_def split: if_splits)
    then have "MountDevice os lib ?d s = (Ok (), s)" if "\<not> fs_is_unsupported d"
      using that k by (auto simp: MountDevice_def Mount_def run mountable_def CustomMount_def mount_for_def
          tryp_def split: list.splits)
    then show ?thesis using k(1) by (simp add: run fs_is_unsupported_def)
  qed
qed

section \<open>All devices\<close>

text \<open>The names that a mount asks for, and a mount that does not bring about the names of a later one.\<close>

definition spots ::
  "(u32 \<Rightarrow> string option) \<Rightarrow> (u32 \<Rightarrow> string option) \<Rightarrow> UsbUdevDevice \<times> PermissionEntry \<Rightarrow> string set" where
  "spots users groups = (\<lambda>(d, e).
     {rule_folder users groups e @ ''/'' @ stick_name d, rule_target users groups d e})"

definition apart ::
  "(u32 \<Rightarrow> string option) \<Rightarrow> (u32 \<Rightarrow> string option) \<Rightarrow> string \<Rightarrow>
   UsbUdevDevice \<times> PermissionEntry \<Rightarrow> UsbUdevDevice \<times> PermissionEntry \<Rightarrow> bool" where
  "apart users groups path = (\<lambda>(d, e) later.
     mount_reach (rule_folder users groups e) (rule_target users groups d e) path \<inter>
     spots users groups later = {})"

text \<open>From \<open>s\<close> to \<open>t\<close> exactly the jobs were mounted, in their order, each has its row, and every row
  that was there still is.\<close>

definition all_mounted ::
  "(u32 \<Rightarrow> string option) \<Rightarrow> (u32 \<Rightarrow> string option) \<Rightarrow> (UsbUdevDevice \<times> PermissionEntry) list \<Rightarrow>
   'w daemon \<Rightarrow> 'w daemon \<Rightarrow> bool" where
  "all_mounted users groups jobs s t \<longleftrightarrow>
     filter is_mount (st_trace t) =
       rev (map (\<lambda>(d, e). mount_event (mount_of d e) (rule_target users groups d e)) jobs) @
       filter is_mount (st_trace s) \<and>
     (\<forall>(d, e) \<in> set jobs. mount_row (mount_of d e) (rule_target users groups d e) \<in>
       ran (map_of (tbl_data (st_mounts t)))) \<and>
     map_of (tbl_data (st_mounts s)) \<subseteq>\<^sub>m map_of (tbl_data (st_mounts t))"

lemma all_mounted_Nil:
  "st_trace t = st_trace s \<Longrightarrow> st_mounts t = st_mounts s \<Longrightarrow> all_mounted users groups [] s t"
  by (simp add: all_mounted_def)

lemma all_mounted_world [simp]:
  "all_mounted users groups jobs (s\<lparr>st_world := w\<rparr>) = all_mounted users groups jobs s"
  by (simp add: all_mounted_def fun_eq_iff)

lemma all_mounted_Cons:
  assumes "mounted_at (mount_of d e) (rule_target users groups d e) s s1"
    and "all_mounted users groups jobs s1 t"
  shows "all_mounted users groups ((d, e) # jobs) s t"
proof -
  let ?r = "mount_row (mount_of d e) (rule_target users groups d e)"
  obtain k where k: "map_of (tbl_data (st_mounts s)) k \<in> {None, Some ?r}"
    "map_of (tbl_data (st_mounts s1)) = (map_of (tbl_data (st_mounts s)))(k \<mapsto> ?r)"
    using assms(1) by (auto simp: mounted_at_def remembered_def)
  have le: "map_of (tbl_data (st_mounts s)) \<subseteq>\<^sub>m map_of (tbl_data (st_mounts s1))"
    using k by (auto simp: map_le_def)
  have le1: "map_of (tbl_data (st_mounts s1)) \<subseteq>\<^sub>m map_of (tbl_data (st_mounts t))"
    using assms(2) by (simp add: all_mounted_def)
  then have "map_of (tbl_data (st_mounts t)) k = Some ?r"
    using k(2) bspec [OF le1 [unfolded map_le_def], of k] by simp
  then have row: "?r \<in> ran (map_of (tbl_data (st_mounts t)))" by (rule ranI)
  obtain before where "filter is_mount before = []"
    "st_trace s1 = mount_event (mount_of d e) (rule_target users groups d e) # before @ st_trace s"
    using assms(1) by (auto simp: mounted_at_def)
  moreover have "is_mount (mount_event cm target)" for cm target by (simp add: mount_event_def)
  ultimately show ?thesis
    using assms(2) map_le_trans [OF le le1] row unfolding all_mounted_def by simp
qed

lemma free_for_spots: "free_for dirs (rule_folder users groups e) (stick_name d) w \<longleftrightarrow>
    spots users groups (d, e) \<inter> dirs w = {}"
  by (auto simp: free_for_def spots_def rule_target_def)

lemma start_jobs_Cons:
  "start_jobs rules L (d # ds) =
     (if ud_block_name d \<in> L then start_jobs rules L ds
      else case start_job rules d of None \<Rightarrow> start_jobs rules L ds | Some j \<Rightarrow> j # start_jobs rules L ds)"
  by (simp add: start_jobs_def List.map_filter_simps split: option.split)

lemma apply_rule_runs:
  "runs (apply_rule os lib d) s Q \<longleftrightarrow>
     (let s1 = s\<lparr>st_world := snd (os_mtab os (st_world s))\<rparr>
      in if ud_block_name d \<in> listed os (st_world s) then Q () s1
         else runs (ProcessDevice os lib (Some (d\<lparr>ud_action := KAdd\<rparr>))) s1 Q)"
  by (auto simp: apply_rule_def SetAction_def GetSystemMountedDevices_def listed_def Let_def split: option.splits)

text \<open>What has to hold for the devices that are still to come.\<close>

definition start_ready ::
  "'w os \<Rightarrow> (u32 \<Rightarrow> string option) \<Rightarrow> (u32 \<Rightarrow> string option) \<Rightarrow> ('w \<Rightarrow> bool) \<Rightarrow> ('w \<Rightarrow> string set) \<Rightarrow>
   string set \<Rightarrow> UsbUdevDevice list \<Rightarrow> 'w daemon \<Rightarrow> bool" where
  "start_ready os users groups ok dirs L ds s \<longleftrightarrow>
     ok (st_world s) \<and> daemon_inv s \<and> room (length ds) (st_mounts s) \<and> length ds < 2 ^ 64 - 1 \<and>
     (\<forall>d \<in> set ds. (\<exists>dto. Device_of_params (ud_vid d) (ud_pid d) (ud_serial d) = Ok dto) \<and>
        ud_block_name d \<noteq> [] \<and> (ud_block_name d \<in> listed os (st_world s) \<longleftrightarrow> ud_block_name d \<in> L)) \<and>
     distinct (map ud_block_name ds) \<and>
     (let jobs = start_jobs (map snd (tbl_data (st_perms s))) L ds
      in (\<forall>j \<in> set jobs. spots users groups j \<inter> dirs (st_world s) = {}) \<and>
         sorted_wrt (apart users groups (tbl_path (st_mounts s))) jobs)"

lemma start_job_plugged:
  assumes "table_inv t" and "start_job (map snd (tbl_data t)) d = Some j" and "ud_block_name d \<noteq> []"
  shows "\<exists>dto e. j = (d\<lparr>ud_action := KAdd\<rparr>, e) \<and> first_rule (map_of (tbl_data t)) dto e \<and>
    pe_users e \<noteq> [] \<and> pe_groups e \<noteq> [] \<and> plugged_stick (d\<lparr>ud_action := KAdd\<rparr>) dto"
  using assms(2,3) find_first_rule [OF assms(1)]
  by (auto simp: start_job_def start_rule_def plugged_stick_def mountable_def fs_is_unsupported_def
      split: outcome.splits option.splits if_splits)

lemma start_ready_world:
  assumes "start_ready os users groups ok dirs L ds s" and "ok w"
    and "sights os dirs w = sights os dirs (st_world s)"
  shows "start_ready os users groups ok dirs L ds (s\<lparr>st_world := w\<rparr>)"
  using assms by (simp add: start_ready_def sights_def daemon_inv_def)

lemma start_ready_skip:
  assumes "start_ready os users groups ok dirs L (d # ds) s"
    and "ud_block_name d \<in> L \<or> start_job (map snd (tbl_data (st_perms s))) d = None"
  shows "start_ready os users groups ok dirs L ds s"
proof -
  have "start_jobs (map snd (tbl_data (st_perms s))) L (d # ds) = start_jobs (map snd (tbl_data (st_perms s))) L ds"
    using assms(2) by (auto simp: start_jobs_Cons)
  moreover have "room (length ds) (st_mounts s)"
    using assms(1) by (simp add: start_ready_def room_less)
  ultimately show ?thesis using assms(1) unfolding start_ready_def by simp
qed

lemma start_ready_mounted:
  assumes "start_ready os users groups ok dirs L (d # ds) s" and "ud_block_name d \<notin> L"
    and "start_job (map snd (tbl_data (st_perms s))) d = Some (d', e)"
    and "mounted_at (mount_of d' e) target s s1" and "st_perms s1 = st_perms s" and "daemon_inv s1"
    and "grown os ok dirs {ud_block_name d}
      (mount_reach (rule_folder users groups e) (rule_target users groups d' e) (tbl_path (st_mounts s)))
      (st_world s) (st_world s1)"
  shows "start_ready os users groups ok dirs L ds s1"
proof -
  let ?jobs = "start_jobs (map snd (tbl_data (st_perms s))) L ds"
  note r = assms(1) [unfolded start_ready_def Let_def start_jobs_Cons, simplified]
  have mem: "remembered (mount_row (mount_of d' e) target) (st_mounts s) (st_mounts s1)"
    using assms(4) by (simp add: mounted_at_def)
  then have "tbl_path (st_mounts s1) = tbl_path (st_mounts s)" by (simp add: remembered_def)
  moreover have "room (length ds) (st_mounts s1)"
    using room_remembered [OF _ _ mem, of "length ds"] r by simp
  moreover have "spots users groups j \<inter> dirs (st_world s1) = {}" if "j \<in> set ?jobs" for j
  proof -
    have "apart users groups (tbl_path (st_mounts s)) (d', e) j" "spots users groups j \<inter> dirs (st_world s) = {}"
      using r that assms(2,3) by auto
    then show ?thesis using assms(7) unfolding apart_def grown_def by blast
  qed
  moreover have "ud_block_name x \<in> listed os (st_world s1) \<longleftrightarrow> ud_block_name x \<in> L" if "x \<in> set ds" for x
  proof -
    have "ud_block_name x \<noteq> ud_block_name d" using r that by (metis image_eqI)
    then show ?thesis using r that assms(7) unfolding grown_def by blast
  qed
  ultimately show ?thesis
    using r assms(2,3,5-7) by (auto simp: start_ready_def grown_def)
qed

lemma start_loop:
  assumes "in_order os lib v users groups ok dirs" and "start_ready os users groups ok dirs L ds s"
  shows "runs (foreach (apply_rule os lib) ds) s
    (\<lambda>_. all_mounted users groups (start_jobs (map snd (tbl_data (st_perms s))) L ds) s)"
  using assms(2)
proof (induction ds arbitrary: s)
  case Nil
  then show ?case by (simp add: runs_def all_mounted_Nil start_jobs_def List.map_filter_simps)
next
  case (Cons d ds)
  let ?rules = "map snd (tbl_data (st_perms s))" and ?d = "d\<lparr>ud_action := KAdd\<rparr>"
  define s1 where s1: "s1 = s\<lparr>st_world := snd (os_mtab os (st_world s))\<rparr>"
  have "ok (st_world s)" using Cons.prems by (simp add: start_ready_def)
  then have ready: "start_ready os users groups ok dirs L (d # ds) s1"
    unfolding s1 by (intro start_ready_world [OF Cons.prems]) (simp_all add: in_order_calls [OF assms(1)])
  have perms: "st_perms s1 = st_perms s" and inv: "daemon_inv s1"
    using ready by (simp_all add: s1 start_ready_def)
  have listed: "ud_block_name d \<in> listed os (st_world s) \<longleftrightarrow> ud_block_name d \<in> L"
    using Cons.prems by (simp add: start_ready_def)
  have step: "runs (foreach (apply_rule os lib) (d # ds)) s Q \<longleftrightarrow>
      (if ud_block_name d \<in> L then runs (foreach (apply_rule os lib) ds) s1 Q
       else runs (ProcessDevice os lib (Some ?d)) s1 (\<lambda>_ t. runs (foreach (apply_rule os lib) ds) t Q))" for Q
    by (simp add: apply_rule_runs Let_def s1 listed)
  consider (skip) "ud_block_name d \<in> L \<or> start_job ?rules d = None"
    | (mount) d' e where "ud_block_name d \<notin> L" "start_job ?rules d = Some (d', e)"
    by fastforce
  then show ?case
  proof cases
    case skip
    obtain dto where "Device_of_params (ud_vid d) (ud_pid d) (ud_serial d) = Ok dto"
      using Cons.prems by (auto simp: start_ready_def)
    then have "ud_block_name d \<in> L \<or> ProcessDevice os lib (Some ?d) s1 = (Ok (), s1)"
      using skip skipped_device [OF inv] by (auto simp: perms)
    moreover have "start_jobs ?rules L (d # ds) = start_jobs ?rules L ds" using skip by (auto simp: start_jobs_Cons)
    moreover have "runs (foreach (apply_rule os lib) ds) s1 (\<lambda>_. all_mounted users groups (start_jobs ?rules L ds) s)"
      using Cons.IH [OF start_ready_skip [OF ready]] skip perms by (simp add: s1)
    ultimately show ?thesis unfolding step by (auto simp: runs_def [of "ProcessDevice os lib (Some ?d)"])
  next
    case mount
    have "ud_block_name d \<noteq> []" using Cons.prems by (simp add: start_ready_def)
    then obtain dto where j: "d' = ?d" "first_rule (map_of (tbl_data (st_perms s1))) dto e" "pe_users e \<noteq> []"
      "pe_groups e \<noteq> []" "plugged_stick ?d dto"
      using start_job_plugged [of "st_perms s1" d "(d', e)"] mount inv perms by (auto simp: daemon_inv_def)
    have "spots users groups (?d, e) \<inter> dirs (st_world s1) = {}" and "room (Suc (length ds)) (st_mounts s1)"
      and "ok (st_world s1)"
      using ready mount j(1) perms by (auto simp: start_ready_def start_jobs_Cons)
    then have "runs (ProcessDevice os lib (Some ?d)) s1 (\<lambda>_ t.
        mounted_at (mount_of ?d e) (rule_target users groups ?d e) s1 t \<and> grown os ok dirs {ud_block_name d}
          (mount_reach (rule_folder users groups e) (rule_target users groups ?d e) (tbl_path (st_mounts s1)))
          (st_world s1) (st_world t) \<and> st_perms t = st_perms s1)"
      using ProcessDevice_grows [OF assms(1) _ inv room_key j(2-5)] by (simp add: free_for_spots)
    from runs_keeps [OF this daemon_inv_ProcessDevice inv]
    have "runs (ProcessDevice os lib (Some ?d)) s1 (\<lambda>_ t. runs (foreach (apply_rule os lib) ds) t (\<lambda>_.
        all_mounted users groups ((?d, e) # start_jobs ?rules L ds) s1))"
    proof (rule runs_mono, elim conjE)
      fix t :: "'a daemon"
      assume t: "mounted_at (mount_of ?d e) (rule_target users groups ?d e) s1 t" "st_perms t = st_perms s1"
        "daemon_inv t" "grown os ok dirs {ud_block_name d}
          (mount_reach (rule_folder users groups e) (rule_target users groups ?d e) (tbl_path (st_mounts s1)))
          (st_world s1) (st_world t)"
      have "start_ready os users groups ok dirs L ds t"
        using start_ready_mounted [OF ready mount(1) _ t(1-3)] mount(2) j(1) perms t(4) by simp
      from Cons.IH [OF this]
      show "runs (foreach (apply_rule os lib) ds) t (\<lambda>_. all_mounted users groups ((?d, e) # start_jobs ?rules L ds) s1)"
        using t(2) perms by (auto elim!: runs_mono intro: all_mounted_Cons [OF t(1)])
    qed
    moreover have "start_jobs ?rules L (d # ds) = (?d, e) # start_jobs ?rules L ds"
      using mount j(1) by (simp add: start_jobs_Cons)
    moreover have "all_mounted users groups jobs s1 = all_mounted users groups jobs s" for jobs by (simp add: s1)
    ultimately show ?thesis unfolding step using mount(1) by simp
  qed
qed

section \<open>Properties\<close>


text \<open>A stick with two partitions, of which the rule says the same.\<close>

definition second_udev :: udev_device where
  "second_udev = UdevDevice
     [(''SUBSYSTEM'', ''block''), (''ID_BUS'', ''usb''), (''DEVNAME'', ''/dev/sdb2''),
      (''ID_FS_LABEL'', ''DATA''), (''ID_FS_TYPE'', ''vfat''), (''DEVTYPE'', ''partition''),
      (''ID_VENDOR_ID'', ''346d''), (''ID_MODEL_ID'', ''5678''),
      (''ID_SERIAL_SHORT'', ''4102101253919586827'')]
     [] (Some ''/dev/sdb2'') None"

definition second_usb :: UsbUdevDevice where
  "second_usb = sample_usb\<lparr>ud_action := KUndefined, ud_block_name := ''/dev/sdb2'', ud_fs_label := ''DATA''\<rparr>"

lemma second_usb_made: "UsbUdevDevice_of_udev second_udev = Ok second_usb"
  by (simp add: UsbUdevDevice_of_udev_def getUdevDeviceInfo_def read_details_def from_property_def udev_property_def
      second_udev_def second_usb_def sample_usb_def SetAction_def blank_device_def FindSerial_def)

definition start_world :: sample_world where
  "start_world = empty_world\<lparr>sw_mtab := Some [],
     sw_devs := [(''/sys/sdb1'', sample_udev), (''/sys/sdb2'', second_udev)]\<rparr>"

lemma start_world_devices: "GetConnectedDevices event_os start_world = (Ok [sample_usb, second_usb], start_world)"
  by (simp add: GetConnectedDevices_def event_os_def start_world_def hangp_def connected_loop.simps sample_usb_made
      second_usb_made)

lemma sample_start_rules:
  "start_rule [sample_permission] sample_usb = Some sample_permission"
  "start_rule [sample_permission] second_usb = Some sample_permission"
  by (simp_all add: start_rule_def sample_usb_device second_usb_def)

lemma sample_mountable: "mountable sample_usb" "mountable second_usb"
  by (simp_all add: mountable_def sample_usb_def second_usb_def fs_is_unsupported_def)

lemma sample_start_jobs:
  "start_jobs (map snd (tbl_data sample_permissions)) {} [sample_usb, second_usb] =
     [(sample_usb, sample_permission), (second_usb\<lparr>ud_action := KAdd\<rparr>, sample_permission)]"
proof -
  have "pe_users sample_permission \<noteq> []" "pe_groups sample_permission \<noteq> []" "sample_usb\<lparr>ud_action := KAdd\<rparr> = sample_usb"
    by (simp_all add: sample_permission_def sample_usb_def)
  then show ?thesis
    by (simp add: start_jobs_def List.map_filter_simps start_job_def sample_permissions_def sample_start_rules
        sample_mountable)
qed

lemma sample_folder: "rule_folder sample_user sample_group sample_permission = ''/media/alt-usb-mount/test_usb''"
  by (simp add: rule_folder_def user_folder_def sample_permission_def sample_user_def sample_group_def
      value_or_def mount_root_def)

lemma sample_names:
  "stick_name sample_usb = ''STICK''" "SanitizeMount ''STICK'' = ''STICK''"
  "stick_name (second_usb\<lparr>ud_action := KAdd\<rparr>) = ''DATA''" "SanitizeMount ''DATA'' = ''DATA''"
  by (simp_all add: sample_usb_def second_usb_def stick_name_def SanitizeMount.simps)

lemma sample_start_ready:
  "start_ready event_os sample_user sample_group (\<lambda>_. True) sample_paths {} [sample_usb, second_usb]
     (sample_daemon start_world)"
proof -
  have listed: "listed event_os start_world = {}" by (simp add: listed_def event_os_def start_world_def)
  have free: "sample_paths start_world = {}" by (simp add: sample_paths_def start_world_def empty_world_def)
  have "room (Suc (Suc 0)) sample_mounts" by (simp add: room_def sample_mounts_def)
  moreover have "apart sample_user sample_group (tbl_path sample_mounts) (sample_usb, sample_permission)
      (second_usb\<lparr>ud_action := KAdd\<rparr>, sample_permission)"
    by (auto simp: apart_def spots_def rule_target_def sample_folder sample_names mount_reach_def below_def
        sample_mounts_def new_table_def dest!: parents_short)
  moreover have "ud_block_name sample_usb = ''/dev/sdb1''" "ud_block_name second_usb = ''/dev/sdb2''"
    "\<exists>dto. Device_of_params (ud_vid second_usb) (ud_pid second_usb) (ud_serial second_usb) = Ok dto"
    using sample_usb_device by (simp_all add: sample_usb_def second_usb_def)
  ultimately show ?thesis
    using sample_usb_device by (simp add: start_ready_def sample_start_jobs Let_def listed free)
qed


end
