(* ===== verification/Review_Tables.thy ===== *)
theory Review_Tables
  imports Start_Up
begin

text \<open>
  The review of the monitor, \<^verbatim>\<open>ReviewConnectedDevices\<close> of \<^verbatim>\<open>udev_monitor.cpp\<close> with
  \<^verbatim>\<open>ReviewMountPoints\<close> of \<^verbatim>\<open>utils.cpp\<close>, as one change of the table, on a system
  that lets go what is unmounted.
\<close>

section \<open>Calls that return\<close>

lemma returns_ret: "returns (ret a)"
  and returns_emit: "returns (emit ev)"
  and returns_if: "(b \<Longrightarrow> returns m1) \<Longrightarrow> (\<not> b \<Longrightarrow> returns m2) \<Longrightarrow> returns (if b then m1 else m2)"
  by (simp_all add: returns_def emit_def)

lemma returns_bindp:
  assumes "returns m" and "\<And>a. returns (k a)"
  shows "returns (bindp m k)"
  unfolding returns_def
proof
  fix s
  obtain r t where m: "m s = (r, t)" by fastforce
  have "case r of Ok _ \<Rightarrow> True | Fail (Exc _) \<Rightarrow> True | Fail _ \<Rightarrow> False"
    using assms(1) m unfolding returns_def by (metis fst_conv)
  moreover have "case fst (k a t) of Ok _ \<Rightarrow> True | Fail (Exc _) \<Rightarrow> True | Fail _ \<Rightarrow> False" for a
    using assms(2) unfolding returns_def by blast
  ultimately show "case fst (bindp m k s) of Ok _ \<Rightarrow> True | Fail (Exc _) \<Rightarrow> True | Fail _ \<Rightarrow> False"
    by (cases r) (simp_all add: bindp_def m)
qed

lemma returns_foreach: "(\<And>x. returns (f x)) \<Longrightarrow> returns (foreach f xs)"
  by (induction xs) (simp_all add: returns_ret returns_bindp)

lemmas returns_rules = returns_ret returns_emit returns_if returns_bindp returns_foreach returns_on_world

lemma returns_caught: "returns m \<Longrightarrow> runs (tryp m (ret a)) s (\<lambda>_ _. True)"
  by (rule returnsE [of m s]) (auto simp: runs_def tryp_def)

section \<open>The list of mounts\<close>

definition lists :: "'w os \<Rightarrow> mntent list \<Rightarrow> 'w \<Rightarrow> bool" where
  "lists os es w \<longleftrightarrow> fst (os_mtab os w) = Some es"

definition calm :: "'w os \<Rightarrow> ('w \<Rightarrow> 'a \<times> 'w) \<Rightarrow> bool" where
  "calm os f \<longleftrightarrow> (\<forall>w. fst (os_mtab os (snd (f w))) = fst (os_mtab os w))"

text \<open>
  The calls of a review return, perhaps with an exception, the files are written, the enumeration
  gives the devices \<open>ds\<close>, and only unmounting, which succeeds, changes the list: all mounts at
  the directory go.
\<close>

definition in_review :: "'w os \<Rightarrow> UsbUdevDevice list \<Rightarrow> bool" where
  "in_review os ds \<longleftrightarrow>
     (\<forall>p. returns (fio_exists os p) \<and> calm os (fio_exists os p)) \<and>
     (\<forall>p. returns (fio_create_directories os p) \<and> calm os (fio_create_directories os p)) \<and>
     (\<forall>p. returns (os_list_dir os p) \<and> calm os (os_list_dir os p)) \<and>
     (\<forall>p. returns (os_is_directory os p) \<and> calm os (os_is_directory os p)) \<and>
     (\<forall>p. returns (os_is_empty os p) \<and> calm os (os_is_empty os p)) \<and>
     (\<forall>p. returns (os_remove os p) \<and> calm os (os_remove os p)) \<and>
     (\<forall>p str. calm os (fio_write os p str) \<and> (\<forall>w. fst (fio_write os p str w))) \<and>
     calm os (os_mtab os) \<and> calm os (GetConnectedDevices os) \<and>
     (\<forall>w. fst (GetConnectedDevices os w) = Ok ds) \<and>
     (\<forall>t es w. lists os es w \<longrightarrow> fst (os_umount2 os t w) = 0 \<and>
        lists os (filter (\<lambda>m. mnt_dir m \<noteq> t) es) (snd (os_umount2 os t w)))"

lemma in_review_calls:
  assumes "in_review os ds"
  shows "returns (fio_exists os p)" "returns (fio_create_directories os p)" "returns (os_list_dir os p)"
    "returns (os_is_directory os p)" "returns (os_is_empty os p)" "returns (os_remove os p)"
    and "calm os (fio_exists os p)" "calm os (fio_create_directories os p)" "calm os (os_list_dir os p)"
    "calm os (os_is_directory os p)" "calm os (os_is_empty os p)" "calm os (os_remove os p)"
    "calm os (fio_write os p str)" "calm os (os_mtab os)" "calm os (GetConnectedDevices os)"
    and "fst (fio_write os p str w)" "fst (GetConnectedDevices os w) = Ok ds" "fs_returns os"
    and "lists os es w \<Longrightarrow> fst (os_umount2 os t w) = 0"
      "lists os es w \<Longrightarrow> lists os (filter (\<lambda>m. mnt_dir m \<noteq> t) es) (snd (os_umount2 os t w))"
  using assms by (simp_all add: in_review_def fs_returns_def)

fun is_umount :: "sysevent \<Rightarrow> bool" where
  "is_umount (EvUmount t r) \<longleftrightarrow> True"
| "is_umount _ \<longleftrightarrow> False"

text \<open>The list of mounts is \<open>es\<close> and the calls of \<^verbatim>\<open>umount2\<close> so far are \<open>U\<close>.\<close>

definition at_rest :: "'w os \<Rightarrow> mntent list \<Rightarrow> sysevent list \<Rightarrow> 'w daemon \<Rightarrow> bool" where
  "at_rest os es U s \<longleftrightarrow> lists os es (st_world s) \<and> filter is_umount (st_trace s) = U"

lemma at_rest_on_world: "calm os m \<Longrightarrow> keeps (at_rest os es U) (on_world m)"
  and at_rest_os_call: "calm os f \<Longrightarrow> keeps (at_rest os es U) (os_call f)"
  and at_rest_emit: "\<not> is_umount ev \<Longrightarrow> keeps (at_rest os es U) (emit ev)"
  by (simp_all add: keeps_def at_rest_def lists_def calm_def on_world_run os_call_run)

lemma at_rest_on_mounts:
  assumes "keeps (\<lambda>(t, w). lists os es w) m"
  shows "keeps (at_rest os es U) (on_mounts m)"
  unfolding keeps_def
proof (intro allI impI)
  fix s :: "'a daemon"
  assume "at_rest os es U s"
  then show "at_rest os es U (snd (on_mounts m s))"
    using keepsD [OF assms, of "(st_mounts s, st_world s)"] by (auto simp: at_rest_def on_mounts_def split: prod.splits)
qed

lemma lists_commit:
  assumes "in_review os ds"
  shows "keeps (\<lambda>(t, w). lists os es w) (commit os MountEntry_to_json)"
  using in_review_calls(13) [OF assms]
  by (auto simp: keeps_def commit_def WriteRaw_def lists_def calm_def split: prod.splits bool.splits) (metis snd_conv)+

lemma lists_guard: "keeps (\<lambda>(t, w). lists os es w) m \<Longrightarrow> keeps (\<lambda>(t, w). lists os es w) (data_guard m)"
  by (auto simp: keeps_def data_guard_def)

lemma lists_upd: "keeps (\<lambda>(t, w). lists os es w) (upd_data f)"
  by (auto simp: keeps_def upd_data_def modp_def)

section \<open>The directories\<close>

lemma review_rest_at_rest:
  assumes "in_review os ds"
  shows "keeps (at_rest os es U) (review_rest os mtab)"
  unfolding review_rest_def review_folder_def review_sub_def
  by (intro keeps_rules at_rest_on_world at_rest_emit in_review_calls(7-12) [OF assms]) simp

lemma review_rest_returns:
  assumes "in_review os ds"
  shows "runs (review_rest os mtab) s (\<lambda>_ _. True)"
  unfolding review_rest_def review_folder_def review_sub_def runs_bindp
  by (rule runs_mono [OF returns_caught], intro returns_rules in_review_calls(1-6) [OF assms]) simp

text \<open>The rows that the system lists.\<close>

definition listed_row :: "mntent list \<Rightarrow> MountEntry \<Rightarrow> bool" where
  "listed_row es e \<longleftrightarrow> me_mount_point e \<in> set (listed_dirs (Some es))"

lemma ReviewMountPoints_rests:
  assumes "in_review os ds" and "daemon_inv s" and "at_rest os es U s"
  shows "runs (ReviewMountPoints os) s (\<lambda>_ t. daemon_inv t \<and> at_rest os es U t \<and>
    map snd (tbl_data (st_mounts t)) = filter (listed_row es) (map snd (tbl_data (st_mounts s))) \<and>
    (\<forall>k e. map_of (tbl_data (st_mounts t)) k = Some e \<longleftrightarrow>
       map_of (tbl_data (st_mounts s)) k = Some e \<and> listed_row es e))"
proof -
  let ?mtab = "listed_dirs (Some es)"
  let ?s1 = "s\<lparr>st_world := snd (os_mtab os (st_world s))\<rparr>"
  let ?t = "(st_mounts s)\<lparr>tbl_data := erase_expired ?mtab (tbl_data (st_mounts s))\<rparr>"
  have inv: "mounts_inv (st_mounts s)" "table_inv (st_mounts s)"
    using assms(2) by (simp_all add: daemon_inv_def mounts_inv_table)
  have es: "fst (os_mtab os (st_world s)) = Some es" using assms(3) by (simp add: at_rest_def lists_def)
  have vals: "map snd (tbl_data ?t) = filter (listed_row es) (map snd (tbl_data (st_mounts s)))"
    by (simp add: erase_expired_filter listed_row_def filter_map comp_def case_prod_unfold)
  have rows: "\<forall>k e. map_of (tbl_data ?t) k = Some e \<longleftrightarrow> map_of (tbl_data (st_mounts s)) k = Some e \<and> listed_row es e"
    using std_map.distinct_keys [OF table_invD(1) [OF inv(2)]]
    by (simp add: erase_expired_filter map_of_filter_snd listed_row_def)
  have "table_inv ?t"
    using inv(2) by (simp add: erase_expired_filter smap_inv_filter table_invD)
  then have "\<exists>w. commit os MountEntry_to_json (?t, w0) = (Ok (), (?t, w))" for w0
    using in_review_calls(16) [OF assms(1)] by (auto simp: commit_run split: prod.splits) (metis fst_conv)
  then obtain w where "commit os MountEntry_to_json (?t, snd (os_mtab os (st_world s))) = (Ok (), (?t, w))" by blast
  then have "runs (on_mounts (Mountpoints_RemoveExpired os ?mtab)) ?s1 (\<lambda>_ t. st_mounts t = ?t)"
    by (simp add: runs_def on_mounts_def Mountpoints_RemoveExpired_run [OF inv(2)] noexceptp_def)
  then have "runs (on_mounts (Mountpoints_RemoveExpired os ?mtab)) ?s1 (\<lambda>_ t. runs (review_rest os ?mtab) t
      (\<lambda>_ u. st_mounts u = ?t))"
    by (rule runs_mono) (rule runs_mono [OF runs_keeps [OF review_rest_returns [OF assms(1)] review_rest_keeps(2)]],
        auto simp: mounts_are_def)
  then have "runs (ReviewMountPoints os) s (\<lambda>_ t. st_mounts t = ?t)"
    by (simp add: ReviewMountPoints_split) (simp add: runs_def GetSystemMountPoints_run es)
  moreover have "keeps (at_rest os es U) (ReviewMountPoints os)"
    unfolding ReviewMountPoints_split GetSystemMountPoints_def Mountpoints_RemoveExpired_def
    by (intro keeps_rules at_rest_on_mounts at_rest_os_call lists_guard lists_upd lists_commit [OF assms(1)]
        in_review_calls(14) [OF assms(1)] review_rest_at_rest [OF assms(1)])
  ultimately have "runs (ReviewMountPoints os) s (\<lambda>_ t. (st_mounts t = ?t \<and> at_rest os es U t) \<and> daemon_inv t)"
    by (intro runs_keeps [OF runs_keeps] daemon_inv_ReviewMountPoints assms(2,3))
  then show ?thesis by (rule runs_mono) (use rows vals in simp)
qed

section \<open>The rows\<close>

text \<open>The first line of the list with the device of the row is its mount.\<close>

definition mounted_as :: "mntent list \<Rightarrow> MountEntry \<Rightarrow> bool" where
  "mounted_as es e \<longleftrightarrow> me_dev_name e \<noteq> [] \<and> me_mount_point e \<noteq> [] \<and>
     (case find (\<lambda>m. mnt_fsname m = me_dev_name e) es of
        None \<Rightarrow> False
      | Some m \<Rightarrow> mnt_dir m = me_mount_point e \<and> stored_type (mnt_type m) = me_fs_type e)"

lemma find_filter: "find P xs = Some y \<Longrightarrow> Q y \<Longrightarrow> find P (filter Q xs) = Some y"
  by (induction xs) (auto split: if_splits)

lemma mounted_as_filter:
  "mounted_as es e \<Longrightarrow> me_mount_point e \<noteq> t \<Longrightarrow> mounted_as (filter (\<lambda>m. mnt_dir m \<noteq> t) es) e"
  by (cases "find (\<lambda>m. mnt_fsname m = me_dev_name e) es") (simp_all add: mounted_as_def find_filter)

lemma forget_mount_rests:
  assumes "in_review os ds"
  shows "keeps (at_rest os es U) (forget_mount os dev mp fs)"
proof -
  have remove: "keeps (at_rest os es U) (RemoveMountPoint os mp)"
    unfolding RemoveMountPoint_def
    by (intro keeps_rules at_rest_on_world at_rest_emit in_review_calls(11,12) [OF assms]) simp
  have delete: "keeps (at_rest os es U) (on_mounts (Mountpoints_Delete os i))" for i
    unfolding Mountpoints_Delete_def Delete_def
    by (intro at_rest_on_mounts keeps_bindp lists_guard lists_upd lists_commit [OF assms])
  have find: "keeps (at_rest os es U) (on_mounts (Mountpoints_Find_entry x))"
    "keeps (at_rest os es U) (on_mounts (Mountpoints_Find_dev dev))" for x
    unfolding Mountpoints_Find_entry_def Mountpoints_Find_dev_def
    by (intro at_rest_on_mounts lists_guard keeps_getp)+
  show ?thesis
    unfolding forget_mount_def by (intro keeps_bindp keeps_if keeps_option keeps_liftO keeps_ret remove delete find)
qed

lemma absent_row_unmounted:
  assumes "in_review os ds" and "daemon_inv s" and "at_rest os es U s" and "mounted_as es e"
    and "me_dev_name e \<notin> set present"
  shows "runs (review_row os present e) s (\<lambda>_ t. daemon_inv t \<and>
    at_rest os (filter (\<lambda>m. mnt_dir m \<noteq> me_mount_point e) es) (EvUmount (me_mount_point e) 0 # U) t \<and>
    (\<forall>k x. map_of (tbl_data (st_mounts t)) k = Some x \<longleftrightarrow>
       map_of (tbl_data (st_mounts s)) k = Some x \<and> x \<noteq> e))"
proof -
  let ?d = "blank_device\<lparr>ud_block_name := me_dev_name e, ud_action := KRemove\<rparr>" and ?t = "me_mount_point e"
  have inv: "mounts_inv (st_mounts s)" using assms(2) by (simp add: daemon_inv_def)
  obtain m where m: "find (\<lambda>m. mnt_fsname m = me_dev_name e) es = Some m" "mnt_dir m = ?t"
    "stored_type (mnt_type m) = me_fs_type e" and nonempty: "me_dev_name e \<noteq> []" "?t \<noteq> []"
    using assms(4) by (auto simp: mounted_as_def split: option.splits)
  obtain w1 where w1: "os_mtab os (st_world s) = (Some es, w1)" "lists os es w1"
    using assms(3) in_review_calls(14) [OF assms(1)]
    by (cases "os_mtab os (st_world s)") (auto simp: at_rest_def lists_def calm_def dest: spec [of _ "st_world s"])
  obtain w2 where w2: "os_umount2 os ?t w1 = (0, w2)" "lists os (filter (\<lambda>m. mnt_dir m \<noteq> ?t) es) w2"
    using in_review_calls(19,20) [OF assms(1) w1(2), of ?t] by (cases "os_umount2 os ?t w1") auto
  have row: "\<lparr>me_dev_name = me_dev_name e, me_mount_point = ?t, me_fs_type = me_fs_type e\<rparr> = e" by simp
  obtain s' where u: "UnMount os ?d s = (Ok True, s')"
    "\<forall>k x. map_of (tbl_data (st_mounts s')) k = Some x \<longleftrightarrow> map_of (tbl_data (st_mounts s)) k = Some x \<and> x \<noteq> e"
    using unmount_forgets_row [OF inv in_review_calls(18) [OF assms(1)], of ?d es w1 m 0 w2] m nonempty w1(1) w2(1)
      row by (auto simp del: not_None_eq)
  let ?s2 = "s\<lparr>st_world := w2, st_trace := EvUmount ?t 0 # st_trace s\<rparr>"
  let ?rest = "noexceptp (bindp (tryp (forget_mount os (me_dev_name e) ?t (me_fs_type e)) (ret ())) (\<lambda>_. ret True))"
  have "?rest ?s2 = (Ok True, s')"
    using m nonempty u(1) by (simp add: UnMount_def noexceptp_def Let_def bindp_def os_call_run w1(1) w2(1))
  moreover have "keeps (at_rest os (filter (\<lambda>m. mnt_dir m \<noteq> ?t) es) (EvUmount ?t 0 # U)) ?rest"
    by (intro keeps_rules forget_mount_rests [OF assms(1)])
  moreover have "at_rest os (filter (\<lambda>m. mnt_dir m \<noteq> ?t) es) (EvUmount ?t 0 # U) ?s2"
    using assms(3) w2(2) by (simp add: at_rest_def)
  ultimately have "at_rest os (filter (\<lambda>m. mnt_dir m \<noteq> ?t) es) (EvUmount ?t 0 # U) s'"
    by (rule keepsE [rotated 2])
  moreover have "daemon_inv s'" using keepsE [OF daemon_inv_UnMount assms(2) u(1)] .
  moreover have "on_world (UsbUdevDevice_of_params os (me_dev_name e) ''remove'') s = (Ok ?d, s)"
    using nonempty by (simp add: on_world_def UsbUdevDevice_of_params_def)
  ultimately show ?thesis
    using assms(5) u by (auto simp: review_row_def runs_def tryp_def bindp_def)
qed

text \<open>The rows whose device is not connected.\<close>

abbreviation absent :: "string list \<Rightarrow> MountEntry list \<Rightarrow> MountEntry list" where
  "absent present \<equiv> filter (\<lambda>e. me_dev_name e \<notin> set present)"

lemma rows_reviewed:
  assumes "in_review os ds" and "daemon_inv s" and "at_rest os es U s"
    and "\<forall>e \<in> set (absent present rows). mounted_as es e" and "distinct (map me_mount_point (absent present rows))"
  shows "runs (foreach (review_row os present) rows) s (\<lambda>_ t. daemon_inv t \<and>
    filter is_umount (st_trace t) = rev (map (\<lambda>e. EvUmount (me_mount_point e) 0) (absent present rows)) @ U \<and>
    (\<forall>k x. map_of (tbl_data (st_mounts t)) k = Some x \<longleftrightarrow>
       map_of (tbl_data (st_mounts s)) k = Some x \<and> x \<notin> set (absent present rows)))"
  using assms(2-5)
proof (induction rows arbitrary: s es U)
  case Nil
  then show ?case by (simp add: runs_def at_rest_def)
next
  case (Cons e rows)
  show ?case
  proof (cases "me_dev_name e \<in> set present")
    case True
    then show ?thesis using Cons.IH [OF Cons.prems(1,2)] Cons.prems(3,4) by (simp add: review_row_def runs_def bindp_def)
  next
    case False
    let ?es = "filter (\<lambda>m. mnt_dir m \<noteq> me_mount_point e) es" and ?U = "EvUmount (me_mount_point e) 0 # U"
    have "\<forall>x \<in> set (absent present rows). me_mount_point x \<noteq> me_mount_point e"
      using Cons.prems(4) False by (simp add: image_iff) metis
    then have later: "\<forall>x \<in> set (absent present rows). mounted_as ?es x"
      "distinct (map me_mount_point (absent present rows))"
      using Cons.prems(3,4) False by (auto intro!: mounted_as_filter)
    have "mounted_as es e" using Cons.prems(3) False by simp
    from absent_row_unmounted [OF assms(1) Cons.prems(1,2) this False]
    have "runs (review_row os present e) s (\<lambda>_ t. runs (foreach (review_row os present) rows) t (\<lambda>_ u. daemon_inv u \<and>
      filter is_umount (st_trace u) = rev (map (\<lambda>e. EvUmount (me_mount_point e) 0) (absent present rows)) @ ?U \<and>
      (\<forall>k x. map_of (tbl_data (st_mounts u)) k = Some x \<longleftrightarrow>
         map_of (tbl_data (st_mounts s)) k = Some x \<and> x \<noteq> e \<and> x \<notin> set (absent present rows))))"
      by (rule runs_mono) (elim conjE, rule runs_mono [OF Cons.IH [OF _ _ later]], auto)
    then show ?thesis using False by (auto elim!: runs_mono)
  qed
qed

section \<open>Properties\<close>

text \<open>
  C36: A review makes the table true again. When the system unmounts what it is asked to, and lists
  the mount of a row as the first of its device, the rows that are left are exactly those that the
  system lists below the root of the daemon and whose device is connected; the daemon unmounts exactly the rows
  that are listed but whose device is gone, in the order of their keys.
\<close>

theorem review_makes_table_true:
  assumes "in_review os ds" and "daemon_inv s" and "lists os es (st_world s)"
    and "gone = absent (map ud_block_name ds) (filter (listed_row es) (map snd (tbl_data (st_mounts s))))"
    and "\<forall>e \<in> set gone. mounted_as es e" and "distinct (map me_mount_point gone)"
  shows "\<exists>s'. ReviewConnectedDevices os s = (Ok (), s') \<and>
    (\<forall>k e. map_of (tbl_data (st_mounts s')) k = Some e \<longleftrightarrow>
       map_of (tbl_data (st_mounts s)) k = Some e \<and> listed_row es e \<and> me_dev_name e \<in> ud_block_name ` set ds) \<and>
    filter is_umount (st_trace s') =
      rev (map (\<lambda>e. EvUmount (me_mount_point e) 0) gone) @ filter is_umount (st_trace s)"
proof -
  let ?present = "map ud_block_name ds" and ?U = "filter is_umount (st_trace s)"
  let ?Q = "\<lambda>s'. (\<forall>k e. map_of (tbl_data (st_mounts s')) k = Some e \<longleftrightarrow>
       map_of (tbl_data (st_mounts s)) k = Some e \<and> listed_row es e \<and> me_dev_name e \<in> ud_block_name ` set ds) \<and>
    filter is_umount (st_trace s') = rev (map (\<lambda>e. EvUmount (me_mount_point e) 0) gone) @ ?U"
  have rest: "runs (on_world (GetConnectedDevices os)) t (\<lambda>ds' u. runs (on_mounts Mountpoints_GetAll) u
      (\<lambda>rows v. runs (foreach (review_row os (map ud_block_name ds')) rows) v (\<lambda>_. ?Q)))"
    if t: "daemon_inv t" "at_rest os es ?U t"
      "map snd (tbl_data (st_mounts t)) = filter (listed_row es) (map snd (tbl_data (st_mounts s)))"
      "\<forall>k e. map_of (tbl_data (st_mounts t)) k = Some e \<longleftrightarrow>
         map_of (tbl_data (st_mounts s)) k = Some e \<and> listed_row es e" for t
  proof -
    let ?u = "t\<lparr>st_world := snd (GetConnectedDevices os (st_world t))\<rparr>"
    have u: "daemon_inv ?u" "at_rest os es ?U ?u" "table_inv (st_mounts t)"
      using t(1,2) in_review_calls(15) [OF assms(1)]
      by (simp_all add: daemon_inv_def at_rest_def lists_def calm_def mounts_inv_table)
    have all: "map_of (tbl_data (st_mounts t)) k = Some e \<Longrightarrow> e \<in> set (map snd (tbl_data (st_mounts t)))" for k e
      by (metis image_eqI map_of_SomeD list.set_map snd_conv)
    have "runs (foreach (review_row os ?present) (map snd (tbl_data (st_mounts t)))) ?u (\<lambda>_. ?Q)"
      using assms(4-6) t(3)
      by (intro runs_mono [OF rows_reviewed [OF assms(1) u(1,2)]]) (use all t(4) in auto)
    moreover have "on_mounts Mountpoints_GetAll ?u = (Ok (map snd (tbl_data (st_mounts t))), ?u)"
      by (rule on_mounts_pure) (simp add: Mountpoints_GetAll_run u(3))
    ultimately show ?thesis
      using in_review_calls(17) [OF assms(1), of "st_world t"]
      by (simp del: runs_on_world add: runs_def [of "on_world _"] runs_def [of "on_mounts _"] on_world_run)
  qed
  have "at_rest os es ?U s" using assms(3) by (simp add: at_rest_def)
  note first = ReviewMountPoints_rests [OF assms(1,2) this]
  have "runs (ReviewMountPoints os) s (\<lambda>_ t. runs (on_world (GetConnectedDevices os)) t (\<lambda>ds' u.
      runs (on_mounts Mountpoints_GetAll) u (\<lambda>rows v. runs (foreach (review_row os (map ud_block_name ds')) rows) v
        (\<lambda>_. ?Q))))"
    by (rule runs_mono [OF first]) (elim conjE, rule rest)
  then have "runs (ReviewConnectedDevices os) s (\<lambda>_. ?Q)"
    unfolding ReviewConnectedDevices_def by (simp only: runs_noexceptp runs_bindp)
  then show ?thesis by (auto simp: runs_def)
qed

text \<open>Three rows: a stick that is there, one that was pulled out, and one that the system does not list.\<close>

definition review_os :: "sample_world os" where
  "review_os = event_os\<lparr>os_udev_scan := \<lambda>w. (Some [Some ''/sys/sdb1''], w),
     os_udev_from_syspath := \<lambda>p w. (Some sample_udev, w)\<rparr>"

definition kept_row :: MountEntry where
  "kept_row = \<lparr>me_dev_name = ''/dev/sdb1'', me_mount_point = ''/media/alt-usb-mount/test_usb/STICK'',
     me_fs_type = ''vfat''\<rparr>"

definition gone_row :: MountEntry where
  "gone_row = \<lparr>me_dev_name = ''/dev/sdc1'', me_mount_point = ''/media/alt-usb-mount/test_usb/OLD'',
     me_fs_type = ''ntfs''\<rparr>"

definition lost_row :: MountEntry where
  "lost_row = \<lparr>me_dev_name = ''/dev/sdd1'', me_mount_point = ''/media/alt-usb-mount/test_usb/LOST'',
     me_fs_type = ''vfat''\<rparr>"

definition review_list :: "mntent list" where
  "review_list =
     [\<lparr>mnt_fsname = ''/dev/sda2'', mnt_dir = ''/'', mnt_type = ''ext4''\<rparr>,
      \<lparr>mnt_fsname = ''/dev/sdb1'', mnt_dir = ''/media/alt-usb-mount/test_usb/STICK'', mnt_type = ''vfat''\<rparr>,
      \<lparr>mnt_fsname = ''/dev/sdc1'', mnt_dir = ''/media/alt-usb-mount/test_usb/OLD'', mnt_type = ''ntfs3''\<rparr>]"

definition review_daemon :: "sample_world daemon" where
  "review_daemon = initial (empty_world\<lparr>sw_mtab := Some review_list\<rparr>) sample_permissions
     ((new_table mount_points_path)\<lparr>tbl_data := [(1, kept_row), (2, gone_row), (5, lost_row)]\<rparr>)"

lemma review_os_devices: "GetConnectedDevices review_os w = (Ok [sample_usb], w)"
  by (simp add: GetConnectedDevices_def review_os_def hangp_def connected_loop.simps sample_usb_made)

lemma review_os_in_review: "in_review review_os [sample_usb]"
  unfolding in_review_def review_os_devices
  by (auto simp: review_os_def event_os_def calm_def returns_def lists_def review_os_devices [unfolded review_os_def])

theorem review_makes_table_true_witness:
  "\<exists>s'. ReviewConnectedDevices review_os review_daemon = (Ok (), s') \<and>
    map_of (tbl_data (st_mounts s')) = [1 \<mapsto> kept_row] \<and>
    filter is_umount (st_trace s') = [EvUmount ''/media/alt-usb-mount/test_usb/OLD'' 0]"
proof -
  have rows: "map_of (tbl_data (st_mounts review_daemon)) k = Some e \<longleftrightarrow>
      k = 1 \<and> e = kept_row \<or> k = 2 \<and> e = gone_row \<or> k = 5 \<and> e = lost_row" for k e
    by (auto simp: review_daemon_def initial_def)
  have listed: "listed_row review_list kept_row" "listed_row review_list gone_row" "\<not> listed_row review_list lost_row"
    by (simp_all add: listed_row_def listed_dirs_def review_list_def kept_row_def gone_row_def lost_row_def starts_with_def
        mount_root_def)
  have here: "me_dev_name kept_row = ud_block_name sample_usb" "me_dev_name gone_row \<noteq> ud_block_name sample_usb"
    by (simp_all add: kept_row_def gone_row_def sample_usb_def)
  have gone: "absent (map ud_block_name [sample_usb]) (filter (listed_row review_list)
      (map snd (tbl_data (st_mounts review_daemon)))) = [gone_row]"
    using listed here by (simp add: review_daemon_def initial_def)
  have "daemon_inv review_daemon" "lists review_os review_list (st_world review_daemon)" "mounted_as review_list gone_row"
    by (simp_all add: review_daemon_def initial_def daemon_inv_def sample_permissions_inv [unfolded table_inv_def smap_inv_def] mounts_inv_def table_inv_def
        smap_inv_def new_table_def kept_row_def gone_row_def lost_row_def lists_def review_os_def event_os_def
        mounted_as_def review_list_def stored_type_def)
  then obtain s' where s': "ReviewConnectedDevices review_os review_daemon = (Ok (), s')"
    "\<forall>k e. map_of (tbl_data (st_mounts s')) k = Some e \<longleftrightarrow>
       map_of (tbl_data (st_mounts review_daemon)) k = Some e \<and> listed_row review_list e \<and>
       me_dev_name e \<in> ud_block_name ` set [sample_usb]"
    "filter is_umount (st_trace s') = [EvUmount (me_mount_point gone_row) 0] @ filter is_umount (st_trace review_daemon)"
    using review_makes_table_true [OF review_os_in_review, of review_daemon review_list, OF _ _ gone [symmetric]] by auto
  have "map_of (tbl_data (st_mounts s')) k = Some e \<longleftrightarrow> k = 1 \<and> e = kept_row" for k e
    using s'(2) rows listed here by auto
  then have "map_of (tbl_data (st_mounts s')) = [1 \<mapsto> kept_row]"
    by (intro ext) (metis fun_upd_apply not_Some_eq option.inject)
  with s'(1,3) show ?thesis by (auto simp: gone_row_def review_daemon_def initial_def)
qed

end
