(* ===== verification/Table_Threads.thy ===== *)
theory Table_Threads
  imports Usb_Prelude
begin

text \<open>
  The locking of \<^verbatim>\<open>daemon/dal/table.cpp\<close> with several threads. In the other theories a
  call on a table is one step; here it is the sequence of its accesses to the flag
  \<^verbatim>\<open>transaction_started_\<close>, to the three mutexes and to the rows, and the steps of the
  threads come in any order. What the rows hold is left out. A \<^verbatim>\<open>unique_lock\<close> or
  \<^verbatim>\<open>shared_lock\<close> of a call that has been taken is the argument \<open>True\<close> of a place of the
  program, an empty one is \<open>False\<close>.
\<close>

section \<open>State\<close>

record locks =
  started :: bool
  tx_mutex :: "nat option"
  data_writer :: "nat option"
  data_readers :: "nat list"
  file_writer :: "nat option"

datatype table_pc =
    Idle
  | Shared_flag | Shared_lock | Shared_read bool           \<comment> \<open>a call that reads the rows\<close>
  | Change_flag | Change_lock | Change_data bool | Change_end bool   \<comment> \<open>a call that changes them\<close>
  | Write_flag | Write_lock | Write_open bool               \<comment> \<open>\<^verbatim>\<open>WriteRaw\<close>\<close>
  | Json_flag bool | Json_lock bool | Json_read bool bool   \<comment> \<open>\<^verbatim>\<open>ToJson\<close> inside it\<close>
  | Write_end bool
  | Start_mutex | Start_flag | Start_data | Start_file      \<comment> \<open>\<^verbatim>\<open>StartTransaction\<close>\<close>
  | In_tx
  | End_file | End_data | End_flag | End_mutex              \<comment> \<open>\<^verbatim>\<open>ProcessTransaction\<close>, written\<close>
  | Fail_file | Fail_data | Fail_mutex | Fail_flag          \<comment> \<open>the same, after an exception\<close>
  | Thrown                                                  \<comment> \<open>an exception left the call\<close>

text \<open>A thread: its place, whether it has a transaction, and whether it is ending it.\<close>

record thread =
  pc :: table_pc
  th_tx :: bool
  th_ending :: bool

definition goto :: "table_pc \<Rightarrow> thread \<Rightarrow> thread" where
  "goto p t = t\<lparr>pc := p\<rparr>"

definition return_call :: "thread \<Rightarrow> thread" where
  "return_call t = goto (if th_ending t then End_file else if th_tx t then In_tx else Idle) t"

definition throw_call :: "thread \<Rightarrow> thread" where
  "throw_call t = goto (if th_ending t then Fail_file else Thrown) t"

definition release_data :: "bool \<Rightarrow> locks \<Rightarrow> locks" where
  "release_data g s = (if g then s\<lparr>data_writer := None\<rparr> else s)"

definition release_shared :: "bool \<Rightarrow> nat \<Rightarrow> locks \<Rightarrow> locks" where
  "release_shared g i s = (if g then s\<lparr>data_readers := removeAll i (data_readers s)\<rparr> else s)"

definition release_file :: "bool \<Rightarrow> locks \<Rightarrow> locks" where
  "release_file f s = (if f then s\<lparr>file_writer := None\<rparr> else s)"

definition lock_shared :: "nat \<Rightarrow> locks \<Rightarrow> locks option" where
  "lock_shared i s = (if data_writer s = None then Some (s\<lparr>data_readers := i # data_readers s\<rparr>) else None)"

definition lock_data :: "nat \<Rightarrow> locks \<Rightarrow> locks option" where
  "lock_data i s =
     (if data_writer s = None \<and> data_readers s = [] then Some (s\<lparr>data_writer := Some i\<rparr>) else None)"

definition lock_file :: "nat \<Rightarrow> locks \<Rightarrow> locks option" where
  "lock_file i s = (if file_writer s = None then Some (s\<lparr>file_writer := Some i\<rparr>) else None)"

definition lock_mutex :: "nat \<Rightarrow> locks \<Rightarrow> locks option" where
  "lock_mutex i s = (if tx_mutex s = None then Some (s\<lparr>tx_mutex := Some i\<rparr>) else None)"

section \<open>The steps of a call\<close>

text \<open>A step gives the thread and the locks after it; \<open>None\<close>: the thread waits.\<close>

fun shared_step :: "nat \<Rightarrow> table_pc \<Rightarrow> thread \<Rightarrow> locks \<Rightarrow> (thread \<times> locks) option" where
  "shared_step i Shared_flag t s = Some (goto (if started s then Shared_read False else Shared_lock) t, s)"
| "shared_step i Shared_lock t s = map_option (\<lambda>s'. (goto (Shared_read True) t, s')) (lock_shared i s)"
| "shared_step i (Shared_read g) t s = Some (return_call t, release_shared g i s)"
| "shared_step i _ t s = None"

text \<open>The second look at the flag decides whether the lock is released by hand, which throws when
  there is none, and whether the file is written.\<close>

fun change_step :: "nat \<Rightarrow> table_pc \<Rightarrow> thread \<Rightarrow> locks \<Rightarrow> (thread \<times> locks) option" where
  "change_step i Change_flag t s = Some (goto (if started s then Change_data False else Change_lock) t, s)"
| "change_step i Change_lock t s = map_option (\<lambda>s'. (goto (Change_data True) t, s')) (lock_data i s)"
| "change_step i (Change_data g) t s = Some (goto (Change_end g) t, s)"
| "change_step i (Change_end g) t s =
     (if started s then Some (return_call t, release_data g s)
      else if g then Some (goto Write_flag t, release_data True s)
      else Some (throw_call t, s))"
| "change_step i _ t s = None"

fun write_step :: "bool \<Rightarrow> nat \<Rightarrow> table_pc \<Rightarrow> thread \<Rightarrow> locks \<Rightarrow> (thread \<times> locks) option" where
  "write_step ok i Write_flag t s = Some (goto (if started s then Write_open False else Write_lock) t, s)"
| "write_step ok i Write_lock t s = map_option (\<lambda>s'. (goto (Write_open True) t, s')) (lock_file i s)"
| "write_step ok i (Write_open f) t s =
     (if ok then Some (goto (Json_flag f) t, s) else Some (throw_call t, release_file f s))"
| "write_step ok i (Json_flag f) t s = Some (goto (if started s then Json_read f False else Json_lock f) t, s)"
| "write_step ok i (Json_lock f) t s = map_option (\<lambda>s'. (goto (Json_read f True) t, s')) (lock_shared i s)"
| "write_step ok i (Json_read f g) t s = Some (goto (Write_end f) t, release_shared g i s)"
| "write_step ok i (Write_end f) t s =
     (if \<not> started s \<and> \<not> f then Some (throw_call t, s) else Some (return_call t, release_file f s))"
| "write_step ok i _ t s = None"

fun start_step :: "nat \<Rightarrow> table_pc \<Rightarrow> thread \<Rightarrow> locks \<Rightarrow> (thread \<times> locks) option" where
  "start_step i Start_mutex t s = map_option (\<lambda>s'. (goto Start_flag t, s')) (lock_mutex i s)"
| "start_step i Start_flag t s = Some (goto Start_data t, s\<lparr>started := True\<rparr>)"
| "start_step i Start_data t s = map_option (\<lambda>s'. (goto Start_file t, s')) (lock_data i s)"
| "start_step i Start_file t s = map_option (\<lambda>s'. (goto In_tx (t\<lparr>th_tx := True\<rparr>), s')) (lock_file i s)"
| "start_step i _ t s = None"

definition closed_tx :: "thread \<Rightarrow> thread" where
  "closed_tx t = \<lparr>pc = Idle, th_tx = False, th_ending = False\<rparr>"

text \<open>After an exception the mutex is released before the flag is reset.\<close>

fun process_step :: "nat \<Rightarrow> table_pc \<Rightarrow> thread \<Rightarrow> locks \<Rightarrow> (thread \<times> locks) option" where
  "process_step i End_file t s = Some (goto End_data t, release_file True s)"
| "process_step i End_data t s = Some (goto End_flag t, release_data True s)"
| "process_step i End_flag t s = Some (goto End_mutex t, s\<lparr>started := False\<rparr>)"
| "process_step i End_mutex t s = Some (closed_tx t, s\<lparr>tx_mutex := None\<rparr>)"
| "process_step i Fail_file t s = Some (goto Fail_data t, release_file True s)"
| "process_step i Fail_data t s = Some (goto Fail_mutex t, release_data True s)"
| "process_step i Fail_mutex t s = Some (goto Fail_flag t, s\<lparr>tx_mutex := None\<rparr>)"
| "process_step i Fail_flag t s = Some (closed_tx t, s\<lparr>started := False\<rparr>)"
| "process_step i _ t s = None"

definition orelse :: "'a option \<Rightarrow> 'a option \<Rightarrow> 'a option" where
  "orelse x y = (case x of None \<Rightarrow> y | Some a \<Rightarrow> Some a)"

text \<open>One step of thread \<open>i\<close>; \<open>ok\<close> says whether the file can be opened.\<close>

definition thread_step :: "bool \<Rightarrow> nat \<Rightarrow> thread \<Rightarrow> locks \<Rightarrow> (thread \<times> locks) option" where
  "thread_step ok i t s =
     orelse (shared_step i (pc t) t s) (orelse (change_step i (pc t) t s)
     (orelse (write_step ok i (pc t) t s) (orelse (start_step i (pc t) t s) (process_step i (pc t) t s))))"

section \<open>Threads\<close>

datatype table_call = Call_read | Call_change | Call_start | Call_process

fun begin_call :: "table_call \<Rightarrow> thread \<Rightarrow> thread option" where
  "begin_call Call_read t = (if pc t = Idle \<or> pc t = In_tx then Some (goto Shared_flag t) else None)"
| "begin_call Call_change t = (if pc t = Idle \<or> pc t = In_tx then Some (goto Change_flag t) else None)"
| "begin_call Call_start t = (if pc t = Idle then Some (goto Start_mutex t) else None)"
| "begin_call Call_process t =
     (if pc t = In_tx then Some (goto Write_flag (t\<lparr>th_ending := True\<rparr>)) else None)"

datatype choice = Begin nat table_call | Go nat bool

type_synonym config = "locks \<times> (nat \<Rightarrow> thread)"

definition free :: locks where
  "free = \<lparr>started = False, tx_mutex = None, data_writer = None, data_readers = [], file_writer = None\<rparr>"

definition all_idle :: config where
  "all_idle = (free, \<lambda>i. \<lparr>pc = Idle, th_tx = False, th_ending = False\<rparr>)"

text \<open>\<open>may i call\<close>: the calls that thread \<open>i\<close> makes.\<close>

fun take_step :: "(nat \<Rightarrow> table_call \<Rightarrow> bool) \<Rightarrow> choice \<Rightarrow> config \<Rightarrow> config option" where
  "take_step may (Begin i c) (s, T) =
     (if may i c then map_option (\<lambda>t. (s, T(i := t))) (begin_call c (T i)) else None)"
| "take_step may (Go i ok) (s, T) = map_option (\<lambda>(t, s'). (s', T(i := t))) (thread_step ok i (T i) s)"

inductive reached :: "(nat \<Rightarrow> table_call \<Rightarrow> bool) \<Rightarrow> config \<Rightarrow> bool" for may where
  idle: "reached may all_idle"
| step: "reached may c \<Longrightarrow> take_step may ch c = Some c' \<Longrightarrow> reached may c'"

fun take_steps :: "(nat \<Rightarrow> table_call \<Rightarrow> bool) \<Rightarrow> choice list \<Rightarrow> config \<Rightarrow> config option" where
  "take_steps may [] c = Some c"
| "take_steps may (ch # chs) c = (case take_step may ch c of None \<Rightarrow> None | Some c' \<Rightarrow> take_steps may chs c')"

lemma reached_steps: "reached may c \<Longrightarrow> take_steps may chs c = Some c' \<Longrightarrow> reached may c'"
  by (induction chs arbitrary: c) (auto split: option.splits intro: reached.step)

section \<open>What the locks guarantee\<close>

definition holds_mutex :: "thread \<Rightarrow> bool" where
  "holds_mutex t \<longleftrightarrow> pc t \<in> {Start_flag, Start_data, Start_file} \<or> th_tx t \<and> pc t \<noteq> Fail_flag"

definition holds_data :: "thread \<Rightarrow> bool" where
  "holds_data t \<longleftrightarrow> pc t \<in> {Change_data True, Change_end True, Start_file} \<or>
     th_tx t \<and> pc t \<notin> {End_flag, End_mutex, Fail_mutex, Fail_flag}"

definition holds_file :: "thread \<Rightarrow> bool" where
  "holds_file t \<longleftrightarrow> pc t \<in> {Write_open True, Json_flag True, Json_lock True, Json_read True True,
       Json_read True False, Write_end True} \<or>
     th_tx t \<and> pc t \<notin> {End_data, End_flag, End_mutex, Fail_data, Fail_mutex, Fail_flag}"

definition holds_shared :: "thread \<Rightarrow> bool" where
  "holds_shared t \<longleftrightarrow> pc t \<in> {Shared_read True, Json_read True True, Json_read False True}"

text \<open>The places of a thread that starts or ends a transaction.\<close>

definition tx_places :: "thread \<Rightarrow> bool" where
  "tx_places t \<longleftrightarrow>
     (pc t \<in> {Start_mutex, Start_flag, Start_data, Start_file} \<longrightarrow> \<not> th_tx t) \<and>
     (pc t \<in> {In_tx, End_file, End_data, End_flag, End_mutex, Fail_file, Fail_data, Fail_mutex, Fail_flag} \<longrightarrow> th_tx t) \<and>
     (pc t \<in> {Idle, Change_data True, Change_end True, Write_open True, Json_flag True, Json_lock True,
        Json_read True True, Json_read True False, Json_read False True, Write_end True, Shared_read True} \<longrightarrow>
      \<not> th_tx t) \<and>
     (th_ending t \<longrightarrow> th_tx t)"

definition lock_inv :: "config \<Rightarrow> bool" where
  "lock_inv c \<longleftrightarrow> (case c of (s, T) \<Rightarrow> \<forall>i.
     (holds_mutex (T i) \<longleftrightarrow> tx_mutex s = Some i) \<and> (holds_data (T i) \<longleftrightarrow> data_writer s = Some i) \<and>
     (holds_file (T i) \<longleftrightarrow> file_writer s = Some i) \<and> (holds_shared (T i) \<longleftrightarrow> i \<in> set (data_readers s)) \<and>
     (data_writer s = Some i \<longrightarrow> data_readers s = []) \<and> tx_places (T i))"

lemmas lock_defs = holds_mutex_def holds_data_def holds_file_def holds_shared_def tx_places_def

lemmas step_defs = goto_def return_call_def throw_call_def release_data_def release_shared_def
  release_file_def lock_shared_def lock_data_def lock_file_def lock_mutex_def closed_tx_def

lemma lock_inv_all_idle: "lock_inv all_idle"
  by (simp add: lock_inv_def all_idle_def free_def lock_defs)

text \<open>A step of one thread: what it must keep for itself and for the others.\<close>

definition step_ok :: "nat \<Rightarrow> thread \<times> locks \<Rightarrow> thread \<times> locks \<Rightarrow> bool" where
  "step_ok i a b \<longleftrightarrow> (case (a, b) of ((t, s), (t', s')) \<Rightarrow>
     tx_places t' \<and>
     (holds_mutex t' \<longleftrightarrow> tx_mutex s' = Some i) \<and> (holds_data t' \<longleftrightarrow> data_writer s' = Some i) \<and>
     (holds_file t' \<longleftrightarrow> file_writer s' = Some i) \<and> (holds_shared t' \<longleftrightarrow> i \<in> set (data_readers s')) \<and>
     (\<forall>j. j \<noteq> i \<longrightarrow> (tx_mutex s' = Some j \<longleftrightarrow> tx_mutex s = Some j) \<and>
        (data_writer s' = Some j \<longleftrightarrow> data_writer s = Some j) \<and>
        (file_writer s' = Some j \<longleftrightarrow> file_writer s = Some j) \<and>
        (j \<in> set (data_readers s') \<longleftrightarrow> j \<in> set (data_readers s))) \<and>
     (data_writer s' \<noteq> None \<longrightarrow> data_readers s' = []))"

definition local_inv :: "nat \<Rightarrow> thread \<Rightarrow> locks \<Rightarrow> bool" where
  "local_inv i t s \<longleftrightarrow> tx_places t \<and> (holds_mutex t \<longleftrightarrow> tx_mutex s = Some i) \<and>
     (holds_data t \<longleftrightarrow> data_writer s = Some i) \<and> (holds_file t \<longleftrightarrow> file_writer s = Some i) \<and>
     (holds_shared t \<longleftrightarrow> i \<in> set (data_readers s)) \<and> (data_writer s \<noteq> None \<longrightarrow> data_readers s = [])"

fun_cases shared_stepE: "shared_step i p t s = Some b"
fun_cases change_stepE: "change_step i p t s = Some b"
fun_cases write_stepE: "write_step ok i p t s = Some b"
fun_cases start_stepE: "start_step i p t s = Some b"
fun_cases process_stepE: "process_step i p t s = Some b"

lemma shared_step_ok: "local_inv i t s \<Longrightarrow> shared_step i (pc t) t s = Some b \<Longrightarrow> step_ok i (t, s) b"
  by (erule shared_stepE; cases "started s"; cases "th_ending t"; cases "th_tx t";
      simp add: local_inv_def step_ok_def lock_defs step_defs split: if_splits)

lemma change_step_ok: "local_inv i t s \<Longrightarrow> change_step i (pc t) t s = Some b \<Longrightarrow> step_ok i (t, s) b"
  by (erule change_stepE; cases "started s"; cases "th_ending t"; cases "th_tx t";
      simp add: local_inv_def step_ok_def lock_defs step_defs split: if_splits)

lemma write_step_ok: "local_inv i t s \<Longrightarrow> write_step ok i (pc t) t s = Some b \<Longrightarrow> step_ok i (t, s) b"
  by (erule write_stepE; cases "started s"; cases "th_ending t"; cases "th_tx t";
      simp add: local_inv_def step_ok_def lock_defs step_defs split: if_splits)

lemma start_step_ok: "local_inv i t s \<Longrightarrow> start_step i (pc t) t s = Some b \<Longrightarrow> step_ok i (t, s) b"
  by (erule start_stepE; cases "started s"; cases "th_ending t"; cases "th_tx t";
      simp add: local_inv_def step_ok_def lock_defs step_defs split: if_splits)

lemma process_step_ok: "local_inv i t s \<Longrightarrow> process_step i (pc t) t s = Some b \<Longrightarrow> step_ok i (t, s) b"
  by (erule process_stepE; cases "started s"; cases "th_ending t"; cases "th_tx t";
      simp add: local_inv_def step_ok_def lock_defs step_defs split: if_splits)

lemma begin_call_ok: "local_inv i t s \<Longrightarrow> begin_call c t = Some t' \<Longrightarrow> step_ok i (t, s) (t', s)"
  by (cases c; cases "th_tx t"; cases "pc t = Idle"; cases "pc t = In_tx";
      simp add: local_inv_def step_ok_def lock_defs step_defs; elim conjE; hypsubst; simp)

lemma orelse_Some: "orelse x y = Some a \<Longrightarrow> x = Some a \<or> y = Some a"
  by (auto simp: orelse_def split: option.splits)

lemma thread_step_cases:
  assumes "thread_step ok i t s = Some b"
  shows "shared_step i (pc t) t s = Some b \<or> change_step i (pc t) t s = Some b \<or>
    write_step ok i (pc t) t s = Some b \<or> start_step i (pc t) t s = Some b \<or> process_step i (pc t) t s = Some b"
  using assms unfolding thread_step_def by (blast dest!: orelse_Some)

lemma thread_step_ok:
  assumes "local_inv i t s" and "thread_step ok i t s = Some b"
  shows "step_ok i (t, s) b"
  using thread_step_cases [OF assms(2)] shared_step_ok [OF assms(1)] change_step_ok [OF assms(1)]
    write_step_ok [OF assms(1)] start_step_ok [OF assms(1)] process_step_ok [OF assms(1)]
  by blast

lemma lock_inv_local: "lock_inv (s, T) \<Longrightarrow> local_inv i (T i) s"
  by (auto simp: lock_inv_def local_inv_def)

lemma lock_inv_update:
  assumes "lock_inv (s, T)" and "step_ok i (T i, s) (t', s')"
  shows "lock_inv (s', T(i := t'))"
  using assms by (auto simp: lock_inv_def step_ok_def)

lemma lock_inv_take_step:
  assumes inv: "lock_inv c" and step: "take_step may ch c = Some c'"
  shows "lock_inv c'"
proof -
  obtain s T where c: "c = (s, T)" by (cases c)
  note inv = inv [unfolded c]
  show ?thesis
  proof (cases ch)
    case (Begin i a)
    then obtain t where "c' = (s, T(i := t))" "begin_call a (T i) = Some t"
      using step by (auto simp: c split: if_splits)
    then show ?thesis
      using lock_inv_update [OF inv begin_call_ok [OF lock_inv_local [OF inv]]] by simp
  next
    case (Go i ok)
    then obtain t s' where "c' = (s', T(i := t))" "thread_step ok i (T i) s = Some (t, s')"
      using step by (auto simp: c)
    then show ?thesis
      using lock_inv_update [OF inv thread_step_ok [OF lock_inv_local [OF inv]]] by simp
  qed
qed

lemma lock_inv_reached: "reached may c \<Longrightarrow> lock_inv c"
  by (induction rule: reached.induct) (auto intro: lock_inv_all_idle lock_inv_take_step)

text \<open>
  Whatever calls any number of threads make, at most one of them has the mutex of
  transactions, the unique lock of the rows, and the lock of the file; and nobody has a shared
  lock of the rows while a thread has the unique one.
\<close>

theorem table_locks_exclusive:
  assumes "reached may (s, T)" and "i \<noteq> j"
  shows "\<not> (holds_mutex (T i) \<and> holds_mutex (T j)) \<and> \<not> (holds_file (T i) \<and> holds_file (T j)) \<and>
    \<not> (holds_data (T i) \<and> (holds_data (T j) \<or> holds_shared (T j)))"
  using lock_inv_reached [OF assms(1)] assms(2) unfolding lock_inv_def by auto

theorem table_locks_exclusive_witness:
  "\<exists>s T. reached (\<lambda>i call. True) (s, T) \<and> holds_data (T 0) \<and> \<not> holds_shared (T 1)"
proof -
  obtain s T where run: "take_steps (\<lambda>i call. True) [Begin 0 Call_change, Go 0 True, Go 0 True] all_idle = Some (s, T)"
    and at: "pc (T 0) = Change_data True"
    by (simp add: all_idle_def free_def thread_step_def orelse_def step_defs)
  have reached: "reached (\<lambda>i call. True) (s, T)" by (rule reached_steps [OF reached.idle run])
  have "holds_data (T 0)" using at by (simp add: holds_data_def)
  with table_locks_exclusive [OF reached, of 0 1] reached show ?thesis by auto
qed

section \<open>Without transactions\<close>

definition changing :: "thread \<Rightarrow> bool" where
  "changing t \<longleftrightarrow> (\<exists>g. pc t = Change_data g)"

definition reading :: "thread \<Rightarrow> bool" where
  "reading t \<longleftrightarrow> (\<exists>g. pc t = Shared_read g) \<or> (\<exists>f g. pc t = Json_read f g)"

text \<open>Every lock is taken, and no thread is at a place of a transaction.\<close>

definition guarded :: "thread \<Rightarrow> bool" where
  "guarded t \<longleftrightarrow> pc t \<in> {Idle, Thrown, Shared_flag, Shared_lock, Shared_read True, Change_flag, Change_lock,
     Change_data True, Change_end True, Write_flag, Write_lock, Write_open True, Json_flag True, Json_lock True,
     Json_read True True, Write_end True} \<and> \<not> th_tx t \<and> \<not> th_ending t"

definition no_tx_inv :: "config \<Rightarrow> bool" where
  "no_tx_inv c \<longleftrightarrow> (case c of (s, T) \<Rightarrow> \<not> started s \<and> (\<forall>i. guarded (T i)))"

lemma guarded_steps:
  "\<not> started s \<Longrightarrow> guarded t \<Longrightarrow> shared_step i (pc t) t s = Some (t', s') \<Longrightarrow> guarded t' \<and> \<not> started s'"
  "\<not> started s \<Longrightarrow> guarded t \<Longrightarrow> change_step i (pc t) t s = Some (t', s') \<Longrightarrow> guarded t' \<and> \<not> started s'"
  "\<not> started s \<Longrightarrow> guarded t \<Longrightarrow> write_step ok i (pc t) t s = Some (t', s') \<Longrightarrow> guarded t' \<and> \<not> started s'"
  "\<not> started s \<Longrightarrow> guarded t \<Longrightarrow> start_step i (pc t) t s = Some (t', s') \<Longrightarrow> guarded t' \<and> \<not> started s'"
  "\<not> started s \<Longrightarrow> guarded t \<Longrightarrow> process_step i (pc t) t s = Some (t', s') \<Longrightarrow> guarded t' \<and> \<not> started s'"
  by (erule shared_stepE change_stepE write_stepE start_stepE process_stepE;
      auto simp: guarded_def step_defs split: if_splits)+

lemma guarded_thread_step:
  "\<not> started s \<Longrightarrow> guarded t \<Longrightarrow> thread_step ok i t s = Some (t', s') \<Longrightarrow> guarded t' \<and> \<not> started s'"
  by (drule thread_step_cases) (elim disjE; erule (2) guarded_steps)

lemma guarded_begin: "guarded t \<Longrightarrow> begin_call c t = Some t' \<Longrightarrow> c \<noteq> Call_start \<Longrightarrow> guarded t'"
  by (cases c) (auto simp: guarded_def goto_def split: if_splits)

lemma no_tx_inv_reached:
  assumes "\<And>i. \<not> may i Call_start" and "reached may c"
  shows "no_tx_inv c"
  using assms(2)
proof (induction rule: reached.induct)
  case idle
  show ?case by (simp add: no_tx_inv_def all_idle_def free_def guarded_def)
next
  case (step c ch c')
  obtain s T where c: "c = (s, T)" by (cases c)
  have inv: "\<not> started s" "\<And>i. guarded (T i)" using step.IH by (simp_all add: c no_tx_inv_def)
  show ?case
  proof (cases ch)
    case (Begin i a)
    then obtain t where "c' = (s, T(i := t))" "begin_call a (T i) = Some t" "may i a"
      using step.hyps(2) by (auto simp: c split: if_splits)
    then have "guarded t" using guarded_begin [OF inv(2)] assms(1) by metis
    then show ?thesis using inv \<open>c' = (s, T(i := t))\<close> by (simp add: no_tx_inv_def)
  next
    case (Go i ok)
    then obtain t s' where "c' = (s', T(i := t))" "thread_step ok i (T i) s = Some (t, s')"
      using step.hyps(2) by (auto simp: c)
    then show ?thesis using inv guarded_thread_step [OF inv] by (auto simp: no_tx_inv_def)
  qed
qed



section \<open>With transactions\<close>

text \<open>Thread 0 saves forms, all other threads only read: this is how the daemon uses the table of
  rules, which the thread of the monitor reads.\<close>

fun saver_and_readers :: "nat \<Rightarrow> table_call \<Rightarrow> bool" where
  "saver_and_readers i c = (i = 0 \<or> c = Call_read)"

definition open_tx :: "choice list" where
  "open_tx = [Begin 0 Call_start, Go 0 True, Go 0 True, Go 0 True, Go 0 True]"

text \<open>
  C18: A transaction does not protect the rows from the other threads: the flag that lets the
  calls of the transaction pass without a lock is shared, so a reader that looks at it during a
  transaction takes no lock either, and reads while the rows are changed.
\<close>

theorem transaction_race:
  "\<exists>s T. reached saver_and_readers (s, T) \<and> changing (T 0) \<and> reading (T 1)"
proof -
  obtain s T where run: "take_steps saver_and_readers (open_tx @ [Begin 0 Call_change, Go 0 True,
      Begin 1 Call_read, Go 1 True]) all_idle = Some (s, T)" and at: "pc (T 0) = Change_data False" "pc (T 1) = Shared_read False"
    by (simp add: open_tx_def all_idle_def free_def thread_step_def orelse_def step_defs)
  from reached_steps [OF reached.idle run] at show ?thesis by (auto simp: changing_def reading_def)
qed

text \<open>Thread 0 waits for the file and thread 1, which has it, for the rows, which thread 0 has.\<close>

definition deadlocked :: "config \<Rightarrow> bool" where
  "deadlocked c \<longleftrightarrow> (case c of (s, T) \<Rightarrow> pc (T 0) = Start_file \<and> pc (T 1) = Json_lock True)"

lemma waits:
  "pc t = Start_file \<Longrightarrow> file_writer s \<noteq> None \<Longrightarrow> thread_step ok i t s = None"
  "pc t = Json_lock f \<Longrightarrow> data_writer s \<noteq> None \<Longrightarrow> thread_step ok i t s = None"
  by (simp_all add: thread_step_def orelse_def lock_file_def lock_shared_def)

lemma deadlocked_step:
  assumes inv: "lock_inv c" and dead: "deadlocked c" and step: "take_step may ch c = Some c'"
  shows "deadlocked c'"
proof -
  obtain s T where c: "c = (s, T)" by (cases c)
  have at: "pc (T 0) = Start_file" "pc (T 1) = Json_lock True" using dead by (simp_all add: c deadlocked_def)
  then have "holds_data (T 0)" "holds_file (T 1)" by (simp_all add: holds_data_def holds_file_def)
  then have "data_writer s = Some 0" "file_writer s = Some 1" using inv by (simp_all add: c lock_inv_def)
  then have wait: "thread_step ok 0 (T 0) s = None" "thread_step ok 1 (T 1) s = None" for ok
    using waits at by blast+
  have calls: "begin_call a (T 0) = None" "begin_call a (T 1) = None" for a
    using at by (cases a; simp)+
  show ?thesis
  proof (cases ch)
    case (Begin i a)
    then have "begin_call a (T i) \<noteq> None" using step by (auto simp: c split: if_splits)
    then have "i \<noteq> 0" "i \<noteq> 1" using calls by metis+
    then show ?thesis using Begin step at by (auto simp: c deadlocked_def split: if_splits)
  next
    case (Go i ok)
    then have "thread_step ok i (T i) s \<noteq> None" using step by (auto simp: c)
    then have "i \<noteq> 0" "i \<noteq> 1" using wait by metis+
    then show ?thesis using Go step at by (auto simp: c deadlocked_def)
  qed
qed

lemma deadlocked_steps:
  "lock_inv c \<Longrightarrow> deadlocked c \<Longrightarrow> take_steps may chs c = Some c' \<Longrightarrow> deadlocked c'"
  by (induction chs arbitrary: c) (auto split: option.splits intro: lock_inv_take_step deadlocked_step)

text \<open>
  C33: When a thread writes the file outside a transaction while another one starts a
  transaction, both can wait for each other for ever: the first has the lock of the file and
  waits for the rows, the second has the rows and waits for the file, and whatever the other
  threads do, they stay there.
\<close>

theorem transaction_deadlock:
  "\<exists>c. reached (\<lambda>i call. True) c \<and> deadlocked c \<and>
     (\<forall>may chs c'. take_steps may chs c = Some c' \<longrightarrow> deadlocked c')"
proof -
  obtain s T where run: "take_steps (\<lambda>i call. True) ([Begin 1 Call_change, Go 1 True, Go 1 True, Go 1 True, Go 1 True,
      Go 1 True, Go 1 True, Go 1 True, Go 1 True, Begin 0 Call_start, Go 0 True, Go 0 True, Go 0 True]) all_idle = Some (s, T)"
    and at: "pc (T 0) = Start_file" "pc (T 1) = Json_lock True"
    by (simp add: all_idle_def free_def thread_step_def orelse_def step_defs)
  have reached: "reached (\<lambda>i call. True) (s, T)" by (rule reached_steps [OF reached.idle run])
  moreover have dead: "deadlocked (s, T)" using at by (simp add: deadlocked_def)
  ultimately show ?thesis using deadlocked_steps [OF lock_inv_reached [OF reached] dead] by blast
qed

theorem transaction_deadlock_witness:
  "\<exists>c. reached (\<lambda>i call. True) c \<and> take_steps (\<lambda>i call. True) [] c = Some c \<and> deadlocked c"
  using transaction_deadlock by auto

end
