(* ===== verification/Log_Text.thy ===== *)
theory Log_Text
  imports Custom_Mount
begin

text \<open>
  The parts of \<^verbatim>\<open>daemon/utils.cpp\<close> that serve the log: \<^verbatim>\<open>InitLogFile\<close>,
  \<^verbatim>\<open>SafeErrorNoToStr\<close> and \<^verbatim>\<open>acl::ToString\<close>, the text of an access control list that
  \<^verbatim>\<open>SetAcl\<close> writes at the level of debugging. The two calls of \<^verbatim>\<open>libacl\<close> that only this
  text needs are the record \<open>acl_reader\<close>.
\<close>

section \<open>The log file\<close>

text \<open>
  \<open>make_logger\<close> is the making of the logger by \<^verbatim>\<open>spdlog\<close>, which opens the file and may throw.
  The result tells whether there is a logger; false is the null pointer.
\<close>

definition InitLogFile ::
  "('w, 'z) file_io_scheme \<Rightarrow> (string \<Rightarrow> ('w, unit) prog) \<Rightarrow> string \<Rightarrow> ('w, bool) prog" where
  "InitLogFile io make_logger path = noexceptp (tryp
     (bindp (fio_create_directories io (parent_path path)) (\<lambda>_.
      bindp (make_logger path) (\<lambda>_. ret True)))
     (ret False))"

text \<open>The answer of \<^verbatim>\<open>strerror_r\<close> for the error number of the thread.\<close>

definition SafeErrorNoToStr :: "string option \<Rightarrow> string" where
  "SafeErrorNoToStr str_err = (case str_err of Some s \<Rightarrow> s | None \<Rightarrow> [])"

section \<open>The text of an access control list\<close>

text \<open>
  \<open>acl_get_perm\<close> takes the handle of a permission set, \<open>None\<close> for the null handle that is left
  when \<^verbatim>\<open>acl_get_permset\<close> fails.
\<close>

record 'a acl_reader =
  acl_get_qualifier :: "'a \<Rightarrow> nat \<Rightarrow> u32 option"
  acl_get_perm :: "'a \<Rightarrow> nat option \<Rightarrow> u32 \<Rightarrow> int"

definition qualifier_text :: "'a acl_reader \<Rightarrow> 'a \<Rightarrow> nat \<Rightarrow> string" where
  "qualifier_text rd acl entry =
     (case acl_get_qualifier rd acl entry of
        None \<Rightarrow> ''acl_get_qualifier FAILED''
      | Some i \<Rightarrow> '' '' @ to_string i @ '' '')"

text \<open>The \<^verbatim>\<open>switch\<close>; the tag is \<open>None\<close> while it has its initial value, which is no tag.\<close>

definition tag_text :: "'a acl_reader \<Rightarrow> 'a \<Rightarrow> nat \<Rightarrow> acl_tag option \<Rightarrow> string" where
  "tag_text rd acl entry tag =
     (case tag of
        Some ACL_USER_OBJ \<Rightarrow> ''user_obj ''
      | Some ACL_USER \<Rightarrow> '' user '' @ qualifier_text rd acl entry
      | Some ACL_GROUP_OBJ \<Rightarrow> '' group_obj ''
      | Some ACL_GROUP \<Rightarrow> '' group '' @ qualifier_text rd acl entry
      | Some ACL_MASK \<Rightarrow> '' mask ''
      | Some ACL_OTHER \<Rightarrow> '' other ''
      | None \<Rightarrow> ''UNDEFINED'')"

text \<open>\<^verbatim>\<open>ACL_READ\<close> is 4, \<^verbatim>\<open>ACL_WRITE\<close> 2 and \<^verbatim>\<open>ACL_EXECUTE\<close> 1.\<close>

definition permset_text :: "'a acl_reader \<Rightarrow> 'a \<Rightarrow> nat option \<Rightarrow> string" where
  "permset_text rd acl permset =
     (if acl_get_perm rd acl permset 4 = 1 then ''r'' else ''-'') @
     (if acl_get_perm rd acl permset 2 = 1 then ''w'' else ''-'') @
     (if acl_get_perm rd acl permset 1 = 1 then ''x'' else ''-'')"

definition perms_text :: "('w, 'a) libacl \<Rightarrow> 'a acl_reader \<Rightarrow> 'a \<Rightarrow> nat \<Rightarrow> string" where
  "perms_text lib rd acl entry =
     (case acl_get_permset lib acl entry of
        None \<Rightarrow> ''acl_get_permset FAILED'' @ permset_text rd acl None
      | Some permset \<Rightarrow> permset_text rd acl (Some permset))"

text \<open>
  The loop, with the number of iterations left. The tag keeps the value of the entry before when
  it cannot be read; \<open>err\<close> is the text of the error.
\<close>

fun acl_text_loop ::
  "('w, 'a) libacl \<Rightarrow> 'a acl_reader \<Rightarrow> string \<Rightarrow> nat \<Rightarrow> bool \<Rightarrow> acl_tag option \<Rightarrow> 'a \<Rightarrow> string" where
  "acl_text_loop lib rd err 0 first tag acl = []"
| "acl_text_loop lib rd err (Suc n) first tag acl =
     (case acl_get_entry lib first acl of
        (None, acl1) \<Rightarrow> []
      | (Some entry, acl1) \<Rightarrow>
          (case acl_get_tag_type lib acl1 entry of
             None \<Rightarrow> err @ tag_text rd acl1 entry tag @ perms_text lib rd acl1 entry @
               acl_text_loop lib rd err n False tag acl1
           | Some t \<Rightarrow> tag_text rd acl1 entry (Some t) @ perms_text lib rd acl1 entry @
               acl_text_loop lib rd err n False (Some t) acl1))"

definition acl_ToString :: "('w, 'a) libacl \<Rightarrow> 'a acl_reader \<Rightarrow> string option \<Rightarrow> 'a \<Rightarrow> string" where
  "acl_ToString lib rd str_err acl = acl_text_loop lib rd (SafeErrorNoToStr str_err) 100 True None acl"

section \<open>What the text says\<close>

text \<open>What the manual promises of the two calls, for the view of \<open>libacl_laws\<close>.\<close>

definition reader_laws :: "('w, 'a) libacl \<Rightarrow> 'a acl_reader \<Rightarrow> 'a acl_view \<Rightarrow> bool" where
  "reader_laws lib rd v \<longleftrightarrow>
     (\<forall>acl es p i. v acl = (es, p) \<longrightarrow> distinct (map fst es) \<longrightarrow> i < length es \<longrightarrow>
        acl_get_qualifier rd acl (fst (es ! i)) = ae_qualifier (snd (es ! i)) \<and>
        acl_get_permset lib acl (fst (es ! i)) = Some (fst (es ! i)) \<and>
        (\<forall>m. acl_get_perm rd acl (Some (fst (es ! i))) m =
          (if and (ae_perm (snd (es ! i))) m \<noteq> 0 then 1 else 0)))"

text \<open>One entry in words.\<close>

definition holder_line :: "acl_entry \<Rightarrow> string" where
  "holder_line e =
     (case ae_qualifier e of
        None \<Rightarrow> ''acl_get_qualifier FAILED''
      | Some i \<Rightarrow> '' '' @ to_string i @ '' '')"

definition tag_line :: "acl_entry \<Rightarrow> string" where
  "tag_line e =
     (case ae_tag e of
        Some ACL_USER_OBJ \<Rightarrow> ''user_obj ''
      | Some ACL_USER \<Rightarrow> '' user '' @ holder_line e
      | Some ACL_GROUP_OBJ \<Rightarrow> '' group_obj ''
      | Some ACL_GROUP \<Rightarrow> '' group '' @ holder_line e
      | Some ACL_MASK \<Rightarrow> '' mask ''
      | Some ACL_OTHER \<Rightarrow> '' other ''
      | None \<Rightarrow> ''UNDEFINED'')"

definition perm_line :: "acl_entry \<Rightarrow> string" where
  "perm_line e =
     (if and (ae_perm e) 4 \<noteq> 0 then ''r'' else ''-'') @
     (if and (ae_perm e) 2 \<noteq> 0 then ''w'' else ''-'') @
     (if and (ae_perm e) 1 \<noteq> 0 then ''x'' else ''-'')"

definition entry_line :: "acl_entry \<Rightarrow> string" where
  "entry_line e = tag_line e @ perm_line e"

lemma tag_text_line:
  "acl_get_qualifier rd acl h = ae_qualifier e \<Longrightarrow> tag_text rd acl h (ae_tag e) = tag_line e"
  by (cases "ae_tag e") (auto simp: tag_text_def tag_line_def qualifier_text_def holder_line_def split: acl_tag.split)

lemma permset_text_line:
  "(\<And>m. acl_get_perm rd acl (Some h) m = (if and (ae_perm e) m \<noteq> 0 then 1 else 0)) \<Longrightarrow>
   permset_text rd acl (Some h) = perm_line e"
  by (simp only: permset_text_def perm_line_def) simp

lemma acl_text_entry:
  assumes "reader_laws lib rd v" and "v acl = (es, p)" and "distinct (map fst es)" and "i < length es"
  shows "tag_text rd acl (fst (es ! i)) (ae_tag (snd (es ! i))) @ perms_text lib rd acl (fst (es ! i)) =
    entry_line (snd (es ! i))"
proof -
  have "acl_get_qualifier rd acl (fst (es ! i)) = ae_qualifier (snd (es ! i))"
    and "acl_get_permset lib acl (fst (es ! i)) = Some (fst (es ! i))"
    and "acl_get_perm rd acl (Some (fst (es ! i))) m = (if and (ae_perm (snd (es ! i))) m \<noteq> 0 then 1 else 0)" for m
    using assms unfolding reader_laws_def by blast+
  then show ?thesis
    by (simp only: perms_text_def option.case entry_line_def tag_text_line permset_text_line)
qed

lemma acl_text_loop_lines:
  assumes "iteration_laws lib v" and "reader_laws lib rd v" and "distinct (map fst es)"
    and "\<And>x. x \<in> set es \<Longrightarrow> ae_tag (snd x) \<noteq> None"
  shows "v acl = (es, p) \<Longrightarrow> length es \<le> n + (if first then 0 else p) \<Longrightarrow>
    acl_text_loop lib rd err n first tag acl =
      concat (map (\<lambda>x. entry_line (snd x)) (drop (if first then 0 else p) es))"
proof (induction n arbitrary: acl p first tag)
  case (Suc n)
  let ?q = "if first then 0 else p"
  obtain r acl1 where g: "acl_get_entry lib first acl = (r, acl1)" by (cases "acl_get_entry lib first acl")
  note step = iteration_step [OF assms(1) Suc.prems(1), of first, unfolded Let_def g fst_conv snd_conv]
  show ?case
  proof (cases "?q < length es")
    case True
    with step have r: "r = Some (fst (es ! ?q))" and v1: "v acl1 = (es, ?q + 1)" by simp_all
    have tag: "acl_get_tag_type lib acl1 (fst (es ! ?q)) = ae_tag (snd (es ! ?q))"
      by (rule iteration_tag [OF assms(1) v1 assms(3) True])
    have "es ! ?q \<in> set es" using True by (rule nth_mem)
    then obtain t where t: "ae_tag (snd (es ! ?q)) = Some t" using assms(4) by blast
    have "acl_text_loop lib rd err (Suc n) first tag acl =
        entry_line (snd (es ! ?q)) @ acl_text_loop lib rd err n False (Some t) acl1"
      using acl_text_entry [OF assms(2) v1 assms(3) True] by (simp add: g r tag t)
    also have "acl_text_loop lib rd err n False (Some t) acl1 =
        concat (map (\<lambda>x. entry_line (snd x)) (drop (Suc ?q) es))"
      using Suc.IH [OF v1, of False "Some t"] Suc.prems(2) by simp
    finally show ?thesis using Cons_nth_drop_Suc [OF True, symmetric] by simp
  next
    case False
    with step have "r = None" by simp
    with False show ?thesis by (simp add: g)
  qed
qed simp

lemma acl_ToString_lines:
  assumes "iteration_laws lib v" and "reader_laws lib rd v" and "distinct (map fst (fst (v acl)))"
    and "\<And>x. x \<in> set (fst (v acl)) \<Longrightarrow> ae_tag (snd x) \<noteq> None" and "length (fst (v acl)) \<le> 100"
  shows "acl_ToString lib rd str_err acl = concat (map entry_line (map snd (fst (v acl))))"
  using acl_text_loop_lines [OF assms(1-4), of acl "snd (v acl)" 100 True] assms(5)
  by (simp add: acl_ToString_def comp_def)

lemma granted_tags: "e \<in> set (granted uid gid) \<Longrightarrow> ae_tag e \<noteq> None"
  by (auto simp: granted_def)

text \<open>
  The text of the rebuilt list names what was granted. For a list of fewer than 98 entries of
  which no call fails, \<^verbatim>\<open>acl::ToString\<close> gives the entries that were kept, in their order,
  followed by the user, the group and the mask, each with read and execute.
\<close>

theorem acl_text_of_granted:
  assumes "libacl_laws lib v" and "reader_laws lib rd v" and "length (fst (v acl)) < 98"
    and "\<And>x. x \<in> set (fst (v acl)) \<Longrightarrow> ae_tag (snd x) \<noteq> None"
    and "distinct (map fst (fst (v acl)))" and "build_acl lib uid gid acl = Ok acl'"
  shows "acl_ToString lib rd str_err acl' =
    concat (map entry_line (map snd (filter own_entry (fst (v acl))))) @
    '' user  '' @ to_string uid @ '' r-x group  '' @ to_string gid @ '' r-x mask r-x''"
proof -
  have "length (fst (v acl)) < 100" using assms(3) by simp
  note b = build_acl_entries [OF assms(1) this assms(4-6)]
  have iter: "iteration_laws lib v" using assms(1) by (simp add: libacl_laws_def)
  have tags: "ae_tag (snd x) \<noteq> None" if "x \<in> set (fst (v acl'))" for x
  proof -
    from that b(1) have "snd x \<in> set (map snd (filter own_entry (fst (v acl))) @ granted uid gid)"
      by (metis imageI list.set_map)
    with assms(4) granted_tags show ?thesis by auto
  qed
  have "length (fst (v acl')) = length (filter own_entry (fst (v acl))) + 3"
    using arg_cong [OF b(1), of length] by (simp add: granted_def)
  then have "length (fst (v acl')) \<le> 100"
    using assms(3) length_filter_le [of own_entry "fst (v acl)"] by linarith
  note shown = acl_ToString_lines [OF iter assms(2) b(2) tags this]
  have "concat (map entry_line (granted uid gid)) =
      '' user  '' @ to_string uid @ '' r-x group  '' @ to_string gid @ '' r-x mask r-x''"
    by (simp add: granted_def entry_line_def tag_line_def perm_line_def holder_line_def acl_rx_def)
  then show ?thesis by (simp only: shown b(1) map_append concat_append)
qed

definition list_reader :: "list_acl acl_reader" where
  "list_reader = \<lparr>
     acl_get_qualifier = \<lambda>((es, p), n) h. Option.bind (map_of es h) ae_qualifier,
     acl_get_perm = \<lambda>((es, p), n) ps m. case Option.bind ps (map_of es) of
       None \<Rightarrow> - 1 | Some e \<Rightarrow> if and (ae_perm e) m \<noteq> 0 then 1 else 0\<rparr>"

lemma list_reader_laws: "reader_laws list_libacl list_reader fst"
  by (auto simp: reader_laws_def list_reader_def list_libacl_def map_of_nth_distinct)

theorem acl_text_of_granted_witness:
  "\<exists>acl'. build_acl list_libacl 1000 1001 sample_acl = Ok acl' \<and>
    acl_ToString list_libacl list_reader None acl' =
      ''user_obj rwx other --- user  1000 r-x group  1001 r-x mask r-x''"
proof -
  obtain acl' where b: "build_acl list_libacl 1000 1001 sample_acl = Ok acl'"
    by (simp add: build_acl_def DeleteACLUserGroupMask_def list_libacl_def sample_acl_def Let_def
        need_def CreateUserAclEntry_def CreateGroupAclEntry_def CreateMaskAclEntry_def numeral_eq_Suc)
  have n: "to_string (1000 :: u32) = ''1000''" "to_string (1001 :: u32) = ''1001''"
    by (simp_all add: to_string_def nat_to_string.simps char_of_def bit_nat_def)
  have "acl_ToString list_libacl list_reader None acl' =
    concat (map entry_line (map snd (filter own_entry (fst (fst sample_acl))))) @
    '' user  '' @ to_string (1000 :: u32) @ '' r-x group  '' @ to_string (1001 :: u32) @ '' r-x mask r-x''"
    by (rule acl_text_of_granted [OF list_libacl_laws list_reader_laws _ _ _ b])
      (auto simp: sample_acl_def)
  with b show ?thesis
    by (auto simp: n sample_acl_def own_entry_def entry_line_def tag_line_def perm_line_def)
qed

end
