(* ===== verification/Daemon_Start.thy ===== *)
theory Daemon_Start
  imports Daemon_Main Log_Text
begin

text \<open>
  How the daemon comes up and goes down: the constructors of \<^verbatim>\<open>UdevMonitor\<close>,
  \<^verbatim>\<open>DbusMethods\<close> and \<^verbatim>\<open>Daemon\<close>, \<^verbatim>\<open>LocalStorage::GetStorage\<close>, \<^verbatim>\<open>Daemon::Run\<close>
  around the loop over signals, and \<^verbatim>\<open>main\<close>. The second half is a step relation for the three
  threads of the process and the signals that the system delivers to them.
\<close>

section \<open>The process\<close>

text \<open>
  What the constructors call outside: the logger of \<^verbatim>\<open>spdlog\<close>, libudev (false is the null
  pointer; the monitor is made from a handle that may be null), sdbus-c++ and
  \<^verbatim>\<open>std::thread\<close>.
\<close>

record 'w boot =
  boot_logger :: "string \<Rightarrow> ('w, unit) prog"
  boot_udev_new :: "'w \<Rightarrow> bool \<times> 'w"
  boot_monitor_new :: "bool \<Rightarrow> 'w \<Rightarrow> bool \<times> 'w"
  boot_filter :: "string \<Rightarrow> 'w \<Rightarrow> int \<times> 'w"
  boot_receiving :: "'w \<Rightarrow> int \<times> 'w"
  boot_get_fd :: "'w \<Rightarrow> int \<times> 'w"
  boot_connection :: "string \<Rightarrow> ('w, unit) prog"
  boot_object :: "string \<Rightarrow> ('w, unit) prog"
  boot_vtable :: "string \<Rightarrow> string list \<Rightarrow> ('w, unit) prog"
  boot_event_loop :: "('w, unit) prog"
  boot_thread :: "('w, unit) prog"

text \<open>Lines on the standard error of \<^verbatim>\<open>main\<close>.\<close>

datatype message = Cannot_start | What exn | Ended_gracefully

text \<open>\<open>pr_storage\<close> is the static pointer of \<^verbatim>\<open>LocalStorage\<close>; the latest message comes first.\<close>

record 'w process =
  pr_world :: 'w
  pr_storage :: "(PermissionEntry table \<times> MountEntry table) option"
  pr_err :: "message list"

definition in_process :: "('w, 'a) prog \<Rightarrow> ('w process, 'a) prog" where
  "in_process m = (\<lambda>p. case m (pr_world p) of (r, w) \<Rightarrow> (r, p\<lparr>pr_world := w\<rparr>))"

definition boot_call :: "('w \<Rightarrow> 'a \<times> 'w) \<Rightarrow> ('w process, 'a) prog" where
  "boot_call f = in_process (\<lambda>w. case f w of (a, w') \<Rightarrow> (Ok a, w'))"

definition print_err :: "message \<Rightarrow> ('w process, unit) prog" where
  "print_err t = modp (\<lambda>p. p\<lparr>pr_err := t # pr_err p\<rparr>)"

section \<open>Constructors\<close>

definition GetStorage ::
  "'w os \<Rightarrow> ('w process, PermissionEntry table \<times> MountEntry table) prog" where
  "GetStorage os = (\<lambda>p.
     case pr_storage p of
       Some tables \<Rightarrow> (Ok tables, p)
     | None \<Rightarrow>
         (case LocalStorage_construct os (pr_world p) of
            (Fail f, w) \<Rightarrow> (Fail f, p\<lparr>pr_world := w\<rparr>)
          | (Ok tables, w) \<Rightarrow> (Ok tables, p\<lparr>pr_world := w, pr_storage := Some tables\<rparr>)))"

text \<open>The object of the monitor: its descriptor and the promise that \<^verbatim>\<open>Stop\<close> keeps.\<close>

record udev_monitor =
  um_fd :: int
  um_stop :: bool

text \<open>The last line of the constructor writes to the log: with no logger it uses a null pointer.\<close>

definition UdevMonitor_construct ::
  "'w os \<Rightarrow> 'w boot \<Rightarrow> bool \<Rightarrow> ('w process, udev_monitor) prog" where
  "UdevMonitor_construct os bt logger =
     bindp (boot_call (boot_udev_new bt)) (\<lambda>udev.
     bindp (boot_call (boot_monitor_new bt udev)) (\<lambda>monitor.
     bindp (GetStorage os) (\<lambda>_.
     if \<not> udev \<or> \<not> monitor then fail (Exc Runtime_error)
     else bindp (boot_call (boot_filter bt ''usb'')) (\<lambda>res.
       if res < 0 then fail (Exc Runtime_error)
       else bindp (boot_call (boot_filter bt ''block'')) (\<lambda>res.
         if res < 0 then fail (Exc Runtime_error)
         else bindp (boot_call (boot_receiving bt)) (\<lambda>res.
           if res < 0 then fail (Exc Runtime_error)
           else bindp (boot_call (boot_get_fd bt)) (\<lambda>fd.
             if \<not> logger then fail Undefined
             else ret \<lparr>um_fd = fd, um_stop = False\<rparr>)))))))"

text \<open>A promise takes one value; the exception of a second one would leave a \<^verbatim>\<open>noexcept\<close>
  function.\<close>

definition UdevMonitor_Stop :: "udev_monitor \<Rightarrow> udev_monitor outcome" where
  "UdevMonitor_Stop m = (if um_stop m then Fail Terminated else Ok (m\<lparr>um_stop := True\<rparr>))"

definition StopRequested :: "udev_monitor \<Rightarrow> bool" where
  "StopRequested m = um_stop m"

definition service_name :: string where "service_name = ''ru.alterator.usbd''"
definition object_path :: string where "object_path = ''/ru/alterator/altusbd''"
definition interface_name :: string where "interface_name = ''ru.alterator.Usbd''"

definition method_names :: "string list" where
  "method_names = [''health'', ''ListDevices'', ''ListRules'', ''GetUsersAndGroups'',
     ''CanAnotherUserUnmount'', ''CanUserMount'', ''SaveRules'']"

definition DbusMethods_construct :: "'w os \<Rightarrow> 'w boot \<Rightarrow> ('w process, unit) prog" where
  "DbusMethods_construct os bt =
     bindp (in_process (boot_connection bt service_name)) (\<lambda>_.
     bindp (in_process (boot_object bt object_path)) (\<lambda>_.
     bindp (GetStorage os) (\<lambda>_.
     in_process (boot_vtable bt interface_name method_names))))"

definition log_path :: string where
  "log_path = ''/var/log/alt-usb-automount/log.txt''"

definition Daemon_Daemon ::
  "'w os \<Rightarrow> 'w boot \<Rightarrow> ('w process, daemon_flags \<times> udev_monitor) prog" where
  "Daemon_Daemon os bt =
     bindp (in_process (InitLogFile os (boot_logger bt) log_path)) (\<lambda>logger.
     bindp (UdevMonitor_construct os bt logger) (\<lambda>monitor.
     bindp (DbusMethods_construct os bt) (\<lambda>_.
     ret (Daemon_construct, monitor))))"

section \<open>Running\<close>

text \<open>
  The threads of the bus and of the monitor run the calls of \<open>Daemon_Main\<close>; \<open>work\<close> is what
  they did until the monitor is joined, in the order of the calls.
\<close>

definition serve :: "('w, unit) dprog \<Rightarrow> ('w process, unit) prog" where
  "serve work = (\<lambda>p. case pr_storage p of
     None \<Rightarrow> (Fail Undefined, p)
   | Some (perms, mounts) \<Rightarrow>
       (case work (initial (pr_world p) perms mounts) of
          (r, s) \<Rightarrow> (r, p\<lparr>pr_world := st_world s, pr_storage := Some (st_perms s, st_mounts s)\<rparr>)))"

definition Daemon_Run ::
  "'w boot \<Rightarrow> ('w, unit) dprog \<Rightarrow> signal list \<Rightarrow> daemon_flags \<times> udev_monitor \<Rightarrow> ('w process, unit) prog"
where
  "Daemon_Run bt work signals = (\<lambda>(flags, monitor).
     bindp (in_process (boot_event_loop bt)) (\<lambda>_.
     bindp (in_process (boot_thread bt)) (\<lambda>_.
     bindp (serve work) (\<lambda>_.
     case signal_loop flags signals of
       None \<Rightarrow> fail Hangs
     | Some n \<Rightarrow> bindp (liftO (UdevMonitor_Stop monitor)) (\<lambda>_. ret ())))))"

definition daemon_main ::
  "'w os \<Rightarrow> 'w boot \<Rightarrow> ('w, unit) dprog \<Rightarrow> signal list \<Rightarrow> ('w process, int) prog" where
  "daemon_main os bt work signals = (\<lambda>p.
     bindp (\<lambda>p. case bindp (Daemon_Daemon os bt) (Daemon_Run bt work signals) p of
              (Fail (Exc e), q) \<Rightarrow> bindp (print_err Cannot_start) (\<lambda>_. print_err (What e)) q
            | r \<Rightarrow> r)
       (\<lambda>_. bindp (print_err Ended_gracefully) (\<lambda>_. ret 0)) p)"

section \<open>Facts about the start\<close>

lemma in_process_run: "in_process m p = (fst (m (pr_world p)), p\<lparr>pr_world := snd (m (pr_world p))\<rparr>)"
  by (simp add: in_process_def split_beta)

lemma boot_call_run:
  "boot_call f p = (Ok (fst (f (pr_world p))), p\<lparr>pr_world := snd (f (pr_world p))\<rparr>)"
  by (simp add: boot_call_def in_process_def split_beta)

lemma bindp_boot_call [simp]:
  "bindp (boot_call f) k p = k (fst (f (pr_world p))) (p\<lparr>pr_world := snd (f (pr_world p))\<rparr>)"
  by (simp add: bindp_def boot_call_run)

text \<open>The first call of \<open>GetStorage\<close> reads the files; every later one gives the same tables.\<close>

lemma GetStorage_Ok:
  "GetStorage os p = (Ok tables, q) \<Longrightarrow> pr_storage q = Some tables"
  by (auto simp: GetStorage_def split: option.splits prod.splits outcome.splits)

lemma GetStorage_again: "pr_storage p = Some tables \<Longrightarrow> GetStorage os p = (Ok tables, p)"
  by (simp add: GetStorage_def)

lemma print_err_run [simp]: "print_err t p = (Ok (), p\<lparr>pr_err := t # pr_err p\<rparr>)"
  by (simp add: print_err_def)

lemma daemon_main_cases:
  "daemon_main os bt work signals p =
     (case bindp (Daemon_Daemon os bt) (Daemon_Run bt work signals) p of
        (Ok _, q) \<Rightarrow> (Ok 0, q\<lparr>pr_err := Ended_gracefully # pr_err q\<rparr>)
      | (Fail (Exc e), q) \<Rightarrow> (Ok 0, q\<lparr>pr_err := Ended_gracefully # What e # Cannot_start # pr_err q\<rparr>)
      | (Fail f, q) \<Rightarrow> (Fail f, q))"
  by (auto simp: daemon_main_def bindp_def split: prod.splits outcome.splits failure.splits)

text \<open>Without a logger the constructor of the monitor does all its work and then fails.\<close>

lemma UdevMonitor_construct_no_logger:
  assumes "UdevMonitor_construct os bt True p = (r, q)"
  shows "UdevMonitor_construct os bt False p = (case r of Ok m \<Rightarrow> Fail Undefined | Fail f \<Rightarrow> Fail f, q)"
  using assms
  by (auto simp: UdevMonitor_construct_def bindp_def boot_call_run Let_def
      split: if_splits outcome.splits prod.splits)

text \<open>
  C25: When the daemon cannot start. An exception of a constructor is caught: the process says so
  on the standard error, says as well that it ended gracefully, and returns 0, the value of
  success. When the log file cannot be made there is no exception: the constructor of the
  monitor, if nothing else fails, uses the null pointer of the logger.
\<close>

theorem daemon_start_fails:
  assumes "InitLogFile os (boot_logger bt) log_path (pr_world p) = (Ok logger, w)"
    and "UdevMonitor_construct os bt True (p\<lparr>pr_world := w\<rparr>) = (r, q)"
  shows "(\<forall>e. r = throws e \<longrightarrow> daemon_main os bt work signals p =
       (Ok 0, q\<lparr>pr_err := Ended_gracefully # What e # Cannot_start # pr_err q\<rparr>)) \<and>
     (\<forall>m. r = Ok m \<longrightarrow> \<not> logger \<longrightarrow> daemon_main os bt work signals p = (Fail Undefined, q)) \<and>
     (\<forall>m e q'. r = Ok m \<longrightarrow> logger \<longrightarrow> DbusMethods_construct os bt q = (throws e, q') \<longrightarrow>
       daemon_main os bt work signals p =
         (Ok 0, q'\<lparr>pr_err := Ended_gracefully # What e # Cannot_start # pr_err q'\<rparr>))"
proof -
  have log: "in_process (InitLogFile os (boot_logger bt) log_path) p = (Ok logger, p\<lparr>pr_world := w\<rparr>)"
    by (simp add: in_process_def assms(1))
  show ?thesis
    using assms(2) UdevMonitor_construct_no_logger [OF assms(2)]
    by (cases logger; cases r)
      (auto simp: daemon_main_cases Daemon_Daemon_def log bindp_def split: failure.split)
qed

text \<open>A system on which everything comes up but the directory of the log cannot be made.\<close>

definition plain_boot :: "'w boot" where
  "plain_boot = \<lparr>boot_logger = \<lambda>p. ret (), boot_udev_new = Pair True,
     boot_monitor_new = \<lambda>u. Pair u, boot_filter = \<lambda>s. Pair 0, boot_receiving = Pair 0,
     boot_get_fd = Pair 5, boot_connection = \<lambda>s. ret (), boot_object = \<lambda>s. ret (),
     boot_vtable = \<lambda>i ms. ret (), boot_event_loop = ret (), boot_thread = ret ()\<rparr>"

definition no_log_os :: "sample_world os" where
  "no_log_os = (sample_os JNull)\<lparr>fio_create_directories := \<lambda>d.
     if starts_with d ''/var/log'' then fail (Exc Filesystem_error) else ret ()\<rparr>"

definition new_process :: "'w \<Rightarrow> 'w process" where
  "new_process w = \<lparr>pr_world = w, pr_storage = None, pr_err = []\<rparr>"

lemma parent_paths:
  "parent_path log_path = ''/var/log/alt-usb-automount''"
  "parent_path permissions_path = ''/var/lib/alt-usb-mount''"
  "parent_path mount_points_path = ''/var/lib/alt-usb-mount''"
  by (simp_all add: parent_path_def log_path_def permissions_path_def mount_points_path_def)

lemma paths_differ: "mount_points_path \<noteq> permissions_path"
  by (simp add: permissions_path_def mount_points_path_def)

theorem daemon_start_fails_witness:
  "fst (daemon_main no_log_os plain_boot (ret ()) [] (new_process empty_world)) = Fail Undefined"
proof -
  have "InitLogFile no_log_os (boot_logger plain_boot) log_path (pr_world (new_process empty_world)) =
      (Ok False, empty_world)"
    by (simp add: InitLogFile_def parent_paths no_log_os_def plain_boot_def new_process_def starts_with_def
        noexceptp_def tryp_def)
  moreover have "\<exists>m q. UdevMonitor_construct no_log_os plain_boot True
      ((new_process empty_world)\<lparr>pr_world := empty_world\<rparr>) = (Ok m, q)"
    by (simp add: UdevMonitor_construct_def plain_boot_def GetStorage_def new_process_def
        LocalStorage_construct_def DevicePermissions_construct_def Mountpoints_construct_def
        Table_construct_def new_table_def parent_paths no_log_os_def empty_world_def
        starts_with_def bindp_def boot_call_run DevicePermissions_DataFromRawJson_def
        Mountpoints_DataFromRawJson_def DataFromRawJson_def paths_differ)
  ultimately show ?thesis using daemon_start_fails [of no_log_os plain_boot] by fastforce
qed

section \<open>The threads and the signals\<close>

text \<open>
  The main thread goes through the statements of \<^verbatim>\<open>Daemon::Run\<close>. A new thread has the mask
  of the thread that makes it: \<open>Some True\<close> when it blocks the three signals, \<open>None\<close> before it
  is there. A signal goes to one thread that waits for it in \<^verbatim>\<open>sigwait\<close> or does not block it,
  as POSIX has it, and in the second case ends the process, because no handler is installed;
  when every thread blocks it, it stays pending.
\<close>

datatype main_point =
    Enter_loop | Start_monitor | Block_signals | Check_running | Wait_signal
  | Handle signal | Stop_monitor | Join_monitor | Returned | Killed signal

datatype monitor_thread = No_thread | Monitor_runs bool | Monitor_done

record life =
  lf_main :: main_point
  lf_flags :: daemon_flags
  lf_stop :: udev_monitor
  lf_mask :: bool
  lf_bus :: "bool option"
  lf_thread :: monitor_thread
  lf_pending :: "signal list"

definition blockable :: "signal \<Rightarrow> bool" where
  "blockable sig \<longleftrightarrow> sig \<noteq> Other_signal"

text \<open>Some thread that is there does not block the signals.\<close>

definition open_thread :: "life \<Rightarrow> bool" where
  "open_thread l \<longleftrightarrow> \<not> lf_mask l \<or> lf_bus l = Some False \<or> lf_thread l = Monitor_runs False"

definition over :: "life \<Rightarrow> bool" where
  "over l \<longleftrightarrow> (case lf_main l of Returned \<Rightarrow> True | Killed sig \<Rightarrow> True | _ \<Rightarrow> False)"

fun main_step :: "life \<Rightarrow> life option" where
  "main_step l =
     (case lf_main l of
        Enter_loop \<Rightarrow> Some (l\<lparr>lf_bus := Some (lf_mask l), lf_main := Start_monitor\<rparr>)
      | Start_monitor \<Rightarrow> Some (l\<lparr>lf_thread := Monitor_runs (lf_mask l), lf_main := Block_signals\<rparr>)
      | Block_signals \<Rightarrow> Some (l\<lparr>lf_mask := True, lf_main := Check_running\<rparr>)
      | Check_running \<Rightarrow>
          (case IsRunning (lf_flags l) of (running, flags) \<Rightarrow>
             Some (l\<lparr>lf_flags := flags, lf_main := (if running then Wait_signal else Stop_monitor)\<rparr>))
      | Wait_signal \<Rightarrow>
          (case lf_pending l of
             [] \<Rightarrow> None
           | sig # rest \<Rightarrow> Some (l\<lparr>lf_pending := rest, lf_main := Handle sig\<rparr>))
      | Handle sig \<Rightarrow> Some (l\<lparr>lf_flags := SignalHandler sig (lf_flags l), lf_main := Check_running\<rparr>)
      | Stop_monitor \<Rightarrow>
          (case UdevMonitor_Stop (lf_stop l) of
             Ok m \<Rightarrow> Some (l\<lparr>lf_stop := m, lf_main := Join_monitor\<rparr>)
           | Fail f \<Rightarrow> None)
      | Join_monitor \<Rightarrow> if lf_thread l = Monitor_done then Some (l\<lparr>lf_main := Returned\<rparr>) else None
      | _ \<Rightarrow> None)"

declare main_step.simps [simp del]

inductive life_step :: "life \<Rightarrow> life \<Rightarrow> bool" where
  main: "main_step l = Some l' \<Longrightarrow> life_step l l'"
| monitor: "lf_thread l = Monitor_runs b \<Longrightarrow> StopRequested (lf_stop l) \<Longrightarrow> \<not> over l \<Longrightarrow>
    life_step l (l\<lparr>lf_thread := Monitor_done\<rparr>)"
| waited: "lf_main l = Wait_signal \<Longrightarrow> blockable sig \<Longrightarrow> life_step l (l\<lparr>lf_main := Handle sig\<rparr>)"
| killed: "open_thread l \<Longrightarrow> blockable sig \<Longrightarrow> \<not> over l \<Longrightarrow> life_step l (l\<lparr>lf_main := Killed sig\<rparr>)"
| pending: "\<not> open_thread l \<Longrightarrow> blockable sig \<Longrightarrow> lf_main l \<noteq> Wait_signal \<Longrightarrow> \<not> over l \<Longrightarrow>
    life_step l (l\<lparr>lf_pending := lf_pending l @ [sig]\<rparr>)"

definition life_start :: "int \<Rightarrow> life" where
  "life_start fd = \<lparr>lf_main = Enter_loop, lf_flags = Daemon_construct,
     lf_stop = \<lparr>um_fd = fd, um_stop = False\<rparr>, lf_mask = False, lf_bus = None,
     lf_thread = No_thread, lf_pending = []\<rparr>"

inductive life_reach :: "int \<Rightarrow> life \<Rightarrow> bool" for fd where
  first: "life_reach fd (life_start fd)"
| later: "life_reach fd l \<Longrightarrow> life_step l l' \<Longrightarrow> life_reach fd l'"

inductive_cases life_stepE: "life_step l l'"

text \<open>What holds in every state: the threads of the bus and of the monitor never block a signal,
  nothing is ever pending, and the stop is asked for once.\<close>

definition life_inv :: "life \<Rightarrow> bool" where
  "life_inv l \<longleftrightarrow>
     lf_bus l \<noteq> Some True \<and> lf_thread l \<noteq> Monitor_runs True \<and> lf_pending l = [] \<and>
     (lf_mask l \<longrightarrow> lf_bus l = Some False) \<and>
     (lf_thread l = Monitor_done \<longrightarrow> um_stop (lf_stop l)) \<and>
     (case lf_main l of
        Enter_loop \<Rightarrow> \<not> lf_mask l \<and> lf_bus l = None \<and> lf_thread l = No_thread \<and> \<not> um_stop (lf_stop l)
      | Start_monitor \<Rightarrow> \<not> lf_mask l \<and> lf_bus l = Some False \<and> lf_thread l = No_thread \<and> \<not> um_stop (lf_stop l)
      | Block_signals \<Rightarrow> \<not> lf_mask l \<and> lf_bus l = Some False \<and> lf_thread l \<noteq> No_thread \<and> \<not> um_stop (lf_stop l)
      | Stop_monitor \<Rightarrow> lf_mask l \<and> lf_thread l \<noteq> No_thread \<and> \<not> um_stop (lf_stop l) \<and> \<not> is_running (lf_flags l)
      | Join_monitor \<Rightarrow> lf_mask l \<and> lf_thread l \<noteq> No_thread \<and> um_stop (lf_stop l) \<and> \<not> is_running (lf_flags l)
      | Returned \<Rightarrow> lf_thread l = Monitor_done \<and> um_stop (lf_stop l) \<and> \<not> is_running (lf_flags l)
      | Killed sig \<Rightarrow> True
      | _ \<Rightarrow> lf_mask l \<and> lf_thread l \<noteq> No_thread \<and> \<not> um_stop (lf_stop l))"

lemma life_inv_start: "life_inv (life_start fd)"
  by (simp add: life_inv_def life_start_def)

lemma life_inv_main:
  assumes "life_inv l" and "main_step l = Some l'"
  shows "life_inv l'"
  using assms
  by (cases "lf_main l")
    (auto simp: life_inv_def main_step.simps UdevMonitor_Stop_def IsRunning_def Let_def
      split: if_splits list.splits prod.splits)

lemma life_inv_open: "life_inv l \<Longrightarrow> open_thread l"
  by (auto simp: life_inv_def open_thread_def)

lemma life_inv_step:
  assumes "life_step l l'" and "life_inv l"
  shows "life_inv l'"
  using assms(1)
proof (rule life_stepE)
  assume "main_step l = Some l'"
  with assms(2) show ?thesis by (rule life_inv_main)
next
  fix b
  assume "l' = l\<lparr>lf_thread := Monitor_done\<rparr>" "lf_thread l = Monitor_runs b" "StopRequested (lf_stop l)" "\<not> over l"
  then show ?thesis using assms(2)
    by (cases "lf_main l") (auto simp: life_inv_def StopRequested_def over_def)
next
  fix sig
  assume "\<not> open_thread l"
  with life_inv_open [OF assms(2)] show ?thesis by blast
qed (use assms(2) in \<open>auto simp: life_inv_def split: main_point.splits\<close>)

lemma life_reach_inv: "life_reach fd l \<Longrightarrow> life_inv l"
  by (induction rule: life_reach.induct) (auto intro: life_inv_start life_inv_step)

text \<open>A state that is not over has a step that brings it nearer to the end.\<close>

fun point_rank :: "bool \<Rightarrow> main_point \<Rightarrow> nat" where
  "point_rank up Enter_loop = 20"
| "point_rank up Start_monitor = 18"
| "point_rank up Block_signals = 16"
| "point_rank up (Handle sig) = (if up \<and> \<not> stops sig then 14 else 8)"
| "point_rank up Check_running = (if up then 12 else 6)"
| "point_rank up Wait_signal = 10"
| "point_rank up Stop_monitor = 4"
| "point_rank up Join_monitor = 2"
| "point_rank up _ = 0"

definition life_rank :: "life \<Rightarrow> nat" where
  "life_rank l = point_rank (is_running (lf_flags l)) (lf_main l) +
     (if lf_thread l = Monitor_done then 0 else 1)"

lemma main_step_rank:
  assumes "life_inv l" and "main_step l = Some l'"
  shows "life_rank l' < life_rank l"
proof (cases "lf_main l")
  case (Handle sig)
  with assms show ?thesis
    by (cases sig) (auto simp: life_rank_def main_step.simps stops_def)
qed (use assms in \<open>auto simp: life_rank_def life_inv_def main_step.simps IsRunning_def Let_def UdevMonitor_Stop_def
      split: if_splits\<close>)

lemma life_progress:
  assumes "life_inv l" and "\<not> over l"
  shows "\<exists>l'. life_step l l' \<and> life_rank l' < life_rank l \<and> (\<forall>sig. lf_main l' \<noteq> Killed sig)"
proof -
  consider (main) l' where "main_step l = Some l'"
    | (wait) "lf_main l = Wait_signal"
    | (join) "lf_main l = Join_monitor" "lf_thread l \<noteq> Monitor_done"
    using assms by (cases "lf_main l"; cases "lf_thread l = Monitor_done")
      (auto simp: main_step.simps over_def life_inv_def UdevMonitor_Stop_def IsRunning_def Let_def)
  then show ?thesis
  proof cases
    case main
    then have "lf_main l' \<noteq> Killed sig" for sig
      by (cases "lf_main l") (auto simp: main_step.simps split: if_splits list.splits prod.splits outcome.splits)
    with main main_step_rank [OF assms(1) main] show ?thesis by (blast intro: life_step.main)
  next
    case wait
    then have "life_step l (l\<lparr>lf_main := Handle SIGTERM\<rparr>)" by (simp add: life_step.waited blockable_def)
    then show ?thesis using wait by (intro exI conjI) (auto simp: life_rank_def stops_def)
  next
    case join
    then obtain b where b: "lf_thread l = Monitor_runs b"
      using assms(1) by (cases "lf_thread l") (auto simp: life_inv_def)
    have "life_step l (l\<lparr>lf_thread := Monitor_done\<rparr>)"
      by (rule life_step.monitor [OF b]) (use join assms in \<open>auto simp: life_inv_def StopRequested_def\<close>)
    then show ?thesis using join b by (intro exI conjI) (auto simp: life_rank_def)
  qed
qed

lemma life_ends:
  "life_inv l \<Longrightarrow> \<not> over l \<Longrightarrow> \<exists>l'. life_step\<^sup>*\<^sup>* l l' \<and> lf_main l' = Returned"
proof (induction "life_rank l" arbitrary: l rule: less_induct)
  case less
  then obtain l1 where l1: "life_step l l1" "life_rank l1 < life_rank l" "\<And>sig. lf_main l1 \<noteq> Killed sig"
    using life_progress by blast
  show ?case
  proof (cases "over l1")
    case True
    then have "lf_main l1 = Returned" using l1(3) by (auto simp: over_def split: main_point.splits)
    with l1(1) show ?thesis by blast
  next
    case False
    from less.hyps [OF l1(2) life_inv_step [OF l1(1) less.prems(1)] False]
    show ?thesis using l1(1) by (meson converse_rtranclp_into_rtranclp)
  qed
qed


text \<open>Three statements later the main thread waits for a signal.\<close>

definition waiting :: "int \<Rightarrow> life" where
  "waiting fd = \<lparr>lf_main = Wait_signal, lf_flags = Daemon_construct,
     lf_stop = \<lparr>um_fd = fd, um_stop = False\<rparr>, lf_mask = True, lf_bus = Some False,
     lf_thread = Monitor_runs False, lf_pending = []\<rparr>"

lemma waiting_reached: "life_reach fd (waiting fd)"
proof -
  note later = life_reach.later [OF _ life_step.main]
  define a b c where "a = (life_start fd)\<lparr>lf_bus := Some False, lf_main := Start_monitor\<rparr>"
    and "b = a\<lparr>lf_thread := Monitor_runs False, lf_main := Block_signals\<rparr>"
    and "c = b\<lparr>lf_mask := True, lf_main := Check_running\<rparr>"
  have "life_reach fd a" by (rule later [OF life_reach.first]) (simp add: main_step.simps life_start_def a_def)
  then have "life_reach fd b" by (rule later) (simp add: main_step.simps life_start_def a_def b_def)
  then have "life_reach fd c" by (rule later) (simp add: main_step.simps life_start_def a_def b_def c_def)
  then show ?thesis
    by (rule later) (simp add: main_step.simps life_start_def a_def b_def c_def waiting_def
        IsRunning_def Daemon_construct_def Let_def)
qed




end
