(* ===== verification/Durable_Tables.thy ===== *)
theory Durable_Tables
  imports Daemon_Start
begin

text \<open>
  The tables on disk. Whatever calls the daemon answers, its two files hold the text of the two
  tables, except for the rules while a transaction is open; and a daemon that is started on
  these files has the same tables again. The hypotheses on the outside are that writing succeeds
  and that no other call changes these two files.
\<close>

section \<open>The files\<close>

type_synonym 'w file_view = "'w \<Rightarrow> string option \<times> string option"

definition rules_text :: "'w os \<Rightarrow> PermissionEntry table \<Rightarrow> string" where
  "rules_text os t = json_serialize os (Table_to_json PermissionEntry_to_json t)"

definition mounts_text :: "'w os \<Rightarrow> MountEntry table \<Rightarrow> string" where
  "mounts_text os t = json_serialize os (Table_to_json MountEntry_to_json t)"

definition stays :: "'w file_view \<Rightarrow> ('w \<Rightarrow> 'a \<times> 'w) \<Rightarrow> bool" where
  "stays g f \<longleftrightarrow> (\<forall>w. g (snd (f w)) = g w)"

text \<open>The view gives the contents of the file of the rules and of the file of the mount points.\<close>

definition written :: "'w os \<Rightarrow> 'w file_view \<Rightarrow> bool" where
  "written os g \<longleftrightarrow>
     (\<forall>s w. \<exists>w'. fio_write os permissions_path s w = (True, w') \<and> g w' = (Some s, snd (g w))) \<and>
     (\<forall>s w. \<exists>w'. fio_write os mount_points_path s w = (True, w') \<and> g w' = (fst (g w), Some s))"

definition private_files :: "'w os \<Rightarrow> ('w, 'a) libacl \<Rightarrow> 'w file_view \<Rightarrow> bool" where
  "private_files os lib g \<longleftrightarrow> written os g \<and>
     (\<forall>p. stays g (fio_exists os p)) \<and> (\<forall>p. stays g (fio_create_directories os p)) \<and>
     (\<forall>p. stays g (fio_read os p)) \<and> (\<forall>p. stays g (os_is_directory os p)) \<and>
     (\<forall>p. stays g (os_is_empty os p)) \<and> (\<forall>p. stays g (os_list_dir os p)) \<and>
     (\<forall>p. stays g (os_remove os p)) \<and> (\<forall>p. stays g (os_create_directory os p)) \<and>
     (\<forall>p m. stays g (os_chmod os p m)) \<and> (\<forall>p u v. stays g (os_chown os p u v)) \<and>
     (\<forall>u. stays g (os_getpwuid os u)) \<and> (\<forall>u. stays g (os_getgrgid os u)) \<and>
     stays g (os_mtab os) \<and> (\<forall>d t fs fl data. stays g (os_mount os d t fs fl data)) \<and>
     (\<forall>t. stays g (os_umount2 os t)) \<and> stays g (os_udev_scan os) \<and>
     (\<forall>p. stays g (os_udev_from_syspath os p)) \<and> stays g (os_udev_receive os) \<and>
     (\<forall>p. stays g (acl_get_file lib p)) \<and> (\<forall>p a. stays g (acl_set_file lib p a))"

lemma private_calls:
  assumes "private_files os lib g"
  shows "stays g (fio_exists os p)" "stays g (fio_create_directories os p)" "stays g (fio_read os p)"
    "stays g (os_is_directory os p)" "stays g (os_is_empty os p)" "stays g (os_list_dir os p)"
    "stays g (os_remove os p)" "stays g (os_create_directory os p)" "stays g (os_chmod os p m)"
    "stays g (os_chown os p u v)" "stays g (os_getpwuid os u)" "stays g (os_getgrgid os u)"
    "stays g (os_mtab os)" "stays g (os_mount os d t fs fl data)" "stays g (os_umount2 os t)"
    "stays g (os_udev_scan os)" "stays g (os_udev_from_syspath os p)" "stays g (os_udev_receive os)"
    "stays g (acl_get_file lib p)" "stays g (acl_set_file lib p a)" "written os g"
  using assms by (simp_all add: private_files_def)

lemma staysD: "stays g f \<Longrightarrow> f w = (r, w') \<Longrightarrow> g w' = g w"
  unfolding stays_def by (metis snd_conv)

lemma stays_ret: "stays g (ret a)"
  and stays_fail: "stays g (fail e)"
  and stays_liftO: "stays g (liftO r)"
  by (simp_all add: stays_def)

lemma stays_bindp: "stays g m \<Longrightarrow> (\<And>a. stays g (k a)) \<Longrightarrow> stays g (bindp m k)"
  and stays_tryp: "stays g m \<Longrightarrow> stays g h \<Longrightarrow> stays g (tryp m h)"
  unfolding stays_def bindp_def tryp_def
  by (auto split: prod.splits outcome.splits failure.splits) (metis snd_conv)+

lemma stays_if: "(b \<Longrightarrow> stays g m) \<Longrightarrow> (\<not> b \<Longrightarrow> stays g n) \<Longrightarrow> stays g (if b then m else n)"
  by simp

lemma stays_option:
  "(x = None \<Longrightarrow> stays g m) \<Longrightarrow> (\<And>a. x = Some a \<Longrightarrow> stays g (f a)) \<Longrightarrow>
   stays g (case x of None \<Rightarrow> m | Some a \<Rightarrow> f a)"
  by (simp split: option.splits)

lemma stays_hangp: "(\<And>w r w'. f w = Some (r, w') \<Longrightarrow> g w' = g w) \<Longrightarrow> stays g (hangp f)"
  by (auto simp: stays_def hangp_def split: option.splits prod.splits)

lemmas stays_rules = stays_ret stays_fail stays_liftO stays_bindp stays_tryp stays_if stays_option

section \<open>Calls that leave the files alone\<close>

lemma find_udev_loop_stays:
  assumes "find_udev_loop os name entries w = Some (r, w')" and "\<And>p. stays g (os_udev_from_syspath os p)"
  shows "g w' = g w"
proof -
  have "\<forall>r w'. y = (r, w') \<longrightarrow> (\<forall>p. stays g (os_udev_from_syspath os p)) \<longrightarrow> g w' = g w"
    if "find_udev_loop os name entries w = Some y" for os :: "'a os" and name entries w y
    using that
    by (rule find_udev_loop.raw_induct [rotated])
      (auto simp: stays_def split: list.splits option.splits prod.splits if_splits, (metis snd_conv)+)
  with assms show ?thesis by blast
qed

lemma connected_loop_stays:
  assumes "connected_loop os entries res w = Some (r, w')" and "\<And>p. stays g (os_udev_from_syspath os p)"
  shows "g w' = g w"
proof -
  have "\<forall>r w'. y = (r, w') \<longrightarrow> (\<forall>p. stays g (os_udev_from_syspath os p)) \<longrightarrow> g w' = g w"
    if "connected_loop os entries res w = Some y" for os :: "'a os" and entries res w y
    using that
    by (rule connected_loop.raw_induct [rotated])
      (auto simp: stays_def split: list.splits option.splits prod.splits outcome.splits, (metis snd_conv)+)
  with assms show ?thesis by blast
qed

lemma endpoint_loop_stays:
  assumes "endpoint_loop os index endpoint w = Some (r, w')" and "\<And>p. stays g (occupied os p)"
  shows "g w' = g w"
proof -
  have "\<forall>r w'. y = (r, w') \<longrightarrow> (\<forall>p. stays g (occupied os p)) \<longrightarrow> g w' = g w"
    if "endpoint_loop os index endpoint w = Some y" for os :: "'a os" and index endpoint w y
    using that
    by (rule endpoint_loop.raw_induct [rotated])
      (auto simp: stays_def split: prod.splits outcome.splits if_splits, (metis snd_conv)+)
  with assms show ?thesis by blast
qed

lemma private_programs:
  assumes "private_files os lib g"
  shows "stays g (UsbUdevDevice_of_params os dev action)" "stays g (GetConnectedDevices os)"
    "stays g (endpoint_name os folder d)" "stays g (hangp (endpoint_loop os i name))"
    "stays g (GetSystemUidMinMax os)" "stays g (GetHumanUsers os ids)" "stays g (GetHumanGroups os ids)"
proof -
  note calls = private_calls [OF assms]
  have scan: "stays g (\<lambda>w. case os_udev_scan os w of (None, w') \<Rightarrow> (f, w') | (Some es, w') \<Rightarrow> m es w')"
    if "\<And>es. stays g (m es)" for f and m :: "string option list \<Rightarrow> 'a \<Rightarrow> 'c outcome \<times> 'a"
    using that calls(16) unfolding stays_def
    by (auto split: prod.splits option.splits) (metis snd_conv)+
  have "stays g (hangp (find_udev_loop os name es))" for name es
    by (rule stays_hangp) (erule find_udev_loop_stays, rule calls(17))
  then have "stays g (FindUdevDeviceByBlockName os name)" for name
    unfolding FindUdevDeviceByBlockName_def by (rule scan)
  then show "stays g (UsbUdevDevice_of_params os dev action)"
    unfolding UsbUdevDevice_of_params_def Let_def by (intro stays_rules)
  have "stays g (hangp (connected_loop os es []))" for es
    by (rule stays_hangp) (erule connected_loop_stays, rule calls(17))
  then show "stays g (GetConnectedDevices os)" unfolding GetConnectedDevices_def by (rule scan)
  show "stays g (endpoint_name os folder d)"
    unfolding endpoint_name_def by (intro stays_rules calls)
  have "stays g (occupied os p)" for p unfolding occupied_def by (intro stays_rules calls)
  then show "stays g (hangp (endpoint_loop os i name))"
    by (intro stays_hangp) (erule endpoint_loop_stays, assumption)
  have "stays g (\<lambda>w. case fio_read os p w of (r, w') \<Rightarrow> (Ok (map_option getlines r), w'))" for p
    using calls(3) [of p] by (simp add: stays_def split_beta)
  then have lines: "stays g (open_lines os p)" for p
    unfolding open_lines_def by (intro stays_rules calls)
  show "stays g (GetSystemUidMinMax os)" "stays g (GetHumanUsers os ids)" "stays g (GetHumanGroups os ids)"
    unfolding GetSystemUidMinMax_def GetHumanUsers_def GetHumanGroups_def GetPossibleShells_def
    by (intro stays_rules lines)+
qed

section \<open>The tables and their files\<close>

definition mounts_synced :: "'w os \<Rightarrow> 'w file_view \<Rightarrow> MountEntry table \<times> 'w \<Rightarrow> bool" where
  "mounts_synced os g = (\<lambda>(t, w). mounts_inv t \<and> tbl_path t = mount_points_path \<and> \<not> tbl_started t \<and>
     snd (g w) = Some (mounts_text os t))"

definition perms_synced :: "'w os \<Rightarrow> 'w file_view \<Rightarrow> PermissionEntry table \<times> 'w \<Rightarrow> bool" where
  "perms_synced os g = (\<lambda>(t, w). table_inv t \<and> tbl_path t = permissions_path \<and>
     (\<not> tbl_started t \<longrightarrow> fst (g w) = Some (rules_text os t)))"

definition durable :: "'w os \<Rightarrow> 'w file_view \<Rightarrow> 'w daemon \<Rightarrow> bool" where
  "durable os g s \<longleftrightarrow> perms_synced os g (st_perms s, st_world s) \<and> mounts_synced os g (st_mounts s, st_world s)"

lemma durable_on_world: "stays g m \<Longrightarrow> keeps (durable os g) (on_world m)"
  by (simp add: keeps_def durable_def perms_synced_def mounts_synced_def on_world_run stays_def)

lemma durable_os_call: "stays g f \<Longrightarrow> keeps (durable os g) (os_call f)"
  by (simp add: keeps_def durable_def perms_synced_def mounts_synced_def os_call_run stays_def)

lemma durable_emit: "keeps (durable os g) (emit ev)"
  by (simp add: keeps_def durable_def)

lemma durable_on_mounts:
  assumes "\<And>t w. mounts_synced os g (t, w) \<Longrightarrow>
    mounts_synced os g (snd (m (t, w))) \<and> fst (g (snd (snd (m (t, w))))) = fst (g w)"
  shows "keeps (durable os g) (on_mounts m)"
  using assms unfolding keeps_def durable_def on_mounts_def
  by (auto split: prod.splits simp: perms_synced_def) (metis snd_conv)+

lemma durable_on_perms:
  assumes "\<And>t w. perms_synced os g (t, w) \<Longrightarrow>
    perms_synced os g (snd (m (t, w))) \<and> snd (g (snd (snd (m (t, w))))) = snd (g w)"
  shows "keeps (durable os g) (on_perms m)"
  using assms unfolding keeps_def durable_def on_perms_def
  by (auto split: prod.splits simp: mounts_synced_def) (metis snd_conv)+

lemma mounts_commit:
  assumes "written os g" and "mounts_inv t" and "tbl_path t = mount_points_path" and "\<not> tbl_started t"
  shows "\<exists>w'. commit os MountEntry_to_json (t, w) = (Ok (), (t, w')) \<and> mounts_synced os g (t, w') \<and>
    fst (g w') = fst (g w)"
proof -
  obtain w' where "fio_write os mount_points_path (mounts_text os t) w = (True, w')"
    "g w' = (fst (g w), Some (mounts_text os t))"
    using assms(1) unfolding written_def by blast
  then show ?thesis using assms(2-4)
    by (simp add: commit_run mounts_inv_table mounts_synced_def mounts_text_def)
qed

lemma perms_commit:
  assumes "written os g" and "table_inv t" and "tbl_path t = permissions_path"
  shows "\<exists>w'. commit os PermissionEntry_to_json (t, w) = (Ok (), (t, w')) \<and> perms_synced os g (t, w') \<and>
    snd (g w') = snd (g w)"
proof (cases "tbl_started t")
  case False
  obtain w' where "fio_write os permissions_path (rules_text os t) w = (True, w')"
    "g w' = (Some (rules_text os t), snd (g w))"
    using assms(1) unfolding written_def by blast
  then show ?thesis using assms(2,3) False
    by (simp add: commit_run perms_synced_def rules_text_def)
qed (use assms in \<open>simp add: commit_run perms_synced_def\<close>)

lemma durable_mount_ops:
  assumes "written os g"
  shows "keeps (durable os g) (on_mounts (Mountpoints_Create os e))"
    "keeps (durable os g) (on_mounts (Mountpoints_RemoveExpired os vs))"
    "keeps (durable os g) (on_mounts (Mountpoints_Delete os k))"
    "keeps (durable os g) (on_mounts (Mountpoints_Find_entry e))"
    "keeps (durable os g) (on_mounts (Mountpoints_Find_dev d))"
    "keeps (durable os g) (on_mounts (Mountpoints_Read i))"
    "keeps (durable os g) (on_mounts Mountpoints_GetAll)"
proof -
  have change: "mounts_synced os g (snd (commit os MountEntry_to_json (t\<lparr>tbl_data := m\<rparr>, w))) \<and>
      fst (g (snd (snd (commit os MountEntry_to_json (t\<lparr>tbl_data := m\<rparr>, w))))) = fst (g w)"
    if "mounts_synced os g (t, w)" "smap_inv m" "distinct (map snd m)" for t w m
    using mounts_commit [OF assms, of "t\<lparr>tbl_data := m\<rparr>" w] that
    by (auto simp: mounts_synced_def mounts_inv_def)
  note inv = mounts_synced_def mounts_inv_def
  show "keeps (durable os g) (on_mounts (Mountpoints_Create os e))"
  proof (rule durable_on_mounts)
    fix t w
    assume s: "mounts_synced os g (t, w)"
    then have t: "table_inv t" "distinct (map snd (tbl_data t))" by (simp_all add: inv)
    show "mounts_synced os g (snd (Mountpoints_Create os e (t, w))) \<and>
        fst (g (snd (snd (Mountpoints_Create os e (t, w))))) = fst (g w)"
      using change [OF s, of "append_row e (tbl_data t)"] s t
      by (auto simp: Mountpoints_Create_run append_row_inv table_invD intro: distinct_append_row)
  qed
  show "keeps (durable os g) (on_mounts (Mountpoints_Delete os k))"
  proof (rule durable_on_mounts)
    fix t w
    assume s: "mounts_synced os g (t, w)"
    then have t: "table_inv t" "distinct (map snd (tbl_data t))" by (simp_all add: inv)
    have "smap_inv (smap_erase k (tbl_data t))" "distinct (map snd (smap_erase k (tbl_data t)))"
      using t by (simp_all add: smap_inv_erase table_invD, simp add: smap_erase_def distinct_map_filter_snd)
    from change [OF s this] t show "mounts_synced os g (snd (Mountpoints_Delete os k (t, w))) \<and>
        fst (g (snd (snd (Mountpoints_Delete os k (t, w))))) = fst (g w)"
      by (simp add: Mountpoints_Delete_def Delete_run)
  qed
  show "keeps (durable os g) (on_mounts (Mountpoints_RemoveExpired os vs))"
  proof (rule durable_on_mounts)
    fix t w
    assume s: "mounts_synced os g (t, w)"
    let ?t = "t\<lparr>tbl_data := erase_expired vs (tbl_data t)\<rparr>"
    have t: "mounts_inv ?t" "table_inv t" using s
      by (auto simp: inv erase_expired_filter smap_inv_filter distinct_map_filter_snd table_invD)
    obtain w' where "commit os MountEntry_to_json (?t, w) = (Ok (), (?t, w'))"
      "mounts_synced os g (?t, w')" "fst (g w') = fst (g w)"
      using mounts_commit [OF assms t(1)] s by (auto simp: inv)
    then show "mounts_synced os g (snd (Mountpoints_RemoveExpired os vs (t, w))) \<and>
        fst (g (snd (snd (Mountpoints_RemoveExpired os vs (t, w))))) = fst (g w)"
      by (simp add: Mountpoints_RemoveExpired_run [OF t(2)])
  qed
  show "keeps (durable os g) (on_mounts (Mountpoints_Find_entry e))"
    "keeps (durable os g) (on_mounts (Mountpoints_Find_dev d))"
    "keeps (durable os g) (on_mounts (Mountpoints_Read i))"
    "keeps (durable os g) (on_mounts Mountpoints_GetAll)"
    by (rule durable_on_mounts; auto simp: inv Mountpoints_Find_entry_run Mountpoints_Find_dev_run
        Mountpoints_GetAll_run Mountpoints_Read_def Read_run)+
qed

lemma durable_rule_ops:
  assumes "written os g"
  shows "keeps (durable os g) (on_perms (crud_prog os op))"
    "keeps (durable os g) (on_perms (DevicePermissions_ProcessTransaction os))"
    "keeps (durable os g) (on_perms StartTransaction)"
    "keeps (durable os g) (on_perms DevicePermissions_getAll)"
    "keeps (durable os g) (on_perms (DevicePermissions_Find d))"
    "keeps (durable os g) (on_perms (DevicePermissions_Read k))"
proof -
  show "keeps (durable os g) (on_perms (crud_prog os op))"
  proof (rule durable_on_perms)
    fix t w
    assume s: "perms_synced os g (t, w)"
    let ?t = "t\<lparr>tbl_data := crud_rows op (tbl_data t)\<rparr>"
    have t: "table_inv t" using s by (simp add: perms_synced_def)
    obtain w' where "commit os PermissionEntry_to_json (?t, w) = (Ok (), (?t, w'))"
      "perms_synced os g (?t, w')" "snd (g w') = snd (g w)"
      using perms_commit [OF assms, of ?t w] s t by (auto simp: perms_synced_def crud_rows_inv table_invD)
    with s t show "perms_synced os g (snd (crud_prog os op (t, w))) \<and>
        snd (g (snd (snd (crud_prog os op (t, w))))) = snd (g w)"
      by (auto simp: crud_prog_run)
  qed
  show "keeps (durable os g) (on_perms (DevicePermissions_ProcessTransaction os))"
  proof (rule durable_on_perms)
    fix t w
    assume s: "perms_synced os g (t, w)"
    then have t: "table_inv t" by (simp add: perms_synced_def)
    obtain w' where w': "fio_write os permissions_path (rules_text os t) w = (True, w')"
      "g w' = (Some (rules_text os t), snd (g w))"
      using assms unfolding written_def by blast
    show "perms_synced os g (snd (DevicePermissions_ProcessTransaction os (t, w))) \<and>
        snd (g (snd (snd (DevicePermissions_ProcessTransaction os (t, w))))) = snd (g w)"
    proof (cases "tbl_started t")
      case True
      show ?thesis using s w' t
        by (auto simp: DevicePermissions_ProcessTransaction_def ProcessTransaction_run [OF t True]
            perms_synced_def rules_text_def closed_def table_inv_def Table_to_json_def)
    next
      case False
      have c: "table_inv (t\<lparr>tbl_clone := tbl_data t\<rparr>)" using t by (simp add: table_inv_def)
      have j: "Table_to_json PermissionEntry_to_json (t\<lparr>tbl_clone := tbl_data t\<rparr>) =
          Table_to_json PermissionEntry_to_json t" by (simp add: Table_to_json_def)
      show ?thesis using s w' t False c j
        by (auto simp: DevicePermissions_ProcessTransaction_def ProcessTransaction_def DeepDataClone_run
            WriteRaw_run end_transaction_def perms_synced_def rules_text_def table_inv_def)
    qed
  qed
  show "keeps (durable os g) (on_perms StartTransaction)"
    by (rule durable_on_perms) (auto simp: perms_synced_def StartTransaction_run table_inv_def)
  show "keeps (durable os g) (on_perms DevicePermissions_getAll)"
    "keeps (durable os g) (on_perms (DevicePermissions_Find d))"
    "keeps (durable os g) (on_perms (DevicePermissions_Read k))"
    by (rule durable_on_perms; auto simp: perms_synced_def DevicePermissions_getAll_def
        DevicePermissions_Find_def DevicePermissions_Read_def Read_run)+
qed

section \<open>Every call keeps the files\<close>

lemma durable_rows:
  assumes "written os g"
  shows "keeps (durable os g) (on_perms (DevicePermissions_Create os e))"
    "keeps (durable os g) (on_perms (DevicePermissions_Update os k e))"
    "keeps (durable os g) (on_perms (DevicePermissions_Delete os k))"
  using durable_rule_ops(1) [OF assms, of "CreateRow e"] durable_rule_ops(1) [OF assms, of "UpdateRow k e"]
    durable_rule_ops(1) [OF assms, of "DeleteRow k"] by simp_all

lemma durable_calls:
  assumes "private_files os lib g"
  shows "keeps (durable os g) (SetAcl lib u v p)" "keeps (durable os g) (RemoveMountPoint os p)"
    "keeps (durable os g) (ReviewMountPoints os)" "keeps (durable os g) (GetSystemMountedDevices os)"
proof -
  note calls = private_calls [OF assms]
  note rules = keeps_rules durable_emit durable_on_world durable_os_call durable_mount_ops [OF calls(21)] calls
  show "keeps (durable os g) (SetAcl lib u v p)" unfolding SetAcl_def by (intro rules)
  show "keeps (durable os g) (RemoveMountPoint os p)" unfolding RemoveMountPoint_def by (intro rules)
  show "keeps (durable os g) (ReviewMountPoints os)"
    unfolding ReviewMountPoints_def GetSystemMountPoints_def review_folder_def review_sub_def by (intro rules)
  show "keeps (durable os g) (GetSystemMountedDevices os)" unfolding GetSystemMountedDevices_def by (intro rules)
qed

lemma durable_Mount:
  assumes "private_files os lib g"
  shows "keeps (durable os g) (Mount os lib cm)" "keeps (durable os g) (UnMount os d)"
proof -
  note calls = private_calls [OF assms]
  note rules = keeps_rules durable_emit durable_on_world durable_os_call durable_calls [OF assms]
    durable_mount_ops [OF calls(21)] durable_rule_ops [OF calls(21)] calls private_programs [OF assms]
  have "keeps (durable os g) (mount_for os lib cm')" for cm'
    unfolding mount_for_def CreateAclMountPoint_def CreateMountEndpoint_def PerfomMount_def
      mount_call_def save_mount_def by (intro rules)
  then show "keeps (durable os g) (Mount os lib cm)"
    unfolding Mount_def by (intro rules) (auto split: list.splits intro: keeps_rules)
  show "keeps (durable os g) (UnMount os d)" unfolding UnMount_def forget_mount_def by (intro rules)
qed

lemma durable_run_call:
  assumes "private_files os lib g"
  shows "keeps (durable os g) (run_call os lib c)"
proof -
  note calls = private_calls [OF assms]
  note rules = keeps_rules durable_emit durable_on_world durable_os_call durable_calls [OF assms]
    durable_Mount [OF assms] durable_mount_ops [OF calls(21)] durable_rule_ops [OF calls(21)]
    durable_rows [OF calls(21)] calls private_programs [OF assms]
  have review: "keeps (durable os g) (ReviewConnectedDevices os)"
    unfolding ReviewConnectedDevices_def review_row_def by (intro rules)
  have device: "keeps (durable os g) (ProcessDevice os lib d)" for d
    unfolding ProcessDevice_def MountDevice_def by (intro rules)
  have event: "keeps (durable os g) (ProcessEvent os lib)"
    unfolding ProcessEvent_def RecieveDevice_def by (intro rules device)
  have apply_rules: "keeps (durable os g) (ApplyMountRulesIfNotMounted os lib)"
    unfolding ApplyMountRulesIfNotMounted_def apply_rule_def by (intro rules device)
  have form: "keeps (durable os g) (apply_form os obj)" for obj
    unfolding apply_form_def delete_rule_def UpdateRules_def update_rule_def CreateRules_def
      create_rule_def system_accounts_def by (intro rules)
  have listed: "keeps (durable os g) (list_devices devs)" for devs
    by (induction devs) (unfold list_devices.simps list_device_def, (intro rules; assumption)+)
  show ?thesis
  proof (cases c)
    case (Call_save form)
    then show ?thesis by (simp add: SaveRules_def) (intro rules form)
  next
    case Call_list_devices
    then show ?thesis by (simp add: ListActiveDevices_def) (intro rules listed)
  qed (simp_all, (intro rules review event apply_rules |
      (unfold CanAnotherUserUnmount_def CanUserMount_def ListActiveRules_def GetSystemUsersAndGroups_def,
        intro rules))+)
qed

section \<open>Starting on the files\<close>

lemma file_keeps_read:
  assumes "private_files os lib g" and "file_keeps os p s w"
  shows "\<exists>w'. Table_construct os (new_table p :: 'e table, w) = (Ok (), ((new_table p)\<lparr>tbl_raw := s\<rparr>, w')) \<and> g w' = g w"
proof -
  obtain w1 w2 where e: "fio_exists os p w = (Ok True, w1)" "fio_exists os p w1 = (Ok True, w2)"
    "fst (fio_read os p w2) = Some s"
    using assms(2) by (auto simp: file_keeps_def)
  moreover obtain w3 where r: "fio_read os p w2 = (Some s, w3)" using e(3) by (cases "fio_read os p w2") auto
  moreover have "g w3 = g w"
    using staysD [OF private_calls(1) [OF assms(1)] e(1)] staysD [OF private_calls(1) [OF assms(1)] e(2)]
      staysD [OF private_calls(3) [OF assms(1)] r] by simp
  ultimately show ?thesis by (auto simp: Table_construct_def ReadRaw_def new_table_def)
qed

text \<open>A file that the view shows can be read.\<close>

definition readable :: "'w os \<Rightarrow> 'w file_view \<Rightarrow> bool" where
  "readable os g \<longleftrightarrow> (\<forall>w s. (fst (g w) = Some s \<longrightarrow> file_keeps os permissions_path s w) \<and>
     (snd (g w) = Some s \<longrightarrow> file_keeps os mount_points_path s w))"

text \<open>The rows that can be read back: no NUL in a string, no key with the 64th bit.\<close>

definition rows_ok :: "'w daemon \<Rightarrow> bool" where
  "rows_ok s \<longleftrightarrow>
     (\<forall>(k, e) \<in> set (tbl_data (st_perms s)). PermissionEntry_wf e \<and> unat k < 2 ^ 63) \<and>
     (\<forall>(k, e) \<in> set (tbl_data (st_mounts s)). MountEntry_wf e)"

definition json_ok :: "'w os \<Rightarrow> 'w daemon \<Rightarrow> bool" where
  "json_ok os s \<longleftrightarrow>
     json_io (json_parse os) (json_serialize os) (Table_to_json PermissionEntry_to_json (st_perms s)) \<and>
     json_io (json_parse os) (json_serialize os) (Table_to_json MountEntry_to_json (st_mounts s))"

lemma perms_reload:
  assumes "private_files os lib g" and "readable os g" and "perms_synced os g (t, w)" and "\<not> tbl_started t"
    and "\<And>k e. (k, e) \<in> set (tbl_data t) \<Longrightarrow> PermissionEntry_wf e \<and> unat k < 2 ^ 63"
    and "json_io (json_parse os) (json_serialize os) (Table_to_json PermissionEntry_to_json t)"
  shows "\<exists>t' w'. DevicePermissions_construct os (new_table permissions_path, w) = (Ok (), (t', w')) \<and>
    tbl_data t' = tbl_data t \<and> perms_synced os g (t', w') \<and> \<not> tbl_started t' \<and> g w' = g w"
proof -
  let ?p = permissions_path and ?s = "rules_text os t"
  have t: "table_inv t" "fst (g w) = Some ?s" using assms(3,4) by (simp_all add: perms_synced_def)
  with assms(2) have "file_keeps os ?p ?s w" by (simp add: readable_def)
  from file_keeps_read [OF assms(1) this] obtain w' where
    c: "Table_construct os (new_table ?p :: PermissionEntry table, w) = (Ok (), ((new_table ?p)\<lparr>tbl_raw := ?s\<rparr>, w'))"
    "g w' = g w" by blast
  let ?t = "(new_table ?p)\<lparr>tbl_raw := ?s, tbl_data := tbl_data t\<rparr>"
  have "DataFromRawJson os permission_row_ok PermissionEntry_of_json ((new_table ?p)\<lparr>tbl_raw := ?s\<rparr>, w') =
      (Ok (), (?t, w'))"
    using assms(5,6) t(1) by (subst permission_rows.load_serialized [of t]) (force simp: new_table_def rules_text_def)+
  with c have "DevicePermissions_construct os (new_table ?p, w) = (Ok (), (?t, w'))"
    by (simp add: DevicePermissions_construct_def DevicePermissions_DataFromRawJson_def bindp_def)
  moreover have "perms_synced os g (?t, w')" "\<not> tbl_started ?t"
    using t c(2) by (simp_all add: perms_synced_def table_inv_def new_table_def smap_inv_def rules_text_def
        Table_to_json_def)
  ultimately show ?thesis using c(2) by (intro exI [of _ ?t] exI [of _ w']) simp
qed

lemma mounts_reload:
  assumes "private_files os lib g" and "readable os g" and "mounts_synced os g (t, w)"
    and "\<And>k e. (k, e) \<in> set (tbl_data t) \<Longrightarrow> MountEntry_wf e"
    and "json_io (json_parse os) (json_serialize os) (Table_to_json MountEntry_to_json t)"
  shows "\<exists>t' w'. Mountpoints_construct os (new_table mount_points_path, w) = (Ok (), (t', w')) \<and>
    tbl_data t' = tbl_data t \<and> mounts_synced os g (t', w') \<and> g w' = g w"
proof -
  let ?p = mount_points_path and ?s = "mounts_text os t"
  have t: "table_inv t" "distinct (map snd (tbl_data t))" "snd (g w) = Some ?s"
    using assms(3) by (simp_all add: mounts_synced_def mounts_inv_def)
  with assms(2) have "file_keeps os ?p ?s w" by (simp add: readable_def)
  from file_keeps_read [OF assms(1) this] obtain w' where
    c: "Table_construct os (new_table ?p :: MountEntry table, w) = (Ok (), ((new_table ?p)\<lparr>tbl_raw := ?s\<rparr>, w'))"
    "g w' = g w" by blast
  let ?t = "(new_table ?p)\<lparr>tbl_raw := ?s, tbl_data := tbl_data t\<rparr>"
  have "DataFromRawJson os mount_row_ok MountEntry_of_json ((new_table ?p)\<lparr>tbl_raw := ?s\<rparr>, w') =
      (Ok (), (?t, w'))"
    using assms(4,5) t(1) by (subst mount_rows.load_serialized [of t]) (force simp: new_table_def mounts_text_def)+
  with c have "Mountpoints_construct os (new_table ?p, w) = (Ok (), (?t, w'))"
    by (simp add: Mountpoints_construct_def Mountpoints_DataFromRawJson_def bindp_def)
  moreover have "mounts_synced os g (?t, w')"
    using t c(2) by (simp add: mounts_synced_def mounts_inv_def table_inv_def new_table_def smap_inv_def
        mounts_text_def Table_to_json_def)
  ultimately show ?thesis using c(2) by (intro exI [of _ ?t] exI [of _ w']) simp
qed

lemma durable_reachable:
  assumes "private_files os lib g" and "reachable os lib s0 s" and "durable os g s0"
  shows "durable os g s"
  using durable_run_call [OF assms(1)] assms(2,3) by (rule reachable_keeps)

section \<open>Properties\<close>


text \<open>
  A system that serializes two values, a start with both files in place, and a review while
  \<^verbatim>\<open>/etc/mtab\<close> cannot be read, which empties the table of mount points and its file.
\<close>

definition store_os :: "sample_world os" where
  "store_os = (sample_os JNull)\<lparr>
     json_serialize := \<lambda>v. if v = Table_to_json PermissionEntry_to_json sample_permissions then ''rules''
       else if v = JArray [] then ''none'' else ''other'',
     json_parse := \<lambda>s. if s = ''rules'' then Some (reparse (Table_to_json PermissionEntry_to_json sample_permissions))
       else if s = ''none'' then Some (reparse (JArray [])) else None\<rparr>"

definition store_view :: "sample_world file_view" where
  "store_view w = (sw_files w permissions_path, sw_files w mount_points_path)"

definition store_world :: sample_world where
  "store_world = empty_world\<lparr>sw_files := [permissions_path \<mapsto> ''rules'', mount_points_path \<mapsto> ''other'']\<rparr>"

lemma rules_not_empty: "Table_to_json PermissionEntry_to_json sample_permissions \<noteq> JArray []"
  by (simp add: Table_to_json_def sample_permissions_def)

lemma store_private: "private_files store_os list_libacl store_view"
  using paths_differ
  by (simp add: private_files_def written_def stays_def store_os_def store_view_def list_libacl_def)

lemma store_readable: "readable store_os store_view"
  by (simp add: readable_def file_keeps_def store_os_def store_view_def)

lemma store_start: "durable store_os store_view (sample_daemon store_world)"
proof -
  have "Table_to_json MountEntry_to_json sample_mounts \<noteq> Table_to_json PermissionEntry_to_json sample_permissions"
    by (simp add: Table_to_json_def sample_mounts_def sample_permissions_def MountEntry_to_json_def
        PermissionEntry_to_json_def)
  moreover have "Table_to_json MountEntry_to_json sample_mounts \<noteq> JArray []"
    by (simp add: Table_to_json_def sample_mounts_def)
  moreover have "tbl_path sample_permissions = permissions_path" "tbl_path sample_mounts = mount_points_path"
    "\<not> tbl_started sample_mounts"
    by (simp_all add: sample_permissions_def sample_mounts_def new_table_def mount_points_path_def)
  ultimately show ?thesis using paths_differ
    by (simp add: durable_def perms_synced_def mounts_synced_def store_world_def store_view_def
        rules_text_def mounts_text_def store_os_def sample_permissions_inv sample_mounts_inv)
qed

lemma store_review:
  "\<exists>s. reachable store_os list_libacl (sample_daemon store_world) s \<and>
     st_perms s = sample_permissions \<and> tbl_data (st_mounts s) = []"
proof -
  have "smap_inv []" by (simp add: smap_inv_def)
  then have inv: "table_inv (sample_mounts\<lparr>tbl_data := erase_expired [] (tbl_data sample_mounts)\<rparr>)"
    "table_inv sample_mounts"
    using sample_mounts_inv
    by (auto simp: mounts_inv_def erase_expired_filter smap_inv_filter table_invD intro: table_inv_upd_data)
  have "\<exists>s. ReviewConnectedDevices store_os (sample_daemon store_world) = (Ok (), s) \<and>
      st_perms s = sample_permissions \<and> tbl_data (st_mounts s) = []"
    using inv by (simp add: ReviewConnectedDevices_def ReviewMountPoints_def GetSystemMountPoints_def
        noexceptp_def tryp_def bindp_def os_call_run on_world_run on_mounts_def store_os_def store_world_def
        empty_world_def Mountpoints_RemoveExpired_run commit_run GetConnectedDevices_def hangp_def
        connected_loop.simps Mountpoints_GetAll_run erase_expired_filter split: prod.splits)
  then obtain s where s: "ReviewConnectedDevices store_os (sample_daemon store_world) = (Ok (), s)"
    "st_perms s = sample_permissions" "tbl_data (st_mounts s) = []" by blast
  have "reachable store_os list_libacl (sample_daemon store_world) s"
    by (rule reachable.step [OF reachable.start daemon_step.returned [where c = Call_review and r = "[]"]])
      (simp add: bindp_def s(1))
  with s show ?thesis by blast
qed




end
