(* ===== verification/Automount.thy ===== *)
theory Automount
  imports Log_Text
begin

text \<open>
  \<^verbatim>\<open>experimental/automount\<close>, the first form of the program: a command that udev starts for
  one device and one action, and that mounts for a fixed user and group without any table. Its
  classes have the names of those of the daemon; here they have \<open>Auto\<close> in front. It runs on the
  same system calls, so its programs have the state of the daemon, of which they use the world
  and the trace.
\<close>

section \<open>The device\<close>

datatype auto_action = AutoRemove | AutoAdd | AutoUndefined

record auto_device =
  xd_action :: auto_action
  xd_block_name :: string
  xd_fs_label :: string
  xd_fs_uid :: string
  xd_filesystem :: string
  xd_dev_type :: string
  xd_partition :: int

text \<open>
  \<open>auto_scan\<close> is the enumeration of all block devices (\<open>None\<close>: udev or the enumeration could not
  be made), and \<open>auto_logger\<close> the making of the logger.
\<close>

record 'w auto_env =
  auto_scan :: "'w \<Rightarrow> string option list option \<times> 'w"
  auto_logger :: "string \<Rightarrow> ('w, unit) prog"

text \<open>
  The loop over the enumeration does not stop at the device it looks for, so that the last one
  counts; and as in the daemon a device that cannot be opened, or has no node, is tried again
  for ever.
\<close>

partial_function (option) auto_find_loop ::
  "'w os \<Rightarrow> string \<Rightarrow> string option list \<Rightarrow> udev_device option \<Rightarrow> 'w \<Rightarrow>
   (udev_device option outcome \<times> 'w) option" where
  "auto_find_loop os name entries found w =
     (case entries of
        [] \<Rightarrow> Some (Ok found, w)
      | e # rest \<Rightarrow>
          (case e of
             None \<Rightarrow> auto_find_loop os name entries found w
           | Some path \<Rightarrow>
               (case os_udev_from_syspath os path w of
                  (dev, w') \<Rightarrow>
                    (case dev of
                       None \<Rightarrow> auto_find_loop os name entries found w'
                     | Some d \<Rightarrow>
                         (case udev_devnode d of
                            None \<Rightarrow> auto_find_loop os name entries found w'
                          | Some node \<Rightarrow>
                              auto_find_loop os name rest (if name = node then Some d else found) w')))))"

text \<open>A property of the device that was found; without one libudev gives a null pointer.\<close>

definition auto_property :: "udev_device option \<Rightarrow> string \<Rightarrow> string \<Rightarrow> string" where
  "auto_property dev key old =
     (case dev of
        None \<Rightarrow> old
      | Some d \<Rightarrow> (case udev_property d key of None \<Rightarrow> old | Some v \<Rightarrow> v))"

definition Auto_getUdevDeviceInfo ::
  "'w auto_env \<Rightarrow> 'w os \<Rightarrow> auto_device \<Rightarrow> ('w, auto_device) prog" where
  "Auto_getUdevDeviceInfo env os d =
     bindp (\<lambda>w. case auto_scan env w of
              (None, w') \<Rightarrow> (throws Runtime_error, w')
            | (Some entries, w') \<Rightarrow> hangp (auto_find_loop os (xd_block_name d) entries None) w') (\<lambda>dev.
     let d1 = d\<lparr>xd_fs_label := auto_property dev ''ID_FS_LABEL'' (xd_fs_label d),
                xd_fs_uid := auto_property dev ''ID_FS_UUID'' (xd_fs_uid d),
                xd_filesystem := auto_property dev ''ID_FS_TYPE'' (xd_filesystem d),
                xd_dev_type := auto_property dev ''DEVTYPE'' (xd_dev_type d)\<rparr>
     in case Option.bind dev (\<lambda>x. udev_property x ''ID_PART_ENTRY_NUMBER'') of
          None \<Rightarrow> ret d1
        | Some v \<Rightarrow> bindp (liftO (stoi 10 v)) (\<lambda>(n, pos). ret (d1\<lparr>xd_partition := n\<rparr>)))"

definition Auto_UsbUdevDevice ::
  "'w auto_env \<Rightarrow> 'w os \<Rightarrow> string \<Rightarrow> string \<Rightarrow> ('w, auto_device) prog" where
  "Auto_UsbUdevDevice env os dev_path action =
     (if dev_path = [] then fail (Exc Runtime_error)
      else if action = [] then fail (Exc Runtime_error)
      else
        let d = \<lparr>xd_action = (if action = ''add'' then AutoAdd
                   else if action = ''remove'' then AutoRemove else AutoUndefined),
                 xd_block_name = dev_path, xd_fs_label = [], xd_fs_uid = [], xd_filesystem = [],
                 xd_dev_type = [], xd_partition = 0\<rparr>
        in if xd_action d = AutoAdd then Auto_getUdevDeviceInfo env os d else ret d)"

fun auto_action_name :: "auto_action \<Rightarrow> string" where
  "auto_action_name AutoAdd = ''add''"
| "auto_action_name AutoRemove = ''remove''"
| "auto_action_name AutoUndefined = ''undefined''"

definition Auto_toString :: "auto_device \<Rightarrow> string" where
  "Auto_toString d = ''Action: '' @ auto_action_name (xd_action d) @ '' block_name: '' @ xd_block_name d @
     '' fs_label: '' @ xd_fs_label d @ '' fs_uid: '' @ xd_fs_uid d @ '' file_system: '' @ xd_filesystem d @
     '' device_type:'' @ xd_dev_type d @ '' partition number '' @ int_to_string (xd_partition d)"

section \<open>The text of an access control list\<close>

text \<open>
  As in the daemon, but the tag and the permission set have no initial value: using them before
  the library has set them is undefined.
\<close>

fun auto_text_loop ::
  "('w, 'a) libacl \<Rightarrow> 'a acl_reader \<Rightarrow> string \<Rightarrow> nat \<Rightarrow> bool \<Rightarrow> acl_tag option \<Rightarrow> 'a \<Rightarrow> string outcome" where
  "auto_text_loop lib rd err 0 first tag acl = Ok []"
| "auto_text_loop lib rd err (Suc n) first tag acl =
     (case acl_get_entry lib first acl of
        (None, acl1) \<Rightarrow> Ok []
      | (Some entry, acl1) \<Rightarrow>
          (let got = acl_get_tag_type lib acl1 entry;
               tag1 = (if got = None then tag else got);
               message = (if got = None then err else [])
           in if tag1 = None \<or> acl_get_permset lib acl1 entry = None then Fail Undefined
              else obind (auto_text_loop lib rd err n False tag1 acl1) (\<lambda>rest.
                Ok (message @ tag_text rd acl1 entry tag1 @ perms_text lib rd acl1 entry @ rest))))"

definition Auto_ToString :: "('w, 'a) libacl \<Rightarrow> 'a acl_reader \<Rightarrow> string \<Rightarrow> 'a \<Rightarrow> string outcome" where
  "Auto_ToString lib rd err acl = auto_text_loop lib rd err 100 True None acl"

fun auto_delete_loop :: "('w, 'a) libacl \<Rightarrow> nat \<Rightarrow> bool \<Rightarrow> 'a \<Rightarrow> 'a outcome" where
  "auto_delete_loop lib 0 first acl = throws Logic_error"
| "auto_delete_loop lib (Suc n) first acl =
     (case acl_get_entry lib first acl of
        (None, acl1) \<Rightarrow> Ok acl1
      | (Some entry, acl1) \<Rightarrow>
          (case acl_get_tag_type lib acl1 entry of
             None \<Rightarrow> throws Logic_error
           | Some tag \<Rightarrow>
               if tag = ACL_USER \<or> tag = ACL_GROUP \<or> tag = ACL_MASK
               then obind (need (acl_delete_entry lib acl1 entry)) (\<lambda>acl2. auto_delete_loop lib n False acl2)
               else auto_delete_loop lib n False acl1))"

text \<open>One entry with a qualifier: the same seven calls for the user and for the group.\<close>

definition auto_entry :: "('w, 'a) libacl \<Rightarrow> acl_tag \<Rightarrow> u32 option \<Rightarrow> 'a \<Rightarrow> 'a outcome" where
  "auto_entry lib tag qualifier acl =
     obind (need (acl_create_entry lib acl)) (\<lambda>(acl1, entry).
     obind (need (acl_get_permset lib acl1 entry)) (\<lambda>permset.
     obind (need (acl_add_perm lib acl1 permset acl_rx)) (\<lambda>acl2.
     obind (need (acl_set_tag_type lib acl2 entry tag)) (\<lambda>acl3.
     obind (case qualifier of None \<Rightarrow> Ok acl3 | Some q \<Rightarrow> need (acl_set_qualifier lib acl3 entry q)) (\<lambda>acl4.
     need (acl_set_permset lib acl4 entry permset))))))"

text \<open>The check \<^verbatim>\<open>acl_valid\<close> only writes to the log.\<close>

definition Auto_SetAcl ::
  "('w, 'a) libacl \<Rightarrow> 'a acl_reader \<Rightarrow> string \<Rightarrow> u32 \<Rightarrow> u32 \<Rightarrow> string \<Rightarrow> ('w, unit) dprog" where
  "Auto_SetAcl lib rd err uid gid mount_point =
     bindp (os_call (acl_get_file lib mount_point)) (\<lambda>acl.
     bindp (os_call (acl_get_file lib mount_point)) (\<lambda>acl_old.
     case acl of
       None \<Rightarrow> fail (Exc Runtime_error)
     | Some acl0 \<Rightarrow>
         bindp (liftO (auto_delete_loop lib 100 True acl0)) (\<lambda>acl1.
         bindp (liftO (auto_entry lib ACL_USER (Some uid) acl1)) (\<lambda>acl2.
         bindp (liftO (auto_entry lib ACL_GROUP (Some gid) acl2)) (\<lambda>acl3.
         bindp (liftO (auto_entry lib ACL_MASK None acl3)) (\<lambda>acl4.
         bindp (liftO (Auto_ToString lib rd err acl4)) (\<lambda>_.
         if acl_cmp lib acl4 acl_old \<noteq> 1 then ret ()
         else bindp (emit (EvSetAcl mount_point uid gid)) (\<lambda>_.
              bindp (os_call (acl_set_file lib mount_point acl4)) (\<lambda>okay.
              if okay then ret () else fail (Exc Runtime_error))))))))))"

section \<open>Mounting\<close>

record auto_mount =
  xm_device :: auto_device
  xm_uid :: "u32 option"
  xm_gid :: "u32 option"
  xm_base :: "string option"
  xm_end :: "string option"

definition xm_uid_or_0 :: "auto_mount \<Rightarrow> u32" where
  "xm_uid_or_0 cm = value_or 0 (xm_uid cm)"

definition xm_gid_or_0 :: "auto_mount \<Rightarrow> u32" where
  "xm_gid_or_0 cm = value_or 0 (xm_gid cm)"

definition auto_root :: string where
  "auto_root = ''/media/''"

text \<open>The entries of the password and the group file are used without a look whether they are
  there.\<close>

definition Auto_CreateAclMountPoint ::
  "'w os \<Rightarrow> ('w, 'a) libacl \<Rightarrow> 'a acl_reader \<Rightarrow> string \<Rightarrow> auto_mount \<Rightarrow> ('w, bool \<times> auto_mount) dprog" where
  "Auto_CreateAclMountPoint os lib rd err cm =
     bindp (os_call (os_getpwuid os (xm_uid_or_0 cm))) (\<lambda>pwd. case pwd of
       None \<Rightarrow> fail Undefined
     | Some user \<Rightarrow>
         bindp (os_call (os_getgrgid os (xm_gid_or_0 cm))) (\<lambda>grp. case grp of
           None \<Rightarrow> fail Undefined
         | Some grp_name \<Rightarrow>
             let mount_point = auto_root @ user @ ''_'' @ grp_name
             in tryp
               (bindp (emit (EvMkdir mount_point)) (\<lambda>_.
                bindp (on_world (fio_create_directories os mount_point)) (\<lambda>_.
                bindp (emit (EvChmod mount_point 488)) (\<lambda>_.
                bindp (os_call (os_chmod os mount_point 488)) (\<lambda>okay.
                if \<not> okay then fail (Exc Runtime_error)
                else bindp (Auto_SetAcl lib rd err (xm_uid_or_0 cm) (xm_gid_or_0 cm) mount_point) (\<lambda>_.
                  ret (True, cm\<lparr>xm_base := Some mount_point\<rparr>)))))))
               (ret (False, cm))))"

text \<open>
  The search for a free name: the first round continues without counting, so the index is 0 in
  every round.
\<close>

partial_function (option) auto_endpoint_loop ::
  "'w os \<Rightarrow> u32 \<Rightarrow> string \<Rightarrow> 'w \<Rightarrow> (string outcome \<times> 'w) option" where
  "auto_endpoint_loop os index endpoint w =
     (case occupied os endpoint w of
        (res, w') \<Rightarrow>
          (case res of
             Fail f \<Rightarrow> Some (Fail f, w')
           | Ok busy \<Rightarrow>
               if \<not> busy then Some (Ok endpoint, w')
               else if index = 0 then auto_endpoint_loop os index (endpoint @ ''_0'') w'
               else auto_endpoint_loop os (index + 1) (butlast endpoint @ to_string index) w'))"

definition auto_endpoint_name :: "'w os \<Rightarrow> string \<Rightarrow> auto_device \<Rightarrow> ('w, string) prog" where
  "auto_endpoint_name os folder d =
     bindp (if xd_fs_label d = [] then ret False
            else bindp (fio_exists os (folder @ xd_fs_label d)) (\<lambda>found. ret (\<not> found))) (\<lambda>use_label.
       ret (if use_label then folder @ xd_fs_label d
            else if xd_fs_uid d \<noteq> [] then folder @ xd_fs_uid d
            else folder @ ''usb''))"

definition Auto_CreatMountEndpoint :: "'w os \<Rightarrow> auto_mount \<Rightarrow> ('w, bool \<times> auto_mount) dprog" where
  "Auto_CreatMountEndpoint os cm =
     (if value_or [] (xm_base cm) = [] then ret (False, cm)
      else tryp
        (bindp (on_world (auto_endpoint_name os (value_or [] (xm_base cm) @ ''/'') (xm_device cm))) (\<lambda>name.
         bindp (on_world (hangp (auto_endpoint_loop os 0 name))) (\<lambda>endpoint.
         bindp (on_world (fio_exists os endpoint)) (\<lambda>found.
         bindp (if found then ret True
                else bindp (emit (EvMkdir endpoint)) (\<lambda>_. on_world (os_create_directory os endpoint))) (\<lambda>made.
         if \<not> made then ret (False, cm)
         else bindp (emit (EvChown endpoint (xm_uid_or_0 cm) (xm_gid_or_0 cm))) (\<lambda>_.
         bindp (os_call (os_chown os endpoint (xm_uid_or_0 cm) (xm_gid_or_0 cm))) (\<lambda>owned.
         if \<not> owned then ret (False, cm)
         else bindp (emit (EvChmod endpoint 488)) (\<lambda>_.
         bindp (os_call (os_chmod os endpoint 488)) (\<lambda>okay.
         if \<not> okay then ret (False, cm)
         else ret (True, cm\<lparr>xm_end := Some endpoint\<rparr>))))))))))
        (ret (False, cm)))"

definition Auto_SetMountOptions :: "auto_mount \<Rightarrow> MountOptions \<Rightarrow> MountOptions" where
  "Auto_SetMountOptions cm opts =
     (if mo_fs opts = [] then opts
      else
        let opts = opts\<lparr>mo_flags := or (or MS_NOSUID MS_NODEV) MS_RELATIME\<rparr>;
            uid_gid = ''uid='' @ to_string (xm_uid_or_0 cm) @ '',gid='' @ to_string (xm_gid_or_0 cm);
            fs = xd_filesystem (xm_device cm)
        in if fs = ''iso9660'' then
             opts\<lparr>mo_flags := or (mo_flags opts) MS_RDONLY,
                  mo_data := mo_data opts @ uid_gid @ '',iocharset=utf8'', mo_read_only := True\<rparr>
           else if fs = ''vfat'' then
             opts\<lparr>mo_data := mo_data opts @ uid_gid @
               '',fmask=0007,dmask=0007,allow_utime=0020,codepage=866,shortname=mixed,utf8,flush,errors=remount-ro''\<rparr>
           else if fs = ''exfat'' then
             opts\<lparr>mo_data := mo_data opts @ uid_gid @ '',fmask=0007,dmask=0007''\<rparr>
           else if fs = ''ntfs'' then
             opts\<lparr>mo_fs := mo_fs opts @ ''3'',
                  mo_data := mo_data opts @ uid_gid @ '',fmask=0007,dmask=0007,iocharset=utf8'' @ '',iocharset=utf8''\<rparr>
           else if fs = ''udf'' then
             opts\<lparr>mo_flags := or (mo_flags opts) MS_RDONLY,
                  mo_data := mo_data opts @ uid_gid @ '',mode=440,dmode=550,iocharset=utf8'',
                  mo_read_only := True\<rparr>
           else opts)"

definition Auto_RemoveMountPoint :: "'w os \<Rightarrow> string \<Rightarrow> ('w, unit) dprog" where
  "Auto_RemoveMountPoint os path = noexceptp (tryp
     (bindp (on_world (os_is_empty os path)) (\<lambda>e.
        if e then bindp (emit (EvRemove path)) (\<lambda>_. bindp (on_world (os_remove os path)) (\<lambda>_. ret ()))
        else ret ()))
     (ret ()))"

definition Auto_PerfomMount :: "'w os \<Rightarrow> auto_mount \<Rightarrow> ('w, bool) dprog" where
  "Auto_PerfomMount os cm = noexceptp
     (case xm_end cm of
        None \<Rightarrow> ret False
      | Some target \<Rightarrow>
          bindp (on_world (fio_exists os target)) (\<lambda>found.
          if \<not> found then ret False
          else
            let d = xm_device cm;
                opts = Auto_SetMountOptions cm
                  \<lparr>mo_flags = 0, mo_fs = xd_filesystem d, mo_data = [], mo_read_only = False\<rparr>
            in bindp (mount_call os (xd_block_name d) target (mo_fs opts) (mo_flags opts) (mo_data opts)) (\<lambda>res.
               if res = 0 then ret True
               else bindp (Auto_RemoveMountPoint os target) (\<lambda>_. ret False))))"

text \<open>The result of \<^verbatim>\<open>PerfomMount\<close> is not looked at.\<close>

definition Auto_Mount ::
  "'w os \<Rightarrow> ('w, 'a) libacl \<Rightarrow> 'a acl_reader \<Rightarrow> string \<Rightarrow> u32 \<Rightarrow> u32 \<Rightarrow> auto_device \<Rightarrow> ('w, bool) dprog" where
  "Auto_Mount os lib rd err uid gid d = noexceptp
     (let cm = \<lparr>xm_device = d, xm_uid = Some uid, xm_gid = Some gid, xm_base = None, xm_end = None\<rparr>
      in if xd_dev_type d = ''disk'' \<and> xd_filesystem d \<noteq> ''ntfs'' then ret True
         else bindp (Auto_CreateAclMountPoint os lib rd err cm) (\<lambda>(made, cm1).
           if \<not> made then ret False
           else bindp (Auto_CreatMountEndpoint os cm1) (\<lambda>(ready, cm2).
             if \<not> ready then ret False
             else bindp (Auto_PerfomMount os cm2) (\<lambda>_. ret True))))"

definition Auto_UnMount :: "'w os \<Rightarrow> auto_device \<Rightarrow> ('w, bool) dprog" where
  "Auto_UnMount os d = noexceptp
     (bindp (os_call (os_mtab os)) (\<lambda>entries. case entries of
        None \<Rightarrow> ret False
      | Some es \<Rightarrow>
          let mount_point = (case find (\<lambda>e. mnt_fsname e = xd_block_name d) es of None \<Rightarrow> [] | Some e \<Rightarrow> mnt_dir e)
          in if mount_point = [] then ret True
             else bindp (os_call (os_umount2 os mount_point)) (\<lambda>res.
                  bindp (emit (EvUmount mount_point res)) (\<lambda>_.
                  if res \<noteq> 0 then ret False
                  else bindp (Auto_RemoveMountPoint os mount_point) (\<lambda>_. ret True)))))"

section \<open>The command\<close>

definition Auto_InitLogFile ::
  "('w, 'z) file_io_scheme \<Rightarrow> (string \<Rightarrow> ('w, unit) prog) \<Rightarrow> string \<Rightarrow> ('w, bool) prog" where
  "Auto_InitLogFile io make_logger path = noexceptp (tryp
     (bindp (fio_create_directories io (parent_path path)) (\<lambda>_.
      bindp (make_logger path) (\<lambda>_. ret True)))
     (ret False))"

definition auto_log_path :: string where
  "auto_log_path = ''/var/log/alt-usb-automount/log.txt''"

text \<open>The value of the process; the arguments are a device name and an action.\<close>

definition Auto_main ::
  "'w auto_env \<Rightarrow> 'w os \<Rightarrow> ('w, 'a) libacl \<Rightarrow> 'a acl_reader \<Rightarrow> string \<Rightarrow> string list \<Rightarrow> ('w, int) dprog" where
  "Auto_main env os lib rd err argv =
     bindp (on_world (Auto_InitLogFile os (auto_logger env) auto_log_path)) (\<lambda>logger.
     if \<not> logger then ret 1
     else if length argv < 3 then ret 1
     else
       let dev = argv ! 1; action = argv ! 2 in
       if action = [] \<and> dev = [] then ret 1
       else bindp (tryp (bindp (on_world (Auto_UsbUdevDevice env os (''/dev/'' @ dev) action)) (\<lambda>d. ret (Some d)))
                        (ret None)) (\<lambda>ptr_device. case ptr_device of
         None \<Rightarrow> ret 1
       | Some d \<Rightarrow>
           bindp (if action = ''add'' then bindp (Auto_Mount os lib rd err 1000 1001 d) (\<lambda>_. ret ())
                  else if action = ''remove'' then bindp (Auto_UnMount os d) (\<lambda>_. ret ())
                  else ret ()) (\<lambda>_. ret 0)))"

section \<open>The same list as the daemon\<close>

lemma auto_delete_loop_same: "auto_delete_loop lib n first acl = delete_loop lib n first acl"
proof (induction lib n first acl rule: auto_delete_loop.induct)
  case (2 lib n first acl)
  then show ?case
    by (auto simp: need_def split: option.splits prod.splits)
qed simp

lemma auto_entries_same:
  "auto_entry lib ACL_USER (Some uid) acl = CreateUserAclEntry lib uid acl"
  "auto_entry lib ACL_GROUP (Some gid) acl = CreateGroupAclEntry lib gid acl"
  "auto_entry lib ACL_MASK None acl = CreateMaskAclEntry lib acl"
  by (simp_all add: auto_entry_def CreateUserAclEntry_def CreateGroupAclEntry_def CreateMaskAclEntry_def)

lemma bindp_liftO_obind: "bindp (liftO (obind m f)) k = bindp (liftO m) (\<lambda>a. bindp (liftO (f a)) k)"
  by (cases m) simp_all

lemma Auto_SetAcl_build:
  "Auto_SetAcl lib rd err uid gid p =
     bindp (os_call (acl_get_file lib p)) (\<lambda>acl.
     bindp (os_call (acl_get_file lib p)) (\<lambda>acl_old.
     case acl of
       None \<Rightarrow> fail (Exc Runtime_error)
     | Some acl0 \<Rightarrow>
         bindp (liftO (build_acl lib uid gid acl0)) (\<lambda>acl1.
         bindp (liftO (Auto_ToString lib rd err acl1)) (\<lambda>_.
         if acl_cmp lib acl1 acl_old \<noteq> 1 then ret ()
         else bindp (emit (EvSetAcl p uid gid)) (\<lambda>_.
              bindp (os_call (acl_set_file lib p acl1)) (\<lambda>okay.
              if okay then ret () else fail (Exc Runtime_error)))))))"
  by (simp add: Auto_SetAcl_def build_acl_def DeleteACLUserGroupMask_def auto_delete_loop_same
      auto_entries_same bindp_liftO_obind cong: option.case_cong)

lemma auto_text_loop_lines:
  assumes "iteration_laws lib v" and "reader_laws lib rd v" and "distinct (map fst es)"
    and "\<And>x. x \<in> set es \<Longrightarrow> ae_tag (snd x) \<noteq> None"
  shows "v acl = (es, p) \<Longrightarrow> length es \<le> n + (if first then 0 else p) \<Longrightarrow>
    \<exists>s. auto_text_loop lib rd err n first tag acl = Ok s"
proof (induction n arbitrary: acl p first tag)
  case (Suc n)
  let ?q = "if first then 0 else p"
  obtain r acl1 where g: "acl_get_entry lib first acl = (r, acl1)" by (cases "acl_get_entry lib first acl")
  note step = iteration_step [OF assms(1) Suc.prems(1), of first, unfolded Let_def g fst_conv snd_conv]
  show ?case
  proof (cases "?q < length es")
    case True
    with step have r: "r = Some (fst (es ! ?q))" and v1: "v acl1 = (es, ?q + 1)" by simp_all
    have "es ! ?q \<in> set es" using True by (rule nth_mem)
    then obtain t where t: "ae_tag (snd (es ! ?q)) = Some t" using assms(4) by blast
    have "acl_get_permset lib acl1 (fst (es ! ?q)) = Some (fst (es ! ?q))"
      using assms(2,3) v1 True unfolding reader_laws_def by blast
    moreover have "\<exists>s. auto_text_loop lib rd err n False (Some t) acl1 = Ok s"
      using Suc.IH [OF v1, of False "Some t"] Suc.prems(2) by simp
    ultimately show ?thesis
      using iteration_tag [OF assms(1) v1 assms(3) True] by (auto simp: g r t)
  next
    case False
    with step have "r = None" by simp
    then show ?thesis by (simp add: g)
  qed
qed simp

lemma acl_as_daemon:
  assumes "libacl_laws lib v" and "reader_laws lib rd v"
    and "\<And>p w acl w'. acl_get_file lib p w = (Some acl, w') \<Longrightarrow> length (fst (v acl)) < 98 \<and>
      distinct (map fst (fst (v acl))) \<and> (\<forall>x \<in> set (fst (v acl)). ae_tag (snd x) \<noteq> None)"
  shows "Auto_SetAcl lib rd err uid gid p = SetAcl lib uid gid p"
proof -
  have iter: "iteration_laws lib v" using assms(1) by (simp add: libacl_laws_def)
  have shown: "\<exists>s. Auto_ToString lib rd err acl1 = Ok s"
    if "acl_get_file lib p w = (Some acl, w')" "build_acl lib uid gid acl = Ok acl1" for p w acl w' acl1
  proof -
    have a: "length (fst (v acl)) < 98" "distinct (map fst (fst (v acl)))"
      "\<And>x. x \<in> set (fst (v acl)) \<Longrightarrow> ae_tag (snd x) \<noteq> None"
      using assms(3) [OF that(1)] by auto
    have "length (fst (v acl)) < 100" using a(1) by simp
    note b = build_acl_entries [OF assms(1) this a(3,2) that(2)]
    have "length (fst (v acl1)) = length (filter own_entry (fst (v acl))) + 3"
      using arg_cong [OF b(1), of length] by (simp add: granted_def)
    then have n: "length (fst (v acl1)) \<le> 100"
      using a(1) length_filter_le [of own_entry "fst (v acl)"] by linarith
    have "ae_tag (snd x) \<noteq> None" if "x \<in> set (fst (v acl1))" for x
    proof -
      from that b(1) have "snd x \<in> set (map snd (filter own_entry (fst (v acl))) @ granted uid gid)"
        by (metis imageI list.set_map)
      with a(3) granted_tags show ?thesis by auto
    qed
    from auto_text_loop_lines [OF iter assms(2) b(2) this, of acl1 "snd (v acl1)" 100 True] n
    show ?thesis by (simp add: Auto_ToString_def)
  qed
  show ?thesis
  proof
    fix s :: "'a daemon"
    obtain r w where g: "acl_get_file lib p (st_world s) = (r, w)" by (cases "acl_get_file lib p (st_world s)")
    show "Auto_SetAcl lib rd err uid gid p s = SetAcl lib uid gid p s"
    proof (cases r)
      case (Some acl)
      then show ?thesis
        using shown [OF g [unfolded Some]]
        by (cases "build_acl lib uid gid acl") (auto simp: Auto_SetAcl_build SetAcl_def g)
    qed (simp add: Auto_SetAcl_build SetAcl_def g)
  qed
qed



section \<open>What the command mounts\<close>

fun auto_event_ok :: "string \<Rightarrow> sysevent \<Rightarrow> bool" where
  "auto_event_ok dev (EvMount d t fs fl data r) \<longleftrightarrow>
     d = dev \<and> starts_with t auto_root \<and>
     (fs = [] \<and> fl = 0 \<or> and fl (or MS_NOSUID MS_NODEV) = or MS_NOSUID MS_NODEV)"
| "auto_event_ok dev _ \<longleftrightarrow> True"

text \<open>\<open>mounts_up dev k m\<close>: the program adds only good events, at most \<open>k\<close> of them calls of
  \<^verbatim>\<open>mount\<close>.\<close>

definition mount_count :: "'w daemon \<Rightarrow> nat" where
  "mount_count s = length (filter is_mount (st_trace s))"

definition mounts_up :: "string \<Rightarrow> nat \<Rightarrow> ('w, 'b) dprog \<Rightarrow> bool" where
  "mounts_up dev k m \<longleftrightarrow> keeps (trace_all (auto_event_ok dev)) m \<and>
     (\<forall>s. mount_count (snd (m s)) \<le> mount_count s + k)"

lemma mounts_up_basic:
  "mounts_up dev k (ret a)" "mounts_up dev k (fail e)" "mounts_up dev k (liftO r)"
  "mounts_up dev k (on_world m)" "mounts_up dev k (os_call f)"
  by (auto simp: mounts_up_def mount_count_def on_world_run os_call_run intro: keeps_rules)

lemma mounts_up_emit: "\<not> is_mount ev \<Longrightarrow> mounts_up dev k (emit ev)"
  by (cases ev) (auto simp: mounts_up_def mount_count_def intro!: keeps_rules)

lemma mounts_up_bindp0:
  assumes "mounts_up dev 0 m" and "\<And>a. mounts_up dev k (f a)"
  shows "mounts_up dev k (bindp m f)"
proof -
  have "mount_count (snd (bindp m f s)) \<le> mount_count s + k" for s
  proof (cases "m s")
    case (Pair r t)
    then have "mount_count t \<le> mount_count s"
      using assms(1) unfolding mounts_up_def by (metis add_0_right snd_conv)
    moreover have "mount_count (snd (f a t)) \<le> mount_count t + k" for a
      using assms(2) unfolding mounts_up_def by blast
    ultimately show ?thesis using Pair
      by (cases r) (simp_all add: bindp_def, meson add_le_mono1 le_trans)
  qed
  then show ?thesis using assms by (simp add: mounts_up_def keeps_bindp)
qed

lemma mounts_up_bindp1:
  assumes "mounts_up dev 1 m" and "\<And>a. mounts_up dev 0 (f a)"
  shows "mounts_up dev 1 (bindp m f)"
proof -
  have "mount_count (snd (bindp m f s)) \<le> mount_count s + 1" for s
  proof (cases "m s")
    case (Pair r t)
    then have "mount_count t \<le> mount_count s + 1"
      using assms(1) unfolding mounts_up_def by (metis snd_conv)
    moreover have "mount_count (snd (f a t)) \<le> mount_count t" for a
      using assms(2) unfolding mounts_up_def by (metis add_0_right)
    ultimately show ?thesis using Pair
      by (cases r) (simp_all add: bindp_def, meson le_trans)
  qed
  then show ?thesis using assms by (simp add: mounts_up_def keeps_bindp)
qed

lemma mounts_up_tryp:
  assumes "mounts_up dev 0 m" and "mounts_up dev 0 h"
  shows "mounts_up dev 0 (tryp m h)"
proof -
  have "mount_count (snd (tryp m h s)) \<le> mount_count s" for s
  proof (cases "m s")
    case (Pair r t)
    then have "mount_count t \<le> mount_count s"
      using assms(1) unfolding mounts_up_def by (metis add_0_right snd_conv)
    moreover have "mount_count (snd (h t)) \<le> mount_count t"
      using assms(2) unfolding mounts_up_def by (metis add_0_right)
    moreover have "tryp m h s = h t \<or> tryp m h s = (r, t)"
      using Pair by (auto simp: tryp_def split: outcome.splits failure.splits)
    ultimately show ?thesis by auto
  qed
  then show ?thesis using assms by (simp add: mounts_up_def keeps_tryp)
qed

lemma mounts_up_noexceptp: "mounts_up dev k m \<Longrightarrow> mounts_up dev k (noexceptp m)"
proof -
  have "snd (noexceptp m s) = snd (m s)" for s
    by (cases "m s") (auto simp: noexceptp_def split: outcome.splits failure.splits)
  then show "mounts_up dev k m \<Longrightarrow> mounts_up dev k (noexceptp m)"
    by (simp add: mounts_up_def keeps_noexceptp)
qed

lemma mounts_up_mono: "mounts_up dev 0 m \<Longrightarrow> mounts_up dev k m"
  by (auto simp: mounts_up_def intro: trans_le_add1)

lemma mounts_up_if:
  "(b \<Longrightarrow> mounts_up dev k m) \<Longrightarrow> (\<not> b \<Longrightarrow> mounts_up dev k n) \<Longrightarrow> mounts_up dev k (if b then m else n)"
  by simp

lemma mounts_up_option:
  "(x = None \<Longrightarrow> mounts_up dev k m) \<Longrightarrow> (\<And>a. x = Some a \<Longrightarrow> mounts_up dev k (f a)) \<Longrightarrow>
   mounts_up dev k (case x of None \<Rightarrow> m | Some a \<Rightarrow> f a)"
  by (simp split: option.splits)

lemma mounts_up_Let: "(\<And>x. x = a \<Longrightarrow> mounts_up dev k (f x)) \<Longrightarrow> mounts_up dev k (Let a f)"
  by simp

lemma mounts_up_bindp_with:
  assumes "mounts_up dev 0 m" and "yields R m" and "\<And>a. R a \<Longrightarrow> mounts_up dev k (f a)"
  shows "mounts_up dev k (bindp m f)"
proof -
  define f' where "f' = (\<lambda>x. if R x then f x else fail Undefined)"
  have "bindp m f = bindp m f'"
    using assms(2) unfolding yields_def f'_def bindp_def
    by (fastforce simp: fun_eq_iff split: prod.splits outcome.splits)
  moreover have "mounts_up dev k (f' x)" for x
    unfolding f'_def using assms(3) mounts_up_basic(2) by auto
  ultimately show ?thesis using mounts_up_bindp0 [OF assms(1)] by metis
qed

lemma mounts_up_pair:
  "mounts_up dev 0 m \<Longrightarrow> yields (\<lambda>(a, b). R a b) m \<Longrightarrow> (\<And>a b. R a b \<Longrightarrow> mounts_up dev k (f a b)) \<Longrightarrow>
   mounts_up dev k (bindp m (\<lambda>(a, b). f a b))"
  by (rule mounts_up_bindp_with [where R = "\<lambda>(a, b). R a b"]) auto

lemmas mounts_up_rules = mounts_up_basic mounts_up_emit mounts_up_bindp0 mounts_up_tryp
  mounts_up_noexceptp mounts_up_if mounts_up_option mounts_up_Let

lemma auto_steps_up:
  "mounts_up dev 0 (Auto_SetAcl lib rd err u v p)"
  "mounts_up dev 0 (Auto_CreateAclMountPoint os lib rd err cm)"
  "mounts_up dev 0 (Auto_CreatMountEndpoint os cm)"
  "mounts_up dev 0 (Auto_RemoveMountPoint os p)"
  "mounts_up dev k (Auto_UnMount os d)"
proof -
  show acl: "mounts_up dev 0 (Auto_SetAcl lib rd err u v p)" for u v p
    unfolding Auto_SetAcl_def by (intro mounts_up_rules; simp)
  show "mounts_up dev 0 (Auto_CreateAclMountPoint os lib rd err cm)"
    unfolding Auto_CreateAclMountPoint_def by (intro mounts_up_rules acl; simp)
  show "mounts_up dev 0 (Auto_CreatMountEndpoint os cm)"
    unfolding Auto_CreatMountEndpoint_def by (intro mounts_up_rules; simp)
  show rm: "mounts_up dev 0 (Auto_RemoveMountPoint os p)" for p
    unfolding Auto_RemoveMountPoint_def by (intro mounts_up_rules; simp)
  show "mounts_up dev k (Auto_UnMount os d)"
    unfolding Auto_UnMount_def by (intro mounts_up_rules mounts_up_mono [OF rm]; simp)
qed

lemma Auto_CreateAclMountPoint_yields:
  "yields (\<lambda>(ok, cm'). xm_device cm' = xm_device cm \<and> (ok \<longrightarrow> (\<exists>r. xm_base cm' = Some (auto_root @ r))))
     (Auto_CreateAclMountPoint os lib rd err cm)"
  unfolding Auto_CreateAclMountPoint_def Let_def by (intro yields_rules; simp)

lemma auto_endpoint_name_yields:
  "yields (\<lambda>n. \<exists>x. n = folder @ x) (auto_endpoint_name os folder d)"
  unfolding auto_endpoint_name_def by (intro yields_rules) auto

lemma auto_endpoint_loop_extends:
  assumes "auto_endpoint_loop os 0 endpoint w = Some (Ok e, w')"
  shows "\<exists>x. e = endpoint @ x"
proof -
  have "\<forall>e w'. y = (Ok e, w') \<longrightarrow> index = 0 \<longrightarrow> (\<exists>x. e = endpoint @ x)"
    if "auto_endpoint_loop os index endpoint w = Some y" for os :: "'a os" and index endpoint w y
    using that
    by (rule auto_endpoint_loop.raw_induct [rotated])
      (fastforce split: prod.splits outcome.splits if_splits)
  with assms show ?thesis by blast
qed

lemma Auto_CreatMountEndpoint_yields:
  "yields (\<lambda>(ok, cm'). xm_device cm' = xm_device cm \<and>
     (ok \<longrightarrow> (\<exists>x. xm_end cm' = Some (value_or [] (xm_base cm) @ x)))) (Auto_CreatMountEndpoint os cm)"
proof -
  let ?ext = "\<lambda>n. \<exists>x. n = value_or [] (xm_base cm) @ x"
  have name: "yields ?ext (on_world (auto_endpoint_name os (value_or [] (xm_base cm) @ ''/'') (xm_device cm)))"
    using auto_endpoint_name_yields [of "value_or [] (xm_base cm) @ ''/''" os "xm_device cm"]
    by (intro yields_on_world) (fastforce simp: yields_def)
  have loop: "yields ?ext (on_world (hangp (auto_endpoint_loop os 0 name)))" if n: "?ext name" for name
    by (intro yields_on_world yields_hangp) (use n auto_endpoint_loop_extends in fastforce)
  show ?thesis
    unfolding Auto_CreatMountEndpoint_def
    apply (intro yields_if yields_ret yields_tryp)
      apply simp
     apply (rule yields_bindp_with [OF name])
     apply (rule yields_bindp_with [OF loop], assumption)
     apply (intro yields_bindp yields_if yields_ret; simp)
    apply simp
    done
qed

lemma Auto_SetMountOptions_flags:
  "mo_fs opts \<noteq> [] \<Longrightarrow> mo_flags (Auto_SetMountOptions cm opts) =
     (if xd_filesystem (xm_device cm) \<in> {''iso9660'', ''udf''} then 0x200007 else 0x200006)"
  by (simp add: Auto_SetMountOptions_def Let_def ms_defs)

lemma Auto_PerfomMount_up:
  assumes "xd_block_name (xm_device cm) = dev" and "\<And>t. xm_end cm = Some t \<Longrightarrow> starts_with t auto_root"
  shows "mounts_up dev 1 (Auto_PerfomMount os cm)"
proof -
  let ?o = "Auto_SetMountOptions cm \<lparr>mo_flags = 0, mo_fs = xd_filesystem (xm_device cm), mo_data = [], mo_read_only = False\<rparr>"
  have fl: "mo_fs ?o = [] \<and> mo_flags ?o = 0 \<or>
      and (mo_flags ?o) (or MS_NOSUID MS_NODEV) = or MS_NOSUID MS_NODEV"
  proof (cases "xd_filesystem (xm_device cm) = []")
    case True
    then show ?thesis by (simp add: Auto_SetMountOptions_def)
  next
    case False
    then have "mo_flags ?o = 0x200007 \<or> mo_flags ?o = 0x200006" by (simp add: Auto_SetMountOptions_flags)
    then show ?thesis by (auto simp: ms_defs)
  qed
  have call: "mounts_up dev 1 (mount_call os dev t (mo_fs ?o) (mo_flags ?o) data)"
    if "starts_with t auto_root" for t data
    unfolding mounts_up_def using that fl
    by (auto simp: keeps_def mount_call_run trace_all_def mount_count_def split_beta Let_def)
  show ?thesis
  proof (cases "xm_end cm")
    case None
    then show ?thesis by (simp add: Auto_PerfomMount_def mounts_up_noexceptp mounts_up_basic)
  next
    case (Some t)
    show ?thesis
      unfolding Auto_PerfomMount_def Let_def Some option.case assms(1)
      by (intro mounts_up_noexceptp mounts_up_bindp0 [OF mounts_up_basic(4)] mounts_up_if
          mounts_up_bindp1 [OF call [OF assms(2) [OF Some]]] mounts_up_bindp0 [OF auto_steps_up(4)] mounts_up_basic)
  qed
qed

lemma Auto_Mount_up: "mounts_up (xd_block_name d) 1 (Auto_Mount os lib rd err u v d)"
proof -
  let ?cm = "\<lparr>xm_device = d, xm_uid = Some u, xm_gid = Some v, xm_base = None, xm_end = None\<rparr>"
  show ?thesis
    unfolding Auto_Mount_def Let_def
  proof (intro mounts_up_noexceptp mounts_up_if mounts_up_basic
      mounts_up_pair [OF auto_steps_up(2) Auto_CreateAclMountPoint_yields]
      mounts_up_pair [OF auto_steps_up(3) Auto_CreatMountEndpoint_yields])
    fix ok1 ok2 and cm1 cm2 :: auto_mount
    assume "xm_device cm1 = xm_device ?cm \<and> (ok1 \<longrightarrow> (\<exists>r. xm_base cm1 = Some (auto_root @ r)))"
      and "\<not> \<not> ok1" and "\<not> \<not> ok2"
      and "xm_device cm2 = xm_device cm1 \<and>
        (ok2 \<longrightarrow> (\<exists>x. xm_end cm2 = Some (value_or [] (xm_base cm1) @ x)))"
    then have "mounts_up (xd_block_name d) 1 (Auto_PerfomMount os cm2)"
      by (intro Auto_PerfomMount_up) (auto simp: value_or_def)
    then show "mounts_up (xd_block_name d) 1 (bindp (Auto_PerfomMount os cm2) (\<lambda>_. ret True))"
      by (intro mounts_up_bindp1 mounts_up_basic)
  qed
qed

lemma Auto_device_block_name:
  "yields (\<lambda>d. xd_block_name d = dev_path) (Auto_UsbUdevDevice env os dev_path action)"
  unfolding Auto_UsbUdevDevice_def Auto_getUdevDeviceInfo_def Let_def
  by (auto intro!: yields_rules split: prod.splits option.splits)

lemma Auto_main_up: "mounts_up (''/dev/'' @ argv ! 1) 1 (Auto_main env os lib rd err argv)"
proof -
  let ?dev = "''/dev/'' @ argv ! 1"
  have device: "yields (\<lambda>x. \<forall>d. x = Some d \<longrightarrow> xd_block_name d = ?dev)
      (tryp (bindp (on_world (Auto_UsbUdevDevice env os ?dev action)) (\<lambda>d. ret (Some d))) (ret None))" for action
    by (intro yields_tryp yields_ret yields_bindp_with [OF yields_on_world [OF Auto_device_block_name]]) auto
  have act: "mounts_up ?dev 1 (case x of None \<Rightarrow> ret 1
      | Some d \<Rightarrow> bindp (if action = ''add'' then bindp (Auto_Mount os lib rd err 1000 1001 d) (\<lambda>_. ret ())
          else if action = ''remove'' then bindp (Auto_UnMount os d) (\<lambda>_. ret ()) else ret ()) (\<lambda>_. ret (0 :: int)))"
    if "\<forall>d. x = Some d \<longrightarrow> xd_block_name d = ?dev" for x action
  proof (cases x)
    case (Some d)
    then have "mounts_up ?dev 1 (Auto_Mount os lib rd err 1000 1001 d)" using that Auto_Mount_up by metis
    then show ?thesis unfolding Some option.case
      by (intro mounts_up_bindp1 mounts_up_if auto_steps_up mounts_up_basic)
  qed (simp add: mounts_up_basic)
  show ?thesis
    unfolding Auto_main_def Let_def
    by (intro mounts_up_bindp0 mounts_up_basic mounts_up_if mounts_up_bindp_with [OF _ device act] mounts_up_tryp)
qed

text \<open>
  C27: One run of the command mounts at most once, and only the device of its argument at a path
  whose text begins with \<^verbatim>\<open>/media/\<close>, without suid and devices, except for a device of
  which udev knows no file system, which is tried with no type and no flags.
\<close>

theorem automount_mounts_once:
  assumes "Auto_main env os lib rd err argv s = (r, s')" and "st_trace s = []"
  shows "trace_all (auto_event_ok (''/dev/'' @ argv ! 1)) s' \<and> mount_count s' \<le> 1"
proof -
  have "trace_all (auto_event_ok (''/dev/'' @ argv ! 1)) s" and "mount_count s = 0"
    using assms(2) by (simp_all add: trace_all_def mount_count_def)
  with Auto_main_up [of argv env os lib rd err, unfolded mounts_up_def] assms(1) show ?thesis
    by (metis add_0 keepsE snd_conv)
qed

text \<open>A stick whose label is a path: it is mounted outside the directory of its user.\<close>

definition label_udev :: udev_device where
  "label_udev = UdevDevice [(''ID_FS_LABEL'', ''../../x''), (''ID_FS_TYPE'', ''vfat''), (''DEVTYPE'', ''partition'')]
     [] (Some ''/dev/sdb1'') None"

definition label_os :: "sample_world os" where
  "label_os = (sample_os JNull)\<lparr>os_udev_from_syspath := \<lambda>p w. (Some label_udev, w)\<rparr>"

definition label_env :: "sample_world auto_env" where
  "label_env = \<lparr>auto_scan = \<lambda>w. (Some [Some ''/sys/b''], w), auto_logger = \<lambda>p. ret ()\<rparr>"

definition label_device :: auto_device where
  "label_device = \<lparr>xd_action = AutoAdd, xd_block_name = ''/dev/sdb1'', xd_fs_label = ''../../x'', xd_fs_uid = [],
     xd_filesystem = ''vfat'', xd_dev_type = ''partition'', xd_partition = 0\<rparr>"

definition label_mount :: auto_mount where
  "label_mount = \<lparr>xm_device = label_device, xm_uid = Some 1000, xm_gid = Some 1001, xm_base = None, xm_end = None\<rparr>"

lemma auto_find_loop_step:
  "auto_find_loop os name [] found w = Some (Ok found, w)"
  "os_udev_from_syspath os path w = (Some d, w') \<Longrightarrow> udev_devnode d = Some node \<Longrightarrow>
   auto_find_loop os name (Some path # rest) found w =
     auto_find_loop os name rest (if name = node then Some d else found) w'"
  by (simp_all add: auto_find_loop.simps [of os name "Some path # rest"] auto_find_loop.simps [of os name "[]"])

lemma label_found: "Auto_UsbUdevDevice label_env label_os ''/dev/sdb1'' ''add'' w = (Ok label_device, w)"
  by (simp add: Auto_UsbUdevDevice_def Auto_getUdevDeviceInfo_def bindp_def label_env_def hangp_def
      auto_find_loop_step label_os_def label_udev_def auto_property_def udev_property_def label_device_def)

lemma list_SetAcl: "\<exists>s'. SetAcl list_libacl u v p s = (Ok (), s') \<and> st_world s' = st_world s \<and>
    filter is_mount (st_trace s') = filter is_mount (st_trace s)"
  by (simp add: SetAcl_def bindp_def os_call_run build_acl_def DeleteACLUserGroupMask_def list_libacl_def
      Let_def need_def CreateUserAclEntry_def CreateGroupAclEntry_def CreateMaskAclEntry_def numeral_eq_Suc)

lemma label_directory: "\<exists>s1. Auto_CreateAclMountPoint label_os list_libacl list_reader [] label_mount (sample_daemon w) =
    (Ok (True, label_mount\<lparr>xm_base := Some ''/media/test_usb''\<rparr>), s1) \<and>
    st_world s1 = w\<lparr>sw_dirs := ''/media/test_usb'' # sw_dirs w\<rparr>"
proof -
  have acl: "Auto_SetAcl list_libacl list_reader [] 1000 1001 p = SetAcl list_libacl 1000 1001 p" for p
    by (rule acl_as_daemon [OF list_libacl_laws list_reader_laws]) (auto simp: list_libacl_def)
  let ?s = "(sample_daemon w)\<lparr>st_world := w\<lparr>sw_dirs := ''/media/test_usb'' # sw_dirs w\<rparr>,
    st_trace := [EvChmod ''/media/test_usb'' 488, EvMkdir ''/media/test_usb'']\<rparr>"
  obtain s1 where s1: "SetAcl list_libacl 1000 1001 ''/media/test_usb'' ?s = (Ok (), s1)"
    "st_world s1 = st_world ?s" using list_SetAcl by blast
  have "Auto_CreateAclMountPoint label_os list_libacl list_reader [] label_mount (sample_daemon w) =
    (Ok (True, label_mount\<lparr>xm_base := Some ''/media/test_usb''\<rparr>), s1)"
    using s1(1) by (simp add: Auto_CreateAclMountPoint_def label_mount_def xm_uid_or_0_def xm_gid_or_0_def
        value_or_def auto_root_def label_os_def bindp_def tryp_def os_call_run on_world_def acl
        sample_daemon_def initial_def Let_def)
  with s1(2) show ?thesis by simp
qed

lemma auto_endpoint_loop_step:
  "auto_endpoint_loop os index endpoint w =
     (case occupied os endpoint w of
        (Fail f, w') \<Rightarrow> Some (Fail f, w')
      | (Ok busy, w') \<Rightarrow>
          if \<not> busy then Some (Ok endpoint, w')
          else if index = 0 then auto_endpoint_loop os index (endpoint @ ''_0'') w'
          else auto_endpoint_loop os (index + 1) (butlast endpoint @ to_string index) w')"
  by (subst auto_endpoint_loop.simps) (simp split: prod.splits outcome.splits)

definition label_target :: string where
  "label_target = ''/media/test_usb/../../x''"

lemma label_endpoint:
  assumes "st_world s1 = empty_world\<lparr>sw_dirs := [''/media/test_usb'', ''/var/log/alt-usb-automount'']\<rparr>"
  shows "\<exists>s2. Auto_CreatMountEndpoint label_os (label_mount\<lparr>xm_base := Some ''/media/test_usb''\<rparr>) s1 =
    (Ok (True, label_mount\<lparr>xm_base := Some ''/media/test_usb'', xm_end := Some label_target\<rparr>), s2) \<and>
    st_world s2 = empty_world\<lparr>sw_dirs := [label_target, ''/media/test_usb'', ''/var/log/alt-usb-automount'']\<rparr>"
  using assms
  by (simp add: Auto_CreatMountEndpoint_def label_mount_def value_or_def auto_endpoint_name_def label_device_def
      bindp_def on_world_def empty_world_def hangp_def label_os_def auto_endpoint_loop_step occupied_def
      tryp_def os_call_run label_target_def)

lemma label_perform:
  assumes "st_world s2 = empty_world\<lparr>sw_dirs := [label_target, ''/media/test_usb'', ''/var/log/alt-usb-automount'']\<rparr>"
  shows "\<exists>s3 fl data. Auto_PerfomMount label_os
      (label_mount\<lparr>xm_base := Some ''/media/test_usb'', xm_end := Some label_target\<rparr>) s2 = (Ok True, s3) \<and>
    EvMount ''/dev/sdb1'' label_target ''vfat'' fl data 0 \<in> set (st_trace s3)"
  using assms
  by (simp add: Auto_PerfomMount_def label_mount_def label_os_def noexceptp_def bindp_def on_world_def
      mount_call_def os_call_run Let_def label_device_def empty_world_def Auto_SetMountOptions_def) blast

lemma label_run:
  "\<exists>s' fl data. Auto_main label_env label_os list_libacl list_reader [] [''automount'', ''sdb1'', ''add'']
      (sample_daemon empty_world) = (Ok 0, s') \<and>
    EvMount ''/dev/sdb1'' label_target ''vfat'' fl data 0 \<in> set (st_trace s')"
proof -
  let ?w = "empty_world\<lparr>sw_dirs := [''/var/log/alt-usb-automount'']\<rparr>"
  have log: "on_world (Auto_InitLogFile label_os (auto_logger label_env) auto_log_path) (sample_daemon empty_world) =
      (Ok True, sample_daemon ?w)"
    by (simp add: on_world_def Auto_InitLogFile_def label_os_def label_env_def auto_log_path_def parent_path_def
        noexceptp_def tryp_def bindp_def empty_world_def sample_daemon_def initial_def)
  have dev: "on_world (Auto_UsbUdevDevice label_env label_os ''/dev/sdb1'' ''add'') (sample_daemon w) =
      (Ok label_device, sample_daemon w)" for w
    by (simp add: on_world_def label_found sample_daemon_def initial_def)
  obtain s1 where s1: "Auto_CreateAclMountPoint label_os list_libacl list_reader [] label_mount (sample_daemon ?w) =
      (Ok (True, label_mount\<lparr>xm_base := Some ''/media/test_usb''\<rparr>), s1)"
    "st_world s1 = empty_world\<lparr>sw_dirs := [''/media/test_usb'', ''/var/log/alt-usb-automount'']\<rparr>"
    using label_directory [of ?w] by auto
  obtain s2 where s2: "Auto_CreatMountEndpoint label_os (label_mount\<lparr>xm_base := Some ''/media/test_usb''\<rparr>) s1 =
      (Ok (True, label_mount\<lparr>xm_base := Some ''/media/test_usb'', xm_end := Some label_target\<rparr>), s2)"
    "st_world s2 = empty_world\<lparr>sw_dirs := [label_target, ''/media/test_usb'', ''/var/log/alt-usb-automount'']\<rparr>"
    using label_endpoint [OF s1(2)] by blast
  obtain s3 fl data where s3: "Auto_PerfomMount label_os
      (label_mount\<lparr>xm_base := Some ''/media/test_usb'', xm_end := Some label_target\<rparr>) s2 = (Ok True, s3)"
    "EvMount ''/dev/sdb1'' label_target ''vfat'' fl data 0 \<in> set (st_trace s3)"
    using label_perform [OF s2(2)] by blast
  have "Auto_Mount label_os list_libacl list_reader [] 1000 1001 label_device (sample_daemon ?w) = (Ok True, s3)"
    using s1(1) s2(1) s3(1)
    by (simp add: Auto_Mount_def Let_def label_mount_def [symmetric] noexceptp_def bindp_def)
      (simp add: label_device_def)
  then have "Auto_main label_env label_os list_libacl list_reader [] [''automount'', ''sdb1'', ''add'']
      (sample_daemon empty_world) = (Ok 0, s3)"
    by (simp add: Auto_main_def bindp_def tryp_def log dev)
  with s3(2) show ?thesis by blast
qed

theorem automount_mounts_once_witness:
  "\<exists>s' fl data. Auto_main label_env label_os list_libacl list_reader [] [''automount'', ''sdb1'', ''add'']
      (sample_daemon empty_world) = (Ok 0, s') \<and>
    EvMount ''/dev/sdb1'' ''/media/test_usb/../../x'' ''vfat'' fl data 0 \<in> set (st_trace s') \<and> mount_count s' \<le> 1"
proof -
  obtain s' fl data where s': "Auto_main label_env label_os list_libacl list_reader []
      [''automount'', ''sdb1'', ''add''] (sample_daemon empty_world) = (Ok 0, s')"
    "EvMount ''/dev/sdb1'' label_target ''vfat'' fl data 0 \<in> set (st_trace s')"
    using label_run by blast
  with automount_mounts_once [OF s'(1)] show ?thesis by (auto simp: label_target_def)
qed

section \<open>The search for a directory\<close>

text \<open>The names that are tried, in their order.\<close>

definition tried :: "string \<Rightarrow> nat \<Rightarrow> string" where
  "tried name n = name @ concat (replicate n ''_0'')"

lemma tried_Suc: "tried name (Suc n) = tried name n @ ''_0''"
proof -
  have "concat (replicate n ''_0'') @ ''_0'' = ''_0'' @ concat (replicate n ''_0'')"
    by (induction n) simp_all
  then show ?thesis by (simp add: tried_def)
qed

lemma tried_from: "tried (name @ ''_0'') n = tried name (Suc n)"
  by (simp add: tried_def)

lemma auto_endpoint_loop_skips:
  assumes "\<And>p. occupied os p w = (Ok (busy p), w)"
  shows "(\<And>j. j < k \<Longrightarrow> busy (tried name j)) \<Longrightarrow>
    auto_endpoint_loop os 0 name w = auto_endpoint_loop os 0 (tried name k) w"
proof (induction k)
  case 0
  then show ?case by (simp add: tried_def)
next
  case (Suc k)
  have "busy (tried name k)" using Suc.prems by simp
  then have "auto_endpoint_loop os 0 (tried name k) w = auto_endpoint_loop os 0 (tried name (Suc k)) w"
    by (simp add: auto_endpoint_loop_step [of os 0 "tried name k"] assms tried_Suc)
  with Suc show ?case by simp
qed

lemma auto_endpoint_loop_finds:
  assumes "auto_endpoint_loop os 0 name w = Some y" and "\<And>p. occupied os p w = (Ok (busy p), w)"
  shows "\<exists>n. \<not> busy (tried name n)"
proof -
  have "index = 0 \<longrightarrow> (\<forall>p. occupied os p w = (Ok (busy p), w)) \<longrightarrow> (\<exists>n. \<not> busy (tried endpoint n))"
    if "auto_endpoint_loop os index endpoint w = Some y" for os :: "'a os" and index endpoint w y
    using that
  proof (rule auto_endpoint_loop.raw_induct [rotated])
    fix loop :: "'a os \<Rightarrow> u32 \<Rightarrow> string \<Rightarrow> 'a \<Rightarrow> (string outcome \<times> 'a) option" and os index endpoint w y
    assume IH: "\<And>os index endpoint w y. loop os index endpoint w = Some y \<Longrightarrow>
        index = 0 \<longrightarrow> (\<forall>p. occupied os p w = (Ok (busy p), w)) \<longrightarrow> (\<exists>n. \<not> busy (tried endpoint n))"
      and run: "(case occupied os endpoint w of
          (Ok busy, w') \<Rightarrow>
            if \<not> busy then Some (Ok endpoint, w')
            else if index = 0 then loop os index (endpoint @ ''_0'') w'
            else loop os (index + 1) (butlast endpoint @ to_string index) w'
        | (Fail f, w') \<Rightarrow> Some (Fail f, w')) = Some y"
    show "index = 0 \<longrightarrow> (\<forall>p. occupied os p w = (Ok (busy p), w)) \<longrightarrow> (\<exists>n. \<not> busy (tried endpoint n))"
    proof (intro impI)
      assume i: "index = 0" and o: "\<forall>p. occupied os p w = (Ok (busy p), w)"
      show "\<exists>n. \<not> busy (tried endpoint n)"
      proof (cases "busy endpoint")
        case True
        with run i o have "loop os 0 (endpoint @ ''_0'') w = Some y" by simp
        with IH o tried_from show ?thesis by metis
      next
        case False
        then show ?thesis by (intro exI [of _ 0]) (simp add: tried_def)
      qed
    qed
  qed
  with assms show ?thesis by blast
qed

text \<open>
  The search for a free directory without a count. As long as nothing else changes the file
  system, the search of the prototype gives the first free one of the names \<open>n\<close>, \<open>n_0\<close>,
  \<open>n_0_0\<close> and so on: the index that the code means to append stays 0; when all of them are taken
  it does not end.
\<close>

theorem automount_endpoint_search:
  assumes "\<And>p. occupied os p w = (Ok (busy p), w)"
  shows "auto_endpoint_loop os 0 name w =
    (if \<exists>n. \<not> busy (tried name n)
     then Some (Ok (tried name (LEAST n. \<not> busy (tried name n))), w) else None)"
proof (cases "\<exists>n. \<not> busy (tried name n)")
  case True
  let ?n = "LEAST n. \<not> busy (tried name n)"
  have free: "\<not> busy (tried name ?n)" using True by (rule LeastI_ex)
  have "busy (tried name j)" if "j < ?n" for j using not_less_Least [OF that] by blast
  then have "auto_endpoint_loop os 0 name w = auto_endpoint_loop os 0 (tried name ?n) w"
    by (rule auto_endpoint_loop_skips [OF assms])
  also have "\<dots> = Some (Ok (tried name ?n), w)"
    using free by (simp add: auto_endpoint_loop_step [of os 0 "tried name ?n"] assms)
  finally show ?thesis using True by simp
next
  case False
  then show ?thesis
    using auto_endpoint_loop_finds [OF _ assms] by (cases "auto_endpoint_loop os 0 name w") auto
qed

text \<open>Two directories in use.\<close>

definition busy_world :: sample_world where
  "busy_world = empty_world\<lparr>sw_dirs := [''/m/a'', ''/m/a/x'', ''/m/a_0'', ''/m/a_0/x'']\<rparr>"

definition busy_path :: "string \<Rightarrow> bool" where
  "busy_path p \<longleftrightarrow> p \<in> set (sw_dirs busy_world) \<and> list_ex (\<lambda>d. starts_with d (p @ ''/'')) (sw_dirs busy_world)"

theorem automount_endpoint_search_witness:
  "auto_endpoint_loop label_os 0 ''/m/a'' busy_world = Some (Ok ''/m/a_0_0'', busy_world)"
proof -
  have o: "occupied label_os p busy_world = (Ok (busy_path p), busy_world)" for p
    by (simp add: occupied_def label_os_def busy_path_def busy_world_def empty_world_def bindp_def)
  have t: "tried ''/m/a'' 0 = ''/m/a''" "tried ''/m/a'' 1 = ''/m/a_0''" "tried ''/m/a'' 2 = ''/m/a_0_0''"
    by (simp_all add: tried_def numeral_eq_Suc)
  have b: "busy_path ''/m/a''" "busy_path ''/m/a_0''" "\<not> busy_path ''/m/a_0_0''"
    by (simp_all add: busy_path_def busy_world_def empty_world_def starts_with_def)
  have "(LEAST n. \<not> busy_path (tried ''/m/a'' n)) = 2"
  proof (rule Least_equality)
    show "\<not> busy_path (tried ''/m/a'' 2)" using t b by simp
    fix n
    assume "\<not> busy_path (tried ''/m/a'' n)"
    then have "n \<noteq> 0 \<and> n \<noteq> 1" using t(1,2) b(1,2) by metis
    then show "2 \<le> n" by linarith
  qed
  with automount_endpoint_search [OF o, of "''/m/a''"] t(3) b(3) show ?thesis by metis
qed

section \<open>Errors\<close>

text \<open>The fixed user must have an account: there is no test of the null pointer.\<close>

lemma automount_needs_account:
  assumes "fst (os_getpwuid os uid (st_world s)) = None"
    and "\<not> (xd_dev_type d = ''disk'' \<and> xd_filesystem d \<noteq> ''ntfs'')"
  shows "fst (Auto_Mount os lib rd err uid gid d s) = Fail Undefined"
  using assms
  by (auto simp: Auto_Mount_def Auto_CreateAclMountPoint_def noexceptp_def bindp_def os_call_run
      xm_uid_or_0_def value_or_def)

text \<open>A mount that fails is not reported: \<^verbatim>\<open>Mount\<close> returns true and the command 0.\<close>

lemma automount_ignores_failure:
  assumes "Auto_CreateAclMountPoint os lib rd err
      \<lparr>xm_device = d, xm_uid = Some uid, xm_gid = Some gid, xm_base = None, xm_end = None\<rparr> s = (Ok (True, cm1), s1)"
    and "Auto_CreatMountEndpoint os cm1 s1 = (Ok (True, cm2), s2)"
    and "Auto_PerfomMount os cm2 s2 = (Ok mounted, s3)"
    and "\<not> (xd_dev_type d = ''disk'' \<and> xd_filesystem d \<noteq> ''ntfs'')"
  shows "Auto_Mount os lib rd err uid gid d s = (Ok True, s3)"
  using assms by (auto simp: Auto_Mount_def Let_def noexceptp_def bindp_def)

text \<open>A device in the enumeration without a node stops the search for ever.\<close>

lemma automount_search_hangs:
  assumes "os_udev_from_syspath os path = (\<lambda>w. (Some d, w))" and "udev_devnode d = None"
  shows "auto_find_loop os name (Some path # rest) found w = None"
proof -
  have "os_udev_from_syspath os path = (\<lambda>w. (Some d, w)) \<longrightarrow> entries \<noteq> Some path # rest"
    if "auto_find_loop os name entries found w = Some y" for os :: "'a os" and name entries found w y
    using that
    by (rule auto_find_loop.raw_induct [rotated])
      (auto simp: assms(2) split: list.splits option.splits prod.splits, blast)
  with assms(1) show ?thesis
    by (cases "auto_find_loop os name (Some path # rest) found w") blast+
qed

end
