(* ===== verification/Udisks_Client.thy ===== *)
theory Udisks_Client
  imports Std_Text
begin

text \<open>
  \<^verbatim>\<open>daemon/unused/udisks_dbus.cpp\<close>, a client of UDisks that the daemon no longer uses: it
  asks UDisks for the object of a block device, removes its mounts, and mounts it for the user
  \<^verbatim>\<open>test\<close>. The bus is a parameter; the pauses are left out.
\<close>

section \<open>The client\<close>

text \<open>
  Every call may throw \<^verbatim>\<open>sdbus::Error\<close>, which is a \<^verbatim>\<open>std::runtime_error\<close>. A list of mount
  points is a list of byte strings.
\<close>

record 'w udisks =
  ub_proxy :: "string \<Rightarrow> ('w, unit) prog"
  ub_resolve :: "string \<Rightarrow> ('w, string list) prog"
  ub_introspect :: "string \<Rightarrow> ('w, string) prog"
  ub_mountpoints :: "string \<Rightarrow> ('w, string list) prog"
  ub_unmount :: "string \<Rightarrow> ('w, unit) prog"
  ub_mount :: "string \<Rightarrow> string \<Rightarrow> ('w, string) prog"

definition UdisksDbus_construct :: "'w udisks \<Rightarrow> ('w, unit) prog" where
  "UdisksDbus_construct ud = ub_proxy ud ''/org/freedesktop/UDisks2/Manager''"

text \<open>The attempts that are left, and the list of the last one.\<close>

fun resolve_loop :: "'w udisks \<Rightarrow> string \<Rightarrow> nat \<Rightarrow> string list \<Rightarrow> ('w, string list) prog" where
  "resolve_loop ud dev 0 obj_path = ret obj_path"
| "resolve_loop ud dev (Suc n) obj_path =
     bindp (ub_resolve ud dev) (\<lambda>obj_path.
       if obj_path \<noteq> [] then ret obj_path else resolve_loop ud dev n obj_path)"

text \<open>The loop that unmounts asks again after every call, without a limit.\<close>

partial_function (option) unmount_loop ::
  "'w udisks \<Rightarrow> string \<Rightarrow> string list \<Rightarrow> 'w \<Rightarrow> (unit outcome \<times> 'w) option" where
  "unmount_loop ud obj mountpoints w =
     (if mountpoints = [] then Some (Ok (), w)
      else case ub_unmount ud obj w of
        (r, w1) \<Rightarrow>
          (case r of
             Fail f \<Rightarrow> Some (Fail f, w1)
           | Ok _ \<Rightarrow>
               (case ub_mountpoints ud obj w1 of
                  (r2, w2) \<Rightarrow>
                    (case r2 of
                       Fail f \<Rightarrow> Some (Fail f, w2)
                     | Ok ms \<Rightarrow> unmount_loop ud obj ms w2))))"

definition filesystem_interface :: string where
  "filesystem_interface = ''org.freedesktop.UDisks2.Filesystem''"

text \<open>\<^verbatim>\<open>obj_path[0]\<close> is not checked.\<close>

definition Udisks_ProcessDevice :: "'w udisks \<Rightarrow> string \<Rightarrow> ('w, bool) prog" where
  "Udisks_ProcessDevice ud block_name =
     bindp (resolve_loop ud block_name 10 []) (\<lambda>obj_path. case obj_path of
       [] \<Rightarrow> fail Undefined
     | obj # _ \<Rightarrow>
         bindp (ub_proxy ud obj) (\<lambda>_.
         bindp (ub_introspect ud obj) (\<lambda>xml.
         bindp (if contains xml filesystem_interface
                then bindp (ub_mountpoints ud obj) (\<lambda>mountpoints.
                     bindp (hangp (unmount_loop ud obj mountpoints)) (\<lambda>_.
                     bindp (ub_mount ud obj ''test'') (\<lambda>mount_path. ret ())))
                else ret ()) (\<lambda>_.
         ret (obj_path = [])))))"

section \<open>Facts\<close>

lemma unmount_loop_step:
  "unmount_loop ud obj [] w = Some (Ok (), w)"
  "ub_unmount ud obj w = (Ok u, w1) \<Longrightarrow> ub_mountpoints ud obj w1 = (Ok ms', w2) \<Longrightarrow>
   unmount_loop ud obj (m # ms) w = unmount_loop ud obj ms' w2"
  by (simp_all add: unmount_loop.simps [of ud obj "m # ms"] unmount_loop.simps [of ud obj "[]"])

text \<open>What UDisks documents: the property gives the mount points of the object, and a successful
  \<^verbatim>\<open>Unmount\<close> removes one of them.\<close>

definition unmounts_one :: "'w udisks \<Rightarrow> string \<Rightarrow> ('w \<Rightarrow> string list) \<Rightarrow> bool" where
  "unmounts_one ud obj mps \<longleftrightarrow>
     (\<forall>w. ub_mountpoints ud obj w = (Ok (mps w), w)) \<and>
     (\<forall>w. mps w \<noteq> [] \<longrightarrow> (\<exists>w'. ub_unmount ud obj w = (Ok (), w') \<and> length (mps w') < length (mps w)))"

lemma unmount_loop_ends:
  assumes "unmounts_one ud obj mps"
  shows "\<exists>w'. unmount_loop ud obj (mps w) w = Some (Ok (), w') \<and> mps w' = []"
proof (induction "length (mps w)" arbitrary: w rule: less_induct)
  case less
  show ?case
  proof (cases "mps w")
    case Nil
    then show ?thesis by (simp add: unmount_loop_step(1))
  next
    case (Cons m ms)
    then obtain w1 where w1: "ub_unmount ud obj w = (Ok (), w1)" "length (mps w1) < length (mps w)"
      using assms unfolding unmounts_one_def by (metis list.distinct(1))
    have "unmount_loop ud obj (mps w) w = unmount_loop ud obj (mps w1) w1"
      unfolding Cons by (rule unmount_loop_step(2) [OF w1(1)]) (use assms in \<open>simp add: unmounts_one_def\<close>)
    with less.hyps [OF w1(2)] show ?thesis by simp
  qed
qed

text \<open>An unmount that changes nothing is repeated for ever.\<close>

lemma unmount_loop_stuck:
  assumes "ub_unmount ud obj w = (Ok (), w)" and "ub_mountpoints ud obj w = (Ok (m # ms), w)"
  shows "unmount_loop ud obj (m # ms) w = None"
proof -
  have "ub_unmount ud obj w = (Ok (), w) \<and> ub_mountpoints ud obj w = (Ok (m # ms), w) \<longrightarrow> mps \<noteq> m # ms"
    if "unmount_loop ud obj mps w = Some y" for ud :: "'a udisks" and obj mps w y
    using that
  proof (rule unmount_loop.raw_induct [rotated])
    fix loop :: "'a udisks \<Rightarrow> string \<Rightarrow> string list \<Rightarrow> 'a \<Rightarrow> (unit outcome \<times> 'a) option" and ud obj w y and mps :: "string list"
    assume IH: "\<And>ud obj mps w y. loop ud obj mps w = Some y \<Longrightarrow>
        ub_unmount ud obj w = (Ok (), w) \<and> ub_mountpoints ud obj w = (Ok (m # ms), w) \<longrightarrow> mps \<noteq> m # ms"
      and run: "(if mps = [] then Some (Ok (), w)
        else case ub_unmount ud obj w of
          (Ok _, w1) \<Rightarrow>
            (case ub_mountpoints ud obj w1 of (Ok ms, w2) \<Rightarrow> loop ud obj ms w2 | (Fail f, w2) \<Rightarrow> Some (Fail f, w2))
        | (Fail f, w1) \<Rightarrow> Some (Fail f, w1)) = Some y"
    show "ub_unmount ud obj w = (Ok (), w) \<and> ub_mountpoints ud obj w = (Ok (m # ms), w) \<longrightarrow> mps \<noteq> m # ms"
    proof (intro impI notI)
      assume a: "ub_unmount ud obj w = (Ok (), w) \<and> ub_mountpoints ud obj w = (Ok (m # ms), w)" and "mps = m # ms"
      with run have "loop ud obj (m # ms) w = Some y" by simp
      with IH a show False by blast
    qed
  qed
  with assms show ?thesis by (cases "unmount_loop ud obj (m # ms) w") blast+
qed

lemma resolve_loop_empty:
  assumes "\<And>w. \<exists>w'. ub_resolve ud dev w = (Ok [], w')"
  shows "\<exists>w'. resolve_loop ud dev n [] w = (Ok [], w')"
proof (induction n arbitrary: w)
  case (Suc n)
  obtain w1 where "ub_resolve ud dev w = (Ok [], w1)" using assms by blast
  then show ?case using Suc by simp
qed simp

section \<open>Properties\<close>

text \<open>
  The client of UDisks. A device that ten questions do not resolve makes it read the first
  element of an empty list. A device that is resolved has none of its old mounts when it is
  mounted, the loop ending because every call removes one; and the answer is false, the value
  that the function computes for every device that it handled.
\<close>

theorem udisks_process_device:
  shows "((\<forall>w. \<exists>w'. ub_resolve ud dev w = (Ok [], w')) \<longrightarrow>
      fst (Udisks_ProcessDevice ud dev w) = Fail Undefined) \<and>
    (ub_resolve ud dev w = (Ok (obj # objs), w1) \<longrightarrow> ub_proxy ud obj w1 = (Ok (), w2) \<longrightarrow>
     ub_introspect ud obj w2 = (Ok xml, w3) \<longrightarrow> contains xml filesystem_interface \<longrightarrow>
     unmounts_one ud obj mps \<longrightarrow>
      (\<exists>w4. mps w4 = [] \<and> Udisks_ProcessDevice ud dev w =
        (case ub_mount ud obj ''test'' w4 of (Ok path, w5) \<Rightarrow> (Ok False, w5) | (Fail f, w5) \<Rightarrow> (Fail f, w5))))"
proof (intro conjI impI)
  assume "\<forall>w. \<exists>w'. ub_resolve ud dev w = (Ok [], w')"
  then obtain w' where "resolve_loop ud dev 10 [] w = (Ok [], w')" using resolve_loop_empty by metis
  then show "fst (Udisks_ProcessDevice ud dev w) = Fail Undefined" by (simp add: Udisks_ProcessDevice_def)
next
  assume r: "ub_resolve ud dev w = (Ok (obj # objs), w1)" and p: "ub_proxy ud obj w1 = (Ok (), w2)"
    and i: "ub_introspect ud obj w2 = (Ok xml, w3)" and c: "contains xml filesystem_interface"
    and u: "unmounts_one ud obj mps"
  obtain w4 where w4: "unmount_loop ud obj (mps w3) w3 = Some (Ok (), w4)" "mps w4 = []"
    using unmount_loop_ends [OF u] by blast
  have ten: "(10 :: nat) = Suc 9" by simp
  have "resolve_loop ud dev 10 [] w = (Ok (obj # objs), w1)"
    unfolding ten resolve_loop.simps using r by simp
  moreover have "ub_mountpoints ud obj w3 = (Ok (mps w3), w3)" using u by (simp add: unmounts_one_def)
  ultimately have "Udisks_ProcessDevice ud dev w =
      (case ub_mount ud obj ''test'' w4 of (Ok path, w5) \<Rightarrow> (Ok False, w5) | (Fail f, w5) \<Rightarrow> (Fail f, w5))"
    using p i c w4(1) by (simp add: Udisks_ProcessDevice_def bindp_def hangp_def
        split: prod.splits outcome.splits)
  with w4(2) show "\<exists>w4. mps w4 = [] \<and> Udisks_ProcessDevice ud dev w =
      (case ub_mount ud obj ''test'' w4 of (Ok path, w5) \<Rightarrow> (Ok False, w5) | (Fail f, w5) \<Rightarrow> (Fail f, w5))"
    by blast
qed

text \<open>A bus whose world is the list of mount points of one device.\<close>

definition sample_udisks :: "string list udisks" where
  "sample_udisks = \<lparr>ub_proxy = \<lambda>p w. (Ok (), w), ub_resolve = \<lambda>d w. (Ok [''/obj''], w),
     ub_introspect = \<lambda>p w. (Ok filesystem_interface, w), ub_mountpoints = \<lambda>p w. (Ok w, w),
     ub_unmount = \<lambda>p w. (Ok (), tl w), ub_mount = \<lambda>p u w. (Ok ''/media/test'', ''/media/test'' # w)\<rparr>"

theorem udisks_process_device_witness:
  "Udisks_ProcessDevice sample_udisks ''/dev/sdb1'' [''/a'', ''/b''] = (Ok False, [''/media/test''])"
proof -
  have "contains filesystem_interface filesystem_interface"
    by (simp add: filesystem_interface_def starts_with_def)
  moreover have "unmounts_one sample_udisks ''/obj'' id"
    by (simp add: unmounts_one_def sample_udisks_def)
  ultimately obtain w4 where "id w4 = []" "Udisks_ProcessDevice sample_udisks ''/dev/sdb1'' [''/a'', ''/b''] =
      (case ub_mount sample_udisks ''/obj'' ''test'' w4 of (Ok path, w5) \<Rightarrow> (Ok False, w5) | (Fail f, w5) \<Rightarrow> (Fail f, w5))"
    using udisks_process_device [of sample_udisks "''/dev/sdb1''" "[''/a'', ''/b'']" "''/obj''" "[]"
        "[''/a'', ''/b'']" "[''/a'', ''/b'']" filesystem_interface "[''/a'', ''/b'']" id]
    by (auto simp: sample_udisks_def)
  then show ?thesis by (simp add: sample_udisks_def)
qed

end
