(* ===== verification/Spec2Isabelle.thy ===== *)
theory Spec2Isabelle
  imports Review_Tables Table_Threads Durable_Tables Automount Udisks_Client
begin

text \<open>
  A verification development for \<^verbatim>\<open>alterator-usbmount\<close>: a daemon that mounts USB block
  devices for the users and groups that an administrator names in a table of rules, a helper
  that polkit asks, and the backend of an Alterator module with which the rules are edited.

  \<^bold>\<open>The program.\<close> The daemon (\<^verbatim>\<open>src/daemon\<close>) keeps two tables in JSON files: the rules
  (\<^verbatim>\<open>dal/device_permissions.cpp\<close>) and the mount points it has made
  (\<^verbatim>\<open>dal/mount_points.cpp\<close>), both on top of \<^verbatim>\<open>dal/table.cpp\<close>. A thread follows the
  events of udev (\<^verbatim>\<open>udev_monitor.cpp\<close>), mounts a device that a rule names
  (\<^verbatim>\<open>custom_mount.cpp\<close>), and reviews the table of mount points from time to time
  (\<^verbatim>\<open>utils.cpp\<close>). The methods on the system bus (\<^verbatim>\<open>dbus_methods.cpp\<close>) answer polkit,
  list devices and rules and save the form of the user interface. The backend
  (\<^verbatim>\<open>src/alterator_usbmount/backend\<close>) takes requests from its standard input with the
  reader of \<^verbatim>\<open>src/alterator_bindings\<close>, calls the daemon or systemd
  (\<^verbatim>\<open>src/common/systemd_dbus.cpp\<close>), reads the log (\<^verbatim>\<open>src/common/log_reader.cpp\<close>) and
  prints Lisp lists. Two older parts are kept in the sources: the first form of the program, a
  command that udev starts (\<^verbatim>\<open>src/experimental/automount\<close>), and a client of UDisks
  (\<^verbatim>\<open>src/daemon/unused\<close>).

  \<^bold>\<open>The theories, from the bottom up.\<close>

  \<^item> \<open>Usb_Prelude\<close>: outcomes of a C++ call, programs with state and exceptions, and the rules
    \<open>keeps\<close> (a predicate of the state) and \<open>yields\<close> (a predicate of the result).
  \<^item> \<open>Std_Text\<close>, \<open>Std_Map\<close>, \<open>Json_Value\<close>: what is used of the standard library, of Boost's
    string algorithms and of Boost.JSON.
  \<^item> \<open>Dal_Dto\<close>, \<open>Dal_Table\<close>, \<open>Dal_Mount_Points\<close>, \<open>Dal_Permissions\<close>: \<^verbatim>\<open>daemon/dal\<close>, the
    transfer objects and the tables with their files, locks and transactions. The locales
    \<open>ordered_store\<close>, \<open>json_dto\<close> and \<open>table_rows\<close> are the contracts of the map, of a row and
    of a table of rows; both tables interpret them.
  \<^item> \<open>Table_Threads\<close>: the locking of the tables with several threads, access by access.
  \<^item> \<open>Daemon_State\<close>: the operating system as a record of calls, the state of the daemon, and a
    trace of the system calls that change something.
  \<^item> \<open>Daemon_Utils\<close>, \<open>Udev_Device\<close>, \<open>Acl_Model\<close>: \<^verbatim>\<open>utils.cpp\<close> and
    \<^verbatim>\<open>usb_udev_device.cpp\<close>.
  \<^item> \<open>Custom_Mount\<close>: \<^verbatim>\<open>custom_mount.cpp\<close>, mounting and unmounting. \<open>Log_Text\<close>: the text of an
    access control list and the making of the log, from \<^verbatim>\<open>utils.cpp\<close>.
  \<^item> \<open>Udev_Monitor\<close>, \<open>Dbus_Methods\<close>, \<open>Daemon_Main\<close>: the monitor, the methods with the table by
    which the bus finds them, the process with its signals, and \<^verbatim>\<open>polkit/main.cpp\<close>.
  \<^item> \<open>Daemon_Start\<close>: the constructors, \<^verbatim>\<open>Daemon::Run\<close> and \<^verbatim>\<open>main\<close>, and a step
    relation for the three threads of the process with the signals that the system delivers.
    \<open>Durable_Tables\<close>: the tables and their files over the life of a daemon and over a restart.
  \<^item> \<open>Lisp_Text\<close>, \<open>Message_Reader\<close>: \<^verbatim>\<open>alterator_bindings\<close>. The locale \<open>escaping\<close> is what
    an escaping function owes to the reader of Lisp strings.
  \<^item> \<open>Log_Reader\<close>, \<open>Systemd_Dbus\<close>: \<^verbatim>\<open>src/common\<close>.
  \<^item> \<open>Usb_Backend\<close>: the whole backend. \<open>Backend_Daemon\<close>: the backend with the daemon behind its
    bus, which is an instance of the locale \<open>total_bus\<close>. \<open>Plug_In\<close>: from a saved form
    to a mounted stick, and to the table as it was when the stick is pulled out, on a system whose
    calls succeed. \<open>Start_Up\<close>: the sticks that were connected before the daemon started.
    \<open>Review_Tables\<close>: a review of the table of mount points.
  \<^item> \<open>Automount\<close>, \<open>Udisks_Client\<close>: the two older parts.

  A definition has the name of the C++ function it models; a name that two classes share has the
  class in front (\<open>UsbMount_Run\<close>, \<open>Dispatch_SaveRules\<close>), and one of the older command has
  \<open>Auto\<close> in front.

  \<^bold>\<open>What the groups of lemmas show.\<close> The tables: every operation keeps the invariant (keys in
  order, locks as the flag of the transaction says), refines the operation on the map, and what
  is written is read again. Mounting: each system call is below the root of the daemon, with
  \<^verbatim>\<open>MS_NOSUID\<close> and \<^verbatim>\<open>MS_NODEV\<close>, for the owner that the rule names, and a mount is
  recorded; and when the calls of the system succeed, a stick with a rule is mounted, where and how
  its rule says, whether it is plugged in later or was connected before the start. The monitor: only a device with a rule is mounted, a review comes at
  the latest after its period, and it leaves exactly the rows that are mounted and connected. The methods: a saved form means a change of a map, form by form and section
  by section. The process: both facts hold in every state that any order of calls reaches. The
  backend: one answer for every request, what is printed is read back by the frontend, the pages
  of the log partition it, a job for systemd ends; and with the daemon attached, a form goes from
  the text of the request to the table and back to the text of the answer. The life of the daemon:
  the files hold the text of the tables whenever no transaction is open, so a restart loses
  nothing; a start that fails and the end after a signal, in every interleaving of the threads.
  The older command: it mounts once, below \<^verbatim>\<open>/media\<close> as far as the text of the path goes, and
  gives a directory the same access control list as the daemon. Where the code does
  not do what it means to, the theorem states what it does (a form that is refused, a device that
  hangs the search, a daemon that does not answer, a page number that overflows).

  \<^bold>\<open>How the code is modelled.\<close> A call gives an \<open>outcome\<close>: a value, an exception, the end of the
  process, undefined behaviour or a run that never ends. Machine integers are words where they
  can wrap. The operating system, libudev, libacl, the bus, systemd, the JSON library and the
  files are parameters, records of functions on a world of any type; hypotheses on them say what
  they document (a written file keeps its text, a serialized value is parsed again, the bus
  raises its own exception) and each has a concrete instance in a witness. A directory iterator
  and an enumeration of udev are read as a whole. Threads are interleaved call by call, and a lock
  that is never released is the outcome \<open>Hangs\<close>; the asynchronous review runs as one of these
  calls. How the threads and the signals of the process interleave is in \<open>Daemon_Start\<close>. What
  threads can do to each other inside the calls of a table is the subject of
  \<open>Table_Threads\<close>: the table of mount points, which has no transactions, is free of races; a
  transaction on the table of rules is not isolated from the threads that read it. Log messages are left
  out, and so are pauses.

  \<^bold>\<open>Bounds and fuel.\<close> The search for a free directory is a partial function; it ends
  because every try makes the name longer and no path longer than the limit of the system exists
  (\<open>path_limit\<close>, any limit below \<open>2 ^ 31\<close>). The loop over ACL entries has the limit 100 of the
  source, the search for a serial number 3 parents, \<^verbatim>\<open>UnUtf8\<close> a million steps, a job for
  systemd eleven questions; these limits are in the code, and the recursions follow them. The
  loops over udev, in the daemon and in the older command, that may not end are partial functions
  as well, where \<open>None\<close> is the run without an end; so are the search for a directory of the older
  command and the loop with which the client of UDisks unmounts. That client asks ten times for an
  object.
  The loops of the process and of the monitor consume the list of signals or events that they are
  given.

  \<^bold>\<open>Not modelled.\<close> The test programs, with \<^verbatim>\<open>experimental/fstab_test.cpp\<close> and
  \<^verbatim>\<open>experimental/automount/mount_test.cpp\<close>, which try out calls of the system; the user
  interface in JavaScript, which is another language; \<^verbatim>\<open>common/boost_json.cpp\<close>, one include
  of a library; the helper \<^verbatim>\<open>since\<close>, which measures time and which nothing calls;
  \<^verbatim>\<open>Clone\<close>, which is the identity on values; \<^verbatim>\<open>UdevEnumerateFree\<close>, which returns memory;
  and what is written to the logs, except the text of an access control list, the text of a device
  and the form of a line. Every other function with a body is modelled; the rest of the headers
  declares these functions, deletes copies and names the members that the records hold.
\<close>

end
